(* ===== verification/Prelude.thy ===== *)
theory Prelude
  imports
    "HOL-Library.Word"
    "HOL-Library.AList"
    "HOL-Library.Char_ord"
    "HOL-Library.List_Lexorder"
    "HOL-Library.Product_Lexorder"
    "HOL-Library.Multiset"
    "HOL-Library.Code_Target_Numeral"
begin

text \<open>
  Shared vocabulary of the development: the Rust integers, results, strings and hash maps the
  components of \<^verbatim>\<open>keli-core-rs\<close> are written with, and the generic lemmas about them.

  \<^item> Integers whose overflow behaviour the code spells out (\<^verbatim>\<open>u64::saturating_add\<close> and its kin)
    are words; counts (\<^verbatim>\<open>usize\<close> lengths) are \<^typ>\<open>nat\<close>, with saturation written out.
  \<^item> \<^verbatim>\<open>Result<T, E>\<close> is \<open>'e + 'a\<close>, \<open>Inl\<close> being \<^verbatim>\<open>Err\<close>; \<^verbatim>\<open>?\<close> is \<open>and_then\<close>.
  \<^item> \<^verbatim>\<open>String\<close> and \<^verbatim>\<open>&str\<close> are \<^typ>\<open>string\<close>, a list of UTF-8 bytes; \<^verbatim>\<open>str::trim\<close> removes the
    encodings of all twenty-five Unicode \<^verbatim>\<open>White_Space\<close> characters, not only the ASCII ones.
  \<^item> \<^verbatim>\<open>HashMap<K, V>\<close> is an association list without repeated keys. The list order plays the part
    of the unspecified iteration order, so properties are stated through \<^const>\<open>map_of\<close> and for
    every list.
  \<^item> \<^verbatim>\<open>Instant\<close> and \<^verbatim>\<open>Duration\<close> are \<^typ>\<open>nat\<close> nanoseconds; the clock reading is an argument.
\<close>

section \<open>Integers\<close>

type_synonym u8 = "8 word"
type_synonym u16 = "16 word"
type_synonym u32 = "32 word"
type_synonym u64 = "64 word"
type_synonym u128 = "128 word"
type_synonym instant = nat
type_synonym duration = nat

named_theorems rust_defs \<open>definitions of the modelled standard library, for evaluation\<close>
named_theorems result_simps \<open>equations that unfold successful results\<close>

definition saturating_add :: "'a::len word \<Rightarrow> 'a word \<Rightarrow> 'a word" where
  "saturating_add a b = (if unat a + unat b < 2 ^ LENGTH('a) then a + b else - 1)"

definition saturating_mul :: "'a::len word \<Rightarrow> 'a word \<Rightarrow> 'a word" where
  "saturating_mul a b = (if unat a * unat b < 2 ^ LENGTH('a) then a * b else - 1)"

definition usize_max :: nat where
  "usize_max = 2 ^ 64 - 1"

definition usize_saturating_add :: "nat \<Rightarrow> nat \<Rightarrow> nat" where
  "usize_saturating_add a b = min (a + b) usize_max"

definition secs :: "nat \<Rightarrow> duration" where
  "secs n = n * 1000000000"

lemma unat_max_word: "unat (- 1 :: 'a::len word) = 2 ^ LENGTH('a) - 1"
  by (simp add: unsigned_minus_1_eq_mask mask_eq_exp_minus_1)

lemma unat_saturating_add:
  "unat (saturating_add a (b :: 'a::len word)) = min (unat a + unat b) (2 ^ LENGTH('a) - 1)"
  by (auto simp: saturating_add_def unat_word_ariths unat_max_word min_def)

lemma saturating_add_exact:
  "unat a + unat b < 2 ^ LENGTH('a) \<Longrightarrow> unat (saturating_add a (b :: 'a::len word)) = unat a + unat b"
  by (simp add: unat_saturating_add)

lemma saturating_add_zero [simp]: "saturating_add 0 a = a" "saturating_add a 0 = a"
  by (simp_all add: saturating_add_def)

lemma saturating_add_commute: "saturating_add a b = saturating_add b (a :: 'a::len word)"
  by (simp add: saturating_add_def add.commute)

lemma saturating_add_assoc:
  "saturating_add (saturating_add a b) c = saturating_add a (saturating_add b (c :: 'a::len word))"
proof -
  have "min (min (x + y) m + z) m = min (x + min (y + z) m) m" for x y z m :: nat
    by (simp add: min_def)
  then have "unat (saturating_add (saturating_add a b) c) = unat (saturating_add a (saturating_add b c))"
    by (simp only: unat_saturating_add)
  then show ?thesis by (simp add: word_unat_eq_iff)
qed

section \<open>Results\<close>

text \<open>A result whose error is a message: \<^verbatim>\<open>ValidationError\<close> wraps exactly one string.\<close>

type_synonym 'a checked = "string + 'a"

definition and_then :: "'e + 'a \<Rightarrow> ('a \<Rightarrow> 'e + 'b) \<Rightarrow> 'e + 'b" where
  "and_then r k = (case r of Inl e \<Rightarrow> Inl e | Inr x \<Rightarrow> k x)"

definition ensure :: "bool \<Rightarrow> 'e \<Rightarrow> 'e + unit" where
  "ensure ok e = (if ok then Inr () else Inl e)"

text \<open>\<^verbatim>\<open>for x in xs { f(x)?; }\<close>\<close>

fun for_each :: "('a \<Rightarrow> 'e + unit) \<Rightarrow> 'a list \<Rightarrow> 'e + unit" where
  "for_each f [] = Inr ()"
| "for_each f (x # xs) = and_then (f x) (\<lambda>_. for_each f xs)"

lemma and_then_simps [simp]:
  "and_then (Inl e) k = Inl e"
  "and_then (Inr x) k = k x"
  by (simp_all add: and_then_def)

lemma and_then_Inr_iff [result_simps]:
  "and_then r k = Inr y \<longleftrightarrow> (\<exists>x. r = Inr x \<and> k x = Inr y)"
  by (cases r) auto

lemma ensure_Inr_iff [result_simps]: "ensure ok e = Inr u \<longleftrightarrow> ok"
  by (simp add: ensure_def)

lemma ensure_Inl_iff: "ensure ok e = Inl e' \<longleftrightarrow> \<not> ok \<and> e' = e"
  by (auto simp: ensure_def)

lemma for_each_Inr_iff [result_simps]:
  "for_each f xs = Inr u \<longleftrightarrow> (\<forall>x \<in> set xs. f x = Inr ())"
  by (induction xs) (auto simp: and_then_Inr_iff)

text \<open>The loop stops at the first element that fails.\<close>

lemma for_each_append:
  "for_each f (xs @ ys) = and_then (for_each f xs) (\<lambda>_. for_each f ys)"
  by (induction xs) (simp_all add: and_then_def split: sum.split)

lemma for_each_first_error:
  assumes "\<forall>y \<in> set pre. f y = Inr ()" and "f x = Inl e"
  shows "for_each f (pre @ x # post) = Inl e"
  using assms for_each_Inr_iff [of f pre "()"] by (simp add: for_each_append)

section \<open>Loops over a state\<close>

text \<open>A loop refines another when every iteration does, under an invariant both carry.\<close>

lemma fold_simulates:
  assumes "\<And>x s. x \<in> set xs \<Longrightarrow> I s \<Longrightarrow> I (f x s) \<and> a (f x s) = g x (a s)" and "I s"
  shows "I (fold f xs s) \<and> a (fold f xs s) = fold g xs (a s)"
  using assms
proof (induction xs arbitrary: s)
  case Nil
  then show ?case by simp
next
  case (Cons x xs)
  from Cons.prems have "I (f x s)" and eq: "a (f x s) = g x (a s)" by auto
  moreover have "y \<in> set xs \<Longrightarrow> I s \<Longrightarrow> I (f y s) \<and> a (f y s) = g y (a s)" for y s
    using Cons.prems(1) by simp
  ultimately show ?case using Cons.IH [of "f x s"] by simp
qed

lemma fold_invariant_on:
  assumes "\<And>x s. x \<in> set xs \<Longrightarrow> I s \<Longrightarrow> I (f x s)" and "I s"
  shows "I (fold f xs s)"
  using assms by (induction xs arbitrary: s) auto

section \<open>Hash maps\<close>

text \<open>
  \<^verbatim>\<open>get\<close>, \<^verbatim>\<open>insert\<close>, \<^verbatim>\<open>remove\<close>, \<^verbatim>\<open>len\<close> and \<^verbatim>\<open>retain\<close> of \<^verbatim>\<open>std::collections::HashMap\<close>;
  \<open>hm_wf\<close> is the representation invariant (a key occurs once).
\<close>

type_synonym ('k, 'v) hmap = "('k \<times> 'v) list"

abbreviation hm_get :: "('k, 'v) hmap \<Rightarrow> 'k \<Rightarrow> 'v option" where
  "hm_get \<equiv> map_of"

definition hm_insert :: "'k \<Rightarrow> 'v \<Rightarrow> ('k, 'v) hmap \<Rightarrow> ('k, 'v) hmap" where
  "hm_insert k v m = AList.update k v m"

definition hm_remove :: "'k \<Rightarrow> ('k, 'v) hmap \<Rightarrow> ('k, 'v) hmap" where
  "hm_remove k m = filter (\<lambda>(k', _). k' \<noteq> k) m"

definition hm_retain :: "('k \<Rightarrow> 'v \<Rightarrow> bool) \<Rightarrow> ('k, 'v) hmap \<Rightarrow> ('k, 'v) hmap" where
  "hm_retain P m = filter (\<lambda>(k, v). P k v) m"

definition hm_contains :: "('k, 'v) hmap \<Rightarrow> 'k \<Rightarrow> bool" where
  "hm_contains m k \<longleftrightarrow> hm_get m k \<noteq> None"

definition hm_wf :: "('k, 'v) hmap \<Rightarrow> bool" where
  "hm_wf m \<longleftrightarrow> distinct (map fst m)"

text \<open>\<^verbatim>\<open>iter().map(f).collect::<HashMap<_, _>>()\<close>: later pairs win.\<close>

definition hm_collect :: "('k \<times> 'v) list \<Rightarrow> ('k, 'v) hmap" where
  "hm_collect ps = fold (\<lambda>(k, v). hm_insert k v) ps []"

lemma find_SomeD: "find P xs = Some x \<Longrightarrow> x \<in> set xs \<and> P x"
  by (auto simp: find_Some_iff)

lemma option_eqI: "(\<And>v. x = Some v \<longleftrightarrow> y = Some v) \<Longrightarrow> x = y"
  by (metis option.exhaust)

lemma hm_get_insert [simp]: "hm_get (hm_insert k v m) = (map_of m)(k \<mapsto> v)"
  by (simp add: hm_insert_def update_conv')

lemma hm_get_remove [simp]: "hm_get (hm_remove k m) = (map_of m)(k := None)"
  by (induction m) (auto simp: hm_remove_def fun_eq_iff)

lemma hm_get_retain:
  "hm_wf m \<Longrightarrow> hm_get (hm_retain P m) k = (case hm_get m k of None \<Rightarrow> None | Some v \<Rightarrow> if P k v then Some v else None)"
  by (induction m) (auto simp: hm_retain_def hm_wf_def map_of_eq_None_iff split: option.splits
      intro!: map_of_eq_None_iff [THEN iffD2])

lemma hm_wf_Nil [simp]: "hm_wf []"
  by (simp add: hm_wf_def)

lemma hm_wf_insert [simp, intro]: "hm_wf m \<Longrightarrow> hm_wf (hm_insert k v m)"
  by (simp add: hm_wf_def hm_insert_def distinct_update)

lemma hm_wf_filter: "hm_wf m \<Longrightarrow> hm_wf (filter P m)"
  by (simp add: hm_wf_def distinct_map_filter)

lemma hm_wf_remove [simp, intro]: "hm_wf m \<Longrightarrow> hm_wf (hm_remove k m)"
  by (simp add: hm_remove_def hm_wf_filter)

lemma hm_wf_retain [simp, intro]: "hm_wf m \<Longrightarrow> hm_wf (hm_retain P m)"
  by (simp add: hm_retain_def hm_wf_filter)

lemma hm_contains_iff: "hm_contains m k \<longleftrightarrow> k \<in> fst ` set m"
  by (simp add: hm_contains_def map_of_eq_None_iff)

lemma hm_len_card: "hm_wf m \<Longrightarrow> length m = card (dom (map_of m))"
  using distinct_card [of "map fst m"] by (simp add: hm_wf_def dom_map_of_conv_image_fst)

lemma length_hm_insert:
  "length (hm_insert k v m) = (if hm_contains m k then length m else Suc (length m))"
  by (induction m) (auto simp: hm_insert_def hm_contains_def)

lemma length_hm_remove:
  assumes "hm_wf m"
  shows "length (hm_remove k m) = (if hm_contains m k then length m - 1 else length m)"
proof -
  have "dom (map_of (hm_remove k m)) = dom (map_of m) - {k}"
    by auto
  moreover have "k \<in> dom (map_of m) \<longleftrightarrow> hm_contains m k"
    by (auto simp: hm_contains_def)
  moreover have "finite (dom (map_of m))"
    by (rule finite_dom_map_of)
  ultimately show ?thesis
    using assms hm_len_card [OF assms] hm_len_card [OF hm_wf_remove [OF assms, of k]]
    by (simp add: card_Diff_singleton_if)
qed

lemma hm_contains_pos: "hm_contains m k \<Longrightarrow> 0 < length m"
  by (cases m) (auto simp: hm_contains_def)

lemma set_hm_remove: "set (hm_remove k m) = {(k', v) \<in> set m. k' \<noteq> k}"
  by (auto simp: hm_remove_def)

lemma hm_wf_in_set: "hm_wf m \<Longrightarrow> (k, v) \<in> set m \<longleftrightarrow> hm_get m k = Some v"
  by (simp add: hm_wf_def map_of_eq_Some_iff)

lemma set_hm_insert:
  assumes "hm_wf m"
  shows "set (hm_insert k v m) = insert (k, v) {(k', v') \<in> set m. k' \<noteq> k}"
proof (rule set_eqI)
  fix p :: "'a \<times> 'b"
  obtain k' v' where p: "p = (k', v')" by force
  show "p \<in> set (hm_insert k v m) \<longleftrightarrow> p \<in> insert (k, v) {(k', v') \<in> set m. k' \<noteq> k}"
    using hm_wf_in_set [OF hm_wf_insert [OF assms], of k' v' k v] hm_wf_in_set [OF assms, of k' v']
    by (auto simp: p)
qed

lemma hm_collect_fold:
  "hm_wf m \<Longrightarrow> hm_wf (fold (\<lambda>(k, v). hm_insert k v) ps m)
     \<and> map_of (fold (\<lambda>(k, v). hm_insert k v) ps m) = map_of m ++ map_of (rev ps)"
proof (induction ps arbitrary: m)
  case Nil
  then show ?case by simp
next
  case (Cons p ps)
  obtain k v where p: "p = (k, v)" by force
  have "hm_wf (hm_insert k v m)" using Cons.prems by simp
  note IH = Cons.IH [OF this]
  have "map_of m ++ map_of (rev ((k, v) # ps)) = map_of (hm_insert k v m) ++ map_of (rev ps)"
    by (rule ext) (simp add: map_add_def split: option.split)
  with IH show ?case by (simp only: p fold_simps prod.case)
qed

lemma hm_wf_collect [simp]: "hm_wf (hm_collect ps)"
  using hm_collect_fold [of "[]" ps] by (simp add: hm_collect_def)

lemma hm_get_collect: "map_of (hm_collect ps) = map_of (rev ps)"
  using hm_collect_fold [of "[]" ps] by (simp add: hm_collect_def)

end
