(* ===== verification/Users.thy ===== *)
theory Users
  imports Rust_Text
begin

text \<open>
  The user tables of \<^verbatim>\<open>src/user.rs\<close>: the \<^verbatim>\<open>CoreUser\<close> record, the interning pool behind
  \<^verbatim>\<open>shared_core_user\<close>, and the four ways a listener keeps its users (a store keyed by uuid, a
  store keyed by a credential, a sorted vector, a map keyed by a derived key) together with the
  delta each applies. \<open>delta_spec\<close> is what a delta means; the locale \<open>user_table\<close> of
  theory \<open>User_Tables\<close> is the contract every table keeps.
\<close>

section \<open>Users and deltas\<close>

record core_user =
  cu_id :: u64
  cu_uuid :: string
  cu_password :: "string option"
  cu_email :: "string option"
  cu_speed_limit :: u64
  cu_device_limit :: u32

record core_user_delta =
  d_added :: "core_user list"
  d_updated :: "core_user list"
  d_deleted :: "string list"
  d_full :: "core_user list option"
  d_base_revision :: "string option"
  d_revision :: "string option"

record core_user_delta_result =
  r_added :: nat
  r_updated :: nat
  r_deleted :: nat
  r_missing_updated :: nat
  r_missing_deleted :: nat
  r_active_users :: nat
  r_full_applied :: bool

definition default_result :: core_user_delta_result where
  "default_result =
     \<lparr>r_added = 0, r_updated = 0, r_deleted = 0, r_missing_updated = 0, r_missing_deleted = 0,
      r_active_users = 0, r_full_applied = False\<rparr>"

definition credential :: "core_user \<Rightarrow> string" where
  "credential u = (case cu_password u of Some p \<Rightarrow> p | None \<Rightarrow> cu_uuid u)"

definition traffic_key :: "core_user \<Rightarrow> string \<Rightarrow> string" where
  "traffic_key u node_tag = node_tag @ ''|'' @ cu_uuid u"

definition user_is_empty :: "core_user \<Rightarrow> bool" where
  "user_is_empty u \<longleftrightarrow> trim (cu_uuid u) = []"

definition count_added :: "core_user_delta_result \<Rightarrow> core_user_delta_result" where
  "count_added r = r\<lparr>r_added := r_added r + 1\<rparr>"

definition count_updated :: "core_user_delta_result \<Rightarrow> core_user_delta_result" where
  "count_updated r = r\<lparr>r_updated := r_updated r + 1\<rparr>"

definition count_deleted :: "core_user_delta_result \<Rightarrow> core_user_delta_result" where
  "count_deleted r = r\<lparr>r_deleted := r_deleted r + 1\<rparr>"

definition count_missing_updated :: "core_user_delta_result \<Rightarrow> core_user_delta_result" where
  "count_missing_updated r = r\<lparr>r_missing_updated := r_missing_updated r + 1\<rparr>"

definition count_missing_deleted :: "core_user_delta_result \<Rightarrow> core_user_delta_result" where
  "count_missing_deleted r = r\<lparr>r_missing_deleted := r_missing_deleted r + 1\<rparr>"

definition full_result :: "nat \<Rightarrow> core_user_delta_result" where
  "full_result active = default_result\<lparr>r_active_users := active, r_full_applied := True\<rparr>"

lemmas count_defs =
  count_added_def count_updated_def count_deleted_def count_missing_updated_def
  count_missing_deleted_def full_result_def default_result_def

section \<open>The interning pool\<close>

text \<open>
  A pool bucket holds weak pointers. A weak pointer is modelled by the user it points to and
  the number of strong pointers still alive; it upgrades when that number is positive. The hash
  is \<^verbatim>\<open>DefaultHasher\<close>, whose algorithm the library leaves open, so it is an argument.
\<close>

record weak_user =
  w_user :: core_user
  w_strong :: nat

type_synonym user_pool = "(u64, weak_user list) hmap"

record pool_snapshot =
  ps_buckets :: nat
  ps_active :: nat
  ps_stale :: nat

fun upgrade_first :: "core_user \<Rightarrow> weak_user list \<Rightarrow> (core_user \<times> weak_user list) option" where
  "upgrade_first u [] = None"
| "upgrade_first u (w # ws) =
     (if 0 < w_strong w \<and> w_user w = u
      then Some (w_user w, w\<lparr>w_strong := w_strong w + 1\<rparr> # ws)
      else map_option (apsnd (Cons w)) (upgrade_first u ws))"

definition shared_core_user :: "(core_user \<Rightarrow> u64) \<Rightarrow> core_user \<Rightarrow> user_pool \<Rightarrow> core_user \<times> user_pool" where
  "shared_core_user fingerprint u pool =
     (let fp = fingerprint u;
          bucket = filter (\<lambda>w. 0 < w_strong w) (case hm_get pool fp of None \<Rightarrow> [] | Some b \<Rightarrow> b)
      in case upgrade_first u bucket of
           Some (existing, bucket') \<Rightarrow> (existing, hm_insert fp bucket' pool)
         | None \<Rightarrow> (u, hm_insert fp (bucket @ [\<lparr>w_user = u, w_strong = 1\<rparr>]) pool))"

definition shared_core_user_pool_snapshot :: "user_pool \<Rightarrow> pool_snapshot" where
  "shared_core_user_pool_snapshot pool =
     \<lparr>ps_buckets = length pool,
      ps_active = length (filter (\<lambda>w. 0 < w_strong w) (concat (map snd pool))),
      ps_stale = length (filter (\<lambda>w. \<not> 0 < w_strong w) (concat (map snd pool)))\<rparr>"

section \<open>Stores keyed by a string\<close>

text \<open>\<^verbatim>\<open>UserStore\<close>: one atomically replaced map; writers hold a lock, so each operation is a step.\<close>

type_synonym 'k user_map = "('k, core_user) hmap"
type_synonym 'k tally = "'k user_map \<times> core_user_delta_result"

definition keyed_user_state :: "(core_user \<Rightarrow> 'k) \<Rightarrow> core_user list \<Rightarrow> 'k user_map" where
  "keyed_user_state key users =
     fold (\<lambda>u m. if user_is_empty u then m else hm_insert (key u) u m) users []"

definition replace_keyed_users :: "(core_user \<Rightarrow> 'k) \<Rightarrow> core_user list \<Rightarrow> 'k user_map \<Rightarrow> 'k user_map" where
  "replace_keyed_users key users store = keyed_user_state key users"

definition replace_uuid_users :: "core_user list \<Rightarrow> string user_map \<Rightarrow> string user_map" where
  "replace_uuid_users = replace_keyed_users cu_uuid"

definition store_list :: "'k user_map \<Rightarrow> core_user list" where
  "store_list store = sort_key cu_uuid (map snd store)"

definition uuid_add_one :: "core_user \<Rightarrow> string tally \<Rightarrow> string tally" where
  "uuid_add_one u = (\<lambda>(m, r).
     if user_is_empty u then (m, r)
     else (hm_insert (cu_uuid u) u m,
           if hm_contains m (cu_uuid u) then count_updated r else count_added r))"

definition uuid_update_one :: "core_user \<Rightarrow> string tally \<Rightarrow> string tally" where
  "uuid_update_one u = (\<lambda>(m, r).
     if user_is_empty u then (m, r)
     else if hm_contains m (cu_uuid u) then (hm_insert (cu_uuid u) u m, count_updated r)
     else (m, count_missing_updated r))"

definition uuid_delete_one :: "string \<Rightarrow> string tally \<Rightarrow> string tally" where
  "uuid_delete_one uuid = (\<lambda>(m, r).
     (hm_remove uuid m, if hm_contains m uuid then count_deleted r else count_missing_deleted r))"

definition finish_delta :: "'k tally \<Rightarrow> 'k tally" where
  "finish_delta = (\<lambda>(m, r). (m, r\<lparr>r_active_users := length m\<rparr>))"

definition apply_uuid_delta :: "core_user_delta \<Rightarrow> string user_map \<Rightarrow> string tally" where
  "apply_uuid_delta d store =
     (case d_full d of
        Some full \<Rightarrow>
          (let next = keyed_user_state cu_uuid full in (next, full_result (length next)))
      | None \<Rightarrow>
          finish_delta
            (fold uuid_delete_one (d_deleted d)
              (fold uuid_update_one (d_updated d)
                (fold uuid_add_one (d_added d) (store, default_result)))))"

text \<open>\<^verbatim>\<open>remove_arc_user_by_uuid\<close>: drop the first entry whose user has that uuid.\<close>

definition remove_user_by_uuid :: "string \<Rightarrow> 'k user_map \<Rightarrow> 'k user_map option" where
  "remove_user_by_uuid uuid m =
     (case find (\<lambda>(k, u). cu_uuid u = uuid) m of
        None \<Rightarrow> None
      | Some (k, u) \<Rightarrow> Some (hm_remove k m))"

definition keyed_add_one :: "(core_user \<Rightarrow> 'k) \<Rightarrow> core_user \<Rightarrow> 'k tally \<Rightarrow> 'k tally" where
  "keyed_add_one key u = (\<lambda>(m, r).
     if user_is_empty u then (m, r)
     else case remove_user_by_uuid (cu_uuid u) m of
            Some m' \<Rightarrow> (hm_insert (key u) u m', count_updated r)
          | None \<Rightarrow> (hm_insert (key u) u m, count_added r))"

definition keyed_update_one :: "(core_user \<Rightarrow> 'k) \<Rightarrow> core_user \<Rightarrow> 'k tally \<Rightarrow> 'k tally" where
  "keyed_update_one key u = (\<lambda>(m, r).
     if user_is_empty u then (m, r)
     else case remove_user_by_uuid (cu_uuid u) m of
            Some m' \<Rightarrow> (hm_insert (key u) u m', count_updated r)
          | None \<Rightarrow> (m, count_missing_updated r))"

definition keyed_delete_one :: "string \<Rightarrow> 'k tally \<Rightarrow> 'k tally" where
  "keyed_delete_one uuid = (\<lambda>(m, r).
     case remove_user_by_uuid uuid m of
       Some m' \<Rightarrow> (m', count_deleted r)
     | None \<Rightarrow> (m, count_missing_deleted r))"

definition apply_keyed_delta :: "(core_user \<Rightarrow> 'k) \<Rightarrow> core_user_delta \<Rightarrow> 'k user_map \<Rightarrow> 'k tally" where
  "apply_keyed_delta key d store =
     (case d_full d of
        Some full \<Rightarrow>
          (let next = keyed_user_state key full in (next, full_result (length next)))
      | None \<Rightarrow>
          finish_delta
            (fold keyed_delete_one (d_deleted d)
              (fold (keyed_update_one key) (d_updated d)
                (fold (keyed_add_one key) (d_added d) (store, default_result)))))"

section \<open>Sorted vectors and derived keys\<close>

definition active_user_vec :: "core_user list \<Rightarrow> core_user list" where
  "active_user_vec users = sort_key cu_uuid (filter (\<lambda>u. \<not> user_is_empty u) users)"

definition apply_user_delta_to_vec ::
    "core_user_delta \<Rightarrow> core_user list \<Rightarrow> core_user list \<times> core_user_delta_result" where
  "apply_user_delta_to_vec d users =
     (case d_full d of
        Some full \<Rightarrow> (let us = active_user_vec full in (us, full_result (length us)))
      | None \<Rightarrow>
          (let by_uuid = hm_collect (map (\<lambda>u. (cu_uuid u, u)) (filter (\<lambda>u. \<not> user_is_empty u) users));
               (m, r) = fold uuid_delete_one (d_deleted d)
                          (fold uuid_update_one (d_updated d)
                            (fold uuid_add_one (d_added d) (by_uuid, default_result)));
               us = sort_key cu_uuid (map snd m)
           in (us, r\<lparr>r_active_users := length us\<rparr>)))"

text \<open>
  \<^verbatim>\<open>apply_user_delta_to_keyed_map\<close> keeps an index from uuid to key beside the map while it runs.
\<close>

type_synonym 'k indexed_tally = "'k user_map \<times> (string, 'k) hmap \<times> core_user_delta_result"

definition map_add_one :: "(core_user \<Rightarrow> 'k option) \<Rightarrow> core_user \<Rightarrow> 'k indexed_tally \<Rightarrow> 'k indexed_tally" where
  "map_add_one key u = (\<lambda>(m, ix, r).
     if user_is_empty u then (m, ix, r)
     else case key u of
            None \<Rightarrow> (m, ix, r)
          | Some k \<Rightarrow>
              (case hm_get ix (cu_uuid u) of
                 Some old \<Rightarrow>
                   (hm_insert k u (hm_remove old m), hm_insert (cu_uuid u) k ix, count_updated r)
               | None \<Rightarrow> (hm_insert k u m, hm_insert (cu_uuid u) k ix, count_added r)))"

definition map_update_one :: "(core_user \<Rightarrow> 'k option) \<Rightarrow> core_user \<Rightarrow> 'k indexed_tally \<Rightarrow> 'k indexed_tally" where
  "map_update_one key u = (\<lambda>(m, ix, r).
     if user_is_empty u then (m, ix, r)
     else case key u of
            None \<Rightarrow> (m, ix, count_missing_updated r)
          | Some k \<Rightarrow>
              (case hm_get ix (cu_uuid u) of
                 Some old \<Rightarrow>
                   (hm_insert k u (hm_remove old m), hm_insert (cu_uuid u) k ix, count_updated r)
               | None \<Rightarrow>
                   (m, hm_remove (cu_uuid u) (hm_insert (cu_uuid u) k ix), count_missing_updated r)))"

definition map_delete_one :: "string \<Rightarrow> 'k indexed_tally \<Rightarrow> 'k indexed_tally" where
  "map_delete_one uuid = (\<lambda>(m, ix, r).
     case hm_get ix uuid of
       Some k \<Rightarrow>
         (hm_remove k m, hm_remove uuid ix,
          if hm_contains m k then count_deleted r else count_missing_deleted r)
     | None \<Rightarrow> (m, ix, count_missing_deleted r))"

definition apply_user_delta_to_keyed_map ::
    "(core_user \<Rightarrow> 'k option) \<Rightarrow> core_user_delta \<Rightarrow> 'k user_map \<Rightarrow> 'k tally" where
  "apply_user_delta_to_keyed_map key d users =
     (case d_full d of
        Some full \<Rightarrow>
          (let next = fold (\<lambda>u m. if user_is_empty u then m
                                  else case key u of None \<Rightarrow> m | Some k \<Rightarrow> hm_insert k u m) full []
           in (next, full_result (length next)))
      | None \<Rightarrow>
          (let uuid_keys = hm_collect (map (\<lambda>(k, u). (cu_uuid u, k)) users);
               (m, ix, r) = fold map_delete_one (d_deleted d)
                              (fold (map_update_one key) (d_updated d)
                                (fold (map_add_one key) (d_added d) (users, uuid_keys, default_result)))
           in (m, r\<lparr>r_active_users := length m\<rparr>)))"

text \<open>
  The variant over \<^verbatim>\<open>Arc<CoreUser>\<close> runs the same loops and stores \<^verbatim>\<open>shared_core_user(user)\<close>; the
  pool returns a pointer to an equal user, so at the level of values it is the same function.
\<close>

definition apply_user_delta_to_keyed_arc_map ::
    "(core_user \<Rightarrow> 'k option) \<Rightarrow> core_user_delta \<Rightarrow> 'k user_map \<Rightarrow> 'k tally" where
  "apply_user_delta_to_keyed_arc_map = apply_user_delta_to_keyed_map"

section \<open>What a delta means\<close>

text \<open>
  The abstract view of a table is the partial map from uuid to user. A full snapshot replaces
  the view; otherwise additions insert or replace, updates replace only present users, and
  deletions remove. The counters of the result are part of the specification.
\<close>

type_synonym user_view = "string \<rightharpoonup> core_user"
type_synonym view_tally = "user_view \<times> core_user_delta_result"

definition spec_add :: "core_user \<Rightarrow> view_tally \<Rightarrow> view_tally" where
  "spec_add u = (\<lambda>(v, r).
     if user_is_empty u then (v, r)
     else (v(cu_uuid u \<mapsto> u), if v (cu_uuid u) = None then count_added r else count_updated r))"

definition spec_update :: "core_user \<Rightarrow> view_tally \<Rightarrow> view_tally" where
  "spec_update u = (\<lambda>(v, r).
     if user_is_empty u then (v, r)
     else if v (cu_uuid u) = None then (v, count_missing_updated r)
     else (v(cu_uuid u \<mapsto> u), count_updated r))"

definition spec_delete :: "string \<Rightarrow> view_tally \<Rightarrow> view_tally" where
  "spec_delete uuid = (\<lambda>(v, r).
     (v(uuid := None), if v uuid = None then count_missing_deleted r else count_deleted r))"

definition view_of_users :: "core_user list \<Rightarrow> user_view" where
  "view_of_users users =
     fold (\<lambda>u v. if user_is_empty u then v else v(cu_uuid u \<mapsto> u)) users Map.empty"

definition delta_spec :: "core_user_delta \<Rightarrow> user_view \<Rightarrow> view_tally" where
  "delta_spec d v =
     (case d_full d of
        Some full \<Rightarrow> (view_of_users full, full_result (card (dom (view_of_users full))))
      | None \<Rightarrow>
          (let (v', r) = fold spec_delete (d_deleted d)
                           (fold spec_update (d_updated d)
                             (fold spec_add (d_added d) (v, default_result)))
           in (v', r\<lparr>r_active_users := card (dom v')\<rparr>)))"

text \<open>The user records a delta carries.\<close>

definition delta_users :: "core_user_delta \<Rightarrow> core_user set" where
  "delta_users d = set (d_added d) \<union> set (d_updated d) \<union> (case d_full d of None \<Rightarrow> {} | Some f \<Rightarrow> set f)"

lemma spec_add_apply:
  "spec_add u (v, r) =
     (if user_is_empty u then (v, r)
      else (v(cu_uuid u \<mapsto> u), if v (cu_uuid u) = None then count_added r else count_updated r))"
  by (simp add: spec_add_def)

lemma spec_update_apply:
  "spec_update u (v, r) =
     (if user_is_empty u then (v, r)
      else if v (cu_uuid u) = None then (v, count_missing_updated r)
      else (v(cu_uuid u \<mapsto> u), count_updated r))"
  by (simp add: spec_update_def)

lemma spec_delete_apply:
  "spec_delete uuid (v, r) =
     (v(uuid := None), if v uuid = None then count_missing_deleted r else count_deleted r)"
  by (simp add: spec_delete_def)

lemmas spec_applies = spec_add_apply spec_update_apply spec_delete_apply

lemma view_of_users_Nil [simp]: "view_of_users [] = Map.empty"
  by (simp add: view_of_users_def)

lemma view_of_users_snoc:
  "view_of_users (us @ [u]) =
     (if user_is_empty u then view_of_users us else (view_of_users us)(cu_uuid u \<mapsto> u))"
  by (simp add: view_of_users_def)

text \<open>Closed forms of the three loops and of a whole delta.\<close>

lemma view_fold_eq:
  "fold (\<lambda>u v. if user_is_empty u then v else v(cu_uuid u \<mapsto> u)) us v = v ++ view_of_users us"
proof (induction us rule: rev_induct)
  case Nil
  then show ?case by simp
next
  case (snoc u us)
  then show ?case by (simp add: view_of_users_snoc fun_eq_iff map_add_def)
qed

lemma spec_add_fold: "fst (fold spec_add us (v, r)) = v ++ view_of_users us"
proof -
  have "fst (fold spec_add us (v, r)) =
      fold (\<lambda>u v. if user_is_empty u then v else v(cu_uuid u \<mapsto> u)) us v"
    by (induction us arbitrary: v r) (auto simp: spec_add_apply)
  then show ?thesis by (simp add: view_fold_eq)
qed

lemma spec_update_fold:
  "fst (fold spec_update us (v, r)) k =
     (case v k of None \<Rightarrow> None
      | Some u \<Rightarrow> (case view_of_users us k of None \<Rightarrow> Some u | Some u' \<Rightarrow> Some u'))"
proof (induction us rule: rev_induct)
  case Nil
  then show ?case by (simp split: option.split)
next
  case (snoc x us)
  obtain v' r' where s: "fold spec_update us (v, r) = (v', r')" by force
  with snoc.IH have "v' k = (case v k of None \<Rightarrow> None
      | Some u \<Rightarrow> (case view_of_users us k of None \<Rightarrow> Some u | Some u' \<Rightarrow> Some u'))"
    by simp
  with s show ?case
    by (cases "v k"; cases "k = cu_uuid x") (simp_all add: spec_update_apply view_of_users_snoc split: option.split)
qed

lemma spec_delete_fold:
  "fst (fold spec_delete uuids (v, r)) = (\<lambda>k. if k \<in> set uuids then None else v k)"
  by (induction uuids arbitrary: v r) (auto simp: spec_delete_apply fun_eq_iff)

lemma delta_spec_view:
  "fst (delta_spec d v) k =
     (case d_full d of
        Some full \<Rightarrow> view_of_users full k
      | None \<Rightarrow>
          (if k \<in> set (d_deleted d) then None
           else case (v ++ view_of_users (d_added d)) k of
                  None \<Rightarrow> None
                | Some u \<Rightarrow> (case view_of_users (d_updated d) k of None \<Rightarrow> Some u | Some u' \<Rightarrow> Some u')))"
proof (cases "d_full d")
  case (Some full)
  then show ?thesis by (simp add: delta_spec_def)
next
  case None
  obtain v1 r1 where s1: "fold spec_add (d_added d) (v, default_result) = (v1, r1)" by force
  obtain v2 r2 where s2: "fold spec_update (d_updated d) (v1, r1) = (v2, r2)" by force
  have v1: "v1 = v ++ view_of_users (d_added d)"
    using spec_add_fold [of "d_added d" v default_result] by (simp add: s1)
  have "fst (delta_spec d v) = fst (fold spec_delete (d_deleted d) (v2, r2))"
    using None by (auto simp: delta_spec_def s1 s2 Let_def split: prod.splits)
  then have "fst (delta_spec d v) k = (if k \<in> set (d_deleted d) then None else v2 k)"
    by (simp add: spec_delete_fold)
  moreover have "v2 k = fst (fold spec_update (d_updated d) (v1, r1)) k"
    by (simp add: s2)
  ultimately show ?thesis
    using None by (simp only: spec_update_fold v1 option.case)
qed

lemma dom_view_of_users: "dom (view_of_users us) = cu_uuid ` {u \<in> set us. \<not> user_is_empty u}"
proof -
  have "dom (fold (\<lambda>u v. if user_is_empty u then v else v(cu_uuid u \<mapsto> u)) us v)
     = dom v \<union> cu_uuid ` {u \<in> set us. \<not> user_is_empty u}" for v
    by (induction us arbitrary: v) auto
  then show ?thesis by (simp add: view_of_users_def)
qed

lemma view_of_users_None: "k \<notin> cu_uuid ` set us \<Longrightarrow> view_of_users us k = None"
proof -
  assume "k \<notin> cu_uuid ` set us"
  then have "k \<notin> dom (view_of_users us)" by (auto simp: dom_view_of_users)
  then show ?thesis by (simp add: domIff)
qed

lemma finite_dom_view_of_users [simp]: "finite (dom (view_of_users us))"
  by (simp add: dom_view_of_users)

text \<open>Applying the same delta again changes nothing, so a retried command is harmless.\<close>

lemma delta_spec_idem: "fst (delta_spec d (fst (delta_spec d v))) = fst (delta_spec d v)"
  by (rule ext) (auto simp: delta_spec_view map_add_def split: option.split)

text \<open>Users enter and leave the table only as the counters say.\<close>

definition tally_balanced :: "nat \<Rightarrow> view_tally \<Rightarrow> bool" where
  "tally_balanced n = (\<lambda>(v, r). finite (dom v) \<and> card (dom v) + r_deleted r = n + r_added r)"

lemma spec_add_balanced: "tally_balanced n s \<Longrightarrow> tally_balanced n (spec_add u s)"
  by (cases s) (auto simp: tally_balanced_def spec_add_apply count_defs domIff insert_absorb)

lemma spec_update_balanced: "tally_balanced n s \<Longrightarrow> tally_balanced n (spec_update u s)"
  by (cases s) (auto simp: tally_balanced_def spec_update_apply count_defs domIff insert_absorb)

lemma spec_delete_balanced:
  assumes "tally_balanced n s"
  shows "tally_balanced n (spec_delete k s)"
proof -
  obtain v r where s: "s = (v, r)" by force
  show ?thesis
  proof (cases "k \<in> dom v")
    case True
    with assms have "0 < card (dom v)" by (auto simp: s tally_balanced_def card_gt_0_iff)
    with assms True show ?thesis
      by (auto simp: s tally_balanced_def spec_delete_apply count_defs)
  next
    case False
    with assms show ?thesis
      by (auto simp: s tally_balanced_def spec_delete_apply count_defs domIff)
  qed
qed

lemma folds_balanced:
  "tally_balanced n s \<Longrightarrow> tally_balanced n (fold spec_add us s)"
  "tally_balanced n s \<Longrightarrow> tally_balanced n (fold spec_update us s)"
  "tally_balanced n s \<Longrightarrow> tally_balanced n (fold spec_delete uuids s)"
  by (rule fold_invariant_on; simp add: spec_add_balanced spec_update_balanced spec_delete_balanced)+

lemma delta_spec_accounting:
  assumes "d_full d = None" and "finite (dom v)" and "delta_spec d v = (v', r)"
  shows "r_active_users r + r_deleted r = card (dom v) + r_added r"
proof -
  let ?s = "fold spec_delete (d_deleted d) (fold spec_update (d_updated d)
              (fold spec_add (d_added d) (v, default_result)))"
  have "tally_balanced (card (dom v)) (v, default_result)"
    using assms(2) by (simp add: tally_balanced_def default_result_def)
  then have "tally_balanced (card (dom v)) ?s"
    by (simp add: folds_balanced)
  with assms(1,3) show ?thesis
    by (auto simp: delta_spec_def tally_balanced_def Let_def split: prod.splits)
qed

end
