(* ===== verification/User_Tables.thy ===== *)
theory User_Tables
  imports Users
begin

text \<open>
  Every user table of \<^verbatim>\<open>src/user.rs\<close> implements \<open>delta_spec\<close>. The locale \<open>user_table\<close> states the
  contract once and derives what a listener relies on; the four interpretations discharge it for
  \<^verbatim>\<open>apply_uuid_delta\<close>, \<^verbatim>\<open>apply_keyed_delta\<close>, \<^verbatim>\<open>apply_user_delta_to_vec\<close> and
  \<^verbatim>\<open>apply_user_delta_to_keyed_map\<close>. The last section is about the interning pool.
\<close>

section \<open>The contract\<close>

locale user_table =
  fixes view :: "'t \<Rightarrow> user_view"
    and inv :: "'t \<Rightarrow> bool"
    and accepts :: "core_user_delta \<Rightarrow> 't \<Rightarrow> bool"
    and apply_delta :: "core_user_delta \<Rightarrow> 't \<Rightarrow> 't \<times> core_user_delta_result"
  assumes refines:
      "inv t \<Longrightarrow> accepts d t \<Longrightarrow>
         (view (fst (apply_delta d t)), snd (apply_delta d t)) = delta_spec d (view t)"
    and preserves: "inv t \<Longrightarrow> accepts d t \<Longrightarrow> inv (fst (apply_delta d t))"
    and finite_view: "inv t \<Longrightarrow> finite (dom (view t))"
begin

lemma view_apply:
  "inv t \<Longrightarrow> accepts d t \<Longrightarrow> view (fst (apply_delta d t)) = fst (delta_spec d (view t))"
  using refines [of t d] by (metis fst_conv)

lemma result_apply:
  "inv t \<Longrightarrow> accepts d t \<Longrightarrow> snd (apply_delta d t) = snd (delta_spec d (view t))"
  using refines [of t d] by (metis snd_conv)

text \<open>A deleted user is gone, whatever the delta adds or updates besides.\<close>

lemma deleted_gone:
  assumes "inv t" "accepts d t" "d_full d = None" "uuid \<in> set (d_deleted d)"
  shows "view (fst (apply_delta d t)) uuid = None"
  using assms by (simp add: view_apply delta_spec_view)

text \<open>After a full snapshot exactly its users with a non-blank uuid are present.\<close>

lemma full_exact:
  assumes "inv t" "accepts d t" "d_full d = Some full"
  shows "view (fst (apply_delta d t)) = view_of_users full"
  using assms by (simp add: view_apply delta_spec_view fun_eq_iff)

text \<open>A user the delta does not name keeps their entry.\<close>

lemma untouched_kept:
  assumes "inv t" "accepts d t" "d_full d = None"
    and "uuid \<notin> cu_uuid ` set (d_added d)" "uuid \<notin> cu_uuid ` set (d_updated d)"
    and "uuid \<notin> set (d_deleted d)"
  shows "view (fst (apply_delta d t)) uuid = view t uuid"
proof -
  have "view_of_users (d_added d) uuid = None" "view_of_users (d_updated d) uuid = None"
    using assms(4,5) by (simp_all add: view_of_users_None)
  with assms show ?thesis
    by (simp add: view_apply delta_spec_view map_add_def split: option.split)
qed

text \<open>Applying a delta twice is applying it once.\<close>

lemma retry_harmless:
  assumes "inv t" "accepts d t" "accepts d (fst (apply_delta d t))"
  shows "view (fst (apply_delta d (fst (apply_delta d t)))) = view (fst (apply_delta d t))"
  using assms preserves [of t d] by (simp add: view_apply delta_spec_idem)

text \<open>The reported counters balance the change in the number of users.\<close>

lemma accounting:
  assumes "inv t" "accepts d t" "d_full d = None"
  shows "r_active_users (snd (apply_delta d t)) + r_deleted (snd (apply_delta d t))
           = card (dom (view t)) + r_added (snd (apply_delta d t))"
  using delta_spec_accounting [OF assms(3) finite_view [OF assms(1)]] assms
  by (metis result_apply surjective_pairing)

text \<open>Two tables with the same view stay in step, results included.\<close>

lemma same_view_same_result:
  assumes "inv t" "accepts d t" "inv t'" "accepts d t'" "view t = view t'"
  shows "view (fst (apply_delta d t)) = view (fst (apply_delta d t'))"
    and "snd (apply_delta d t) = snd (apply_delta d t')"
  using assms by (simp_all add: view_apply result_apply)

end

section \<open>The store keyed by uuid\<close>

definition uuid_store_inv :: "string user_map \<Rightarrow> bool" where
  "uuid_store_inv m \<longleftrightarrow> hm_wf m \<and> (\<forall>(k, u) \<in> set m. k = cu_uuid u \<and> \<not> user_is_empty u)"

definition tally_view :: "('k user_map \<Rightarrow> user_view) \<Rightarrow> 'k tally \<Rightarrow> view_tally" where
  "tally_view view = (\<lambda>(m, r). (view m, r))"

lemma uuid_store_inv_insert:
  "uuid_store_inv m \<Longrightarrow> \<not> user_is_empty u \<Longrightarrow> uuid_store_inv (hm_insert (cu_uuid u) u m)"
  by (auto simp: uuid_store_inv_def set_hm_insert)

lemma uuid_store_inv_remove: "uuid_store_inv m \<Longrightarrow> uuid_store_inv (hm_remove k m)"
  by (auto simp: uuid_store_inv_def set_hm_remove)

lemma uuid_add_one_refines:
  "uuid_store_inv (fst s) \<Longrightarrow>
     uuid_store_inv (fst (uuid_add_one u s)) \<and>
     tally_view map_of (uuid_add_one u s) = spec_add u (tally_view map_of s)"
  by (cases s) (auto simp: tally_view_def uuid_add_one_def spec_add_apply hm_contains_def
      uuid_store_inv_insert)

lemma uuid_update_one_refines:
  "uuid_store_inv (fst s) \<Longrightarrow>
     uuid_store_inv (fst (uuid_update_one u s)) \<and>
     tally_view map_of (uuid_update_one u s) = spec_update u (tally_view map_of s)"
  by (cases s) (auto simp: tally_view_def uuid_update_one_def spec_update_apply hm_contains_def
      uuid_store_inv_insert)

lemma uuid_delete_one_refines:
  "uuid_store_inv (fst s) \<Longrightarrow>
     uuid_store_inv (fst (uuid_delete_one k s)) \<and>
     tally_view map_of (uuid_delete_one k s) = spec_delete k (tally_view map_of s)"
  by (cases s) (auto simp: tally_view_def uuid_delete_one_def spec_delete_apply hm_contains_def
      uuid_store_inv_remove)

text \<open>The three loops of a delta refine the specification when their bodies do.\<close>

lemma delta_loops_refine:
  fixes d :: core_user_delta
  assumes add: "\<And>u s. u \<in> set (d_added d) \<Longrightarrow> I s \<Longrightarrow> I (fa u s) \<and> a (fa u s) = spec_add u (a s)"
    and upd: "\<And>u s. u \<in> set (d_updated d) \<Longrightarrow> I s \<Longrightarrow> I (fu u s) \<and> a (fu u s) = spec_update u (a s)"
    and del: "\<And>k s. I s \<Longrightarrow> I (fd k s) \<and> a (fd k s) = spec_delete k (a s)"
    and "I s"
  shows "I (fold fd (d_deleted d) (fold fu (d_updated d) (fold fa (d_added d) s))) \<and>
         a (fold fd (d_deleted d) (fold fu (d_updated d) (fold fa (d_added d) s))) =
           fold spec_delete (d_deleted d) (fold spec_update (d_updated d)
             (fold spec_add (d_added d) (a s)))"
proof -
  let ?s1 = "fold fa (d_added d) s" and ?s2 = "fold fu (d_updated d) (fold fa (d_added d) s)"
  have 1: "I ?s1 \<and> a ?s1 = fold spec_add (d_added d) (a s)"
    by (rule fold_simulates [where I = I]) (simp_all add: add \<open>I s\<close>)
  have 2: "I ?s2 \<and> a ?s2 = fold spec_update (d_updated d) (a ?s1)"
    by (rule fold_simulates [where I = I]) (simp_all add: upd 1)
  have "I (fold fd (d_deleted d) ?s2) \<and>
      a (fold fd (d_deleted d) ?s2) = fold spec_delete (d_deleted d) (a ?s2)"
    by (rule fold_simulates [where I = I]) (simp_all add: del 2)
  with 1 2 show ?thesis by simp
qed

lemma delta_spec_of_loops:
  assumes "d_full d = None"
    and "(v', r') = fold spec_delete (d_deleted d) (fold spec_update (d_updated d)
           (fold spec_add (d_added d) (v, default_result)))"
  shows "delta_spec d v = (v', r'\<lparr>r_active_users := card (dom v')\<rparr>)"
  using assms by (simp add: delta_spec_def assms(2) [symmetric])

lemma keyed_user_state_uuid:
  "uuid_store_inv (keyed_user_state cu_uuid us) \<and>
   map_of (keyed_user_state cu_uuid us) = view_of_users us"
proof -
  let ?f = "\<lambda>u m. if user_is_empty u then m else hm_insert (cu_uuid u) u m"
  let ?g = "\<lambda>u v. if user_is_empty u then v else v(cu_uuid u \<mapsto> u)"
  have "uuid_store_inv (fold ?f us []) \<and> map_of (fold ?f us []) = fold ?g us (map_of [])"
    by (rule fold_simulates [where I = uuid_store_inv and a = map_of])
       (auto simp: uuid_store_inv_insert, simp add: uuid_store_inv_def)
  then show ?thesis by (simp add: keyed_user_state_def view_of_users_def)
qed

lemma uuid_store_wf: "uuid_store_inv m \<Longrightarrow> hm_wf m"
  by (simp add: uuid_store_inv_def)

lemma apply_uuid_delta_refines:
  assumes "uuid_store_inv m"
  shows "(map_of (fst (apply_uuid_delta d m)), snd (apply_uuid_delta d m)) = delta_spec d (map_of m)
         \<and> uuid_store_inv (fst (apply_uuid_delta d m))"
proof (cases "d_full d")
  case (Some full)
  then show ?thesis
    using keyed_user_state_uuid [of full]
    by (simp add: apply_uuid_delta_def delta_spec_def Let_def uuid_store_wf hm_len_card)
next
  case None
  let ?s = "fold uuid_delete_one (d_deleted d) (fold uuid_update_one (d_updated d)
              (fold uuid_add_one (d_added d) (m, default_result)))"
  obtain m' r' where s: "?s = (m', r')" by force
  have inv: "uuid_store_inv m'" and
    eq: "(map_of m', r') = fold spec_delete (d_deleted d) (fold spec_update (d_updated d)
             (fold spec_add (d_added d) (map_of m, default_result)))"
    using delta_loops_refine [where I = "\<lambda>s. uuid_store_inv (fst s)" and a = "tally_view map_of"
        and s = "(m, default_result)" and d = d,
        OF uuid_add_one_refines uuid_update_one_refines uuid_delete_one_refines] assms
    by (simp_all add: s tally_view_def)
  have "apply_uuid_delta d m = (m', r'\<lparr>r_active_users := length m'\<rparr>)"
    using None by (simp add: apply_uuid_delta_def s finish_delta_def)
  then show ?thesis
    using inv delta_spec_of_loops [OF None eq] by (simp add: uuid_store_wf hm_len_card)
qed

interpretation uuid_store: user_table map_of uuid_store_inv "\<lambda>_ _. True" apply_uuid_delta
  by unfold_locales (simp_all add: apply_uuid_delta_refines finite_dom_map_of)

section \<open>The store keyed by a credential\<close>

text \<open>
  The view reads the uuid off each stored user. The invariant: one entry per key and per uuid,
  each under its own key. A delta is accepted when no two users involved with different uuids
  share a key, and a snapshot does not list a uuid twice.
\<close>

definition keyed_view :: "'k user_map \<Rightarrow> user_view" where
  "keyed_view m = map_of (map (\<lambda>(k, u). (cu_uuid u, u)) m)"

definition keyed_inv :: "(core_user \<Rightarrow> 'k) \<Rightarrow> 'k user_map \<Rightarrow> bool" where
  "keyed_inv key m \<longleftrightarrow>
     hm_wf m \<and> distinct (map (\<lambda>(k, u). cu_uuid u) m) \<and>
     (\<forall>(k, u) \<in> set m. k = key u \<and> \<not> user_is_empty u)"

definition key_separates :: "(core_user \<Rightarrow> 'k) \<Rightarrow> core_user set \<Rightarrow> bool" where
  "key_separates key S \<longleftrightarrow> (\<forall>u \<in> S. \<forall>u' \<in> S. key u = key u' \<longrightarrow> cu_uuid u = cu_uuid u')"

definition full_distinct :: "core_user_delta \<Rightarrow> bool" where
  "full_distinct d \<longleftrightarrow>
     (case d_full d of None \<Rightarrow> True
      | Some full \<Rightarrow> distinct (map cu_uuid (filter (\<lambda>u. \<not> user_is_empty u) full)))"

definition keyed_accepts :: "(core_user \<Rightarrow> 'k) \<Rightarrow> core_user_delta \<Rightarrow> 'k user_map \<Rightarrow> bool" where
  "keyed_accepts key d m \<longleftrightarrow> key_separates key (snd ` set m \<union> delta_users d) \<and> full_distinct d"

abbreviation without_uuid :: "string \<Rightarrow> 'k user_map \<Rightarrow> 'k user_map" where
  "without_uuid uuid m \<equiv> filter (\<lambda>(k, u). cu_uuid u \<noteq> uuid) m"

lemma keyed_view_Some_iff:
  "keyed_inv key m \<Longrightarrow> keyed_view m uuid = Some u \<longleftrightarrow> (\<exists>k. (k, u) \<in> set m \<and> cu_uuid u = uuid)"
proof -
  assume "keyed_inv key m"
  then have "distinct (map fst (map (\<lambda>(k, u). (cu_uuid u, u)) m))"
    by (simp add: keyed_inv_def comp_def case_prod_beta')
  then show ?thesis
    by (force simp: keyed_view_def map_of_eq_Some_iff)
qed

lemma keyed_view_None_iff:
  "keyed_view m uuid = None \<longleftrightarrow> (\<forall>(k, u) \<in> set m. cu_uuid u \<noteq> uuid)"
  by (force simp: keyed_view_def map_of_eq_None_iff)

lemma keyed_view_without: "keyed_view (without_uuid uuid m) = (keyed_view m)(uuid := None)"
  by (induction m) (auto simp: keyed_view_def fun_eq_iff)

lemma without_absent: "keyed_view m uuid = None \<Longrightarrow> without_uuid uuid m = m"
  by (rule filter_True) (auto simp: keyed_view_None_iff)

lemma keyed_inv_without: "keyed_inv key m \<Longrightarrow> keyed_inv key (without_uuid uuid m)"
  by (auto simp: keyed_inv_def hm_wf_filter distinct_map_filter)

text \<open>Under the invariant, removing an entry by its key is removing it by its uuid.\<close>

lemma hm_remove_is_without:
  assumes "keyed_inv key m" "(k, u) \<in> set m"
  shows "hm_remove k m = without_uuid (cu_uuid u) m"
  unfolding hm_remove_def
proof (rule filter_cong [OF refl])
  fix p assume p: "p \<in> set m"
  obtain k' u' where p': "p = (k', u')" by force
  have "k' = k \<longleftrightarrow> cu_uuid u' = cu_uuid u"
  proof
    assume "k' = k"
    with assms p p' have "u' = u"
      using hm_wf_in_set [of m k] by (simp add: keyed_inv_def)
    then show "cu_uuid u' = cu_uuid u" by simp
  next
    assume "cu_uuid u' = cu_uuid u"
    moreover have "inj_on (\<lambda>(k, u). cu_uuid u) (set m)"
      using assms(1) by (simp add: keyed_inv_def distinct_map)
    ultimately have "(k', u') = (k, u)"
      using inj_onD [of "\<lambda>(k, u). cu_uuid u" "set m" "(k', u')" "(k, u)"] assms(2) p p' by simp
    then show "k' = k" by simp
  qed
  then show "(case p of (k', _) \<Rightarrow> k' \<noteq> k) = (case p of (k, u') \<Rightarrow> cu_uuid u' \<noteq> cu_uuid u)"
    by (simp add: p')
qed

lemma remove_user_by_uuid_eq:
  assumes "keyed_inv key m"
  shows "remove_user_by_uuid uuid m =
           (if keyed_view m uuid = None then None else Some (without_uuid uuid m))"
proof (cases "find (\<lambda>(k, u). cu_uuid u = uuid) m")
  case None
  then have "keyed_view m uuid = None"
    by (auto simp: find_None_iff keyed_view_None_iff)
  with None show ?thesis by (simp add: remove_user_by_uuid_def)
next
  case (Some p)
  obtain k u where p: "p = (k, u)" by force
  from Some p have ku: "(k, u) \<in> set m" "cu_uuid u = uuid"
    by (auto simp: find_Some_iff) (metis nth_mem)
  then have "keyed_view m uuid \<noteq> None"
    by (auto simp: keyed_view_None_iff)
  with Some p ku hm_remove_is_without [OF assms ku(1)] show ?thesis
    by (simp add: remove_user_by_uuid_def)
qed

lemma hm_insert_fresh: "k \<notin> fst ` set m \<Longrightarrow> hm_insert k v m = m @ [(k, v)]"
  by (induction m) (auto simp: hm_insert_def)

text \<open>Inserting a user whose uuid is absent, under a key no other uuid uses.\<close>

lemma keyed_insert:
  assumes "keyed_inv key m" "key_separates key S" "snd ` set m \<subseteq> S" "u \<in> S"
    and "\<not> user_is_empty u" "keyed_view m (cu_uuid u) = None"
  shows "keyed_inv key (hm_insert (key u) u m)"
    and "keyed_view (hm_insert (key u) u m) = (keyed_view m)(cu_uuid u \<mapsto> u)"
    and "snd ` set (hm_insert (key u) u m) \<subseteq> S"
proof -
  have fresh: "key u \<notin> fst ` set m"
  proof
    assume "key u \<in> fst ` set m"
    then obtain u' where u': "(key u, u') \<in> set m" by force
    with assms(1) have "key u = key u'" by (auto simp: keyed_inv_def)
    moreover from assms(3) u' have "u' \<in> S" by force
    ultimately have "cu_uuid u = cu_uuid u'"
      using assms(2,4) unfolding key_separates_def by blast
    with assms(6) u' show False by (auto simp: keyed_view_None_iff)
  qed
  note eq = hm_insert_fresh [OF fresh, of u]
  from assms(1,5,6) fresh show "keyed_inv key (hm_insert (key u) u m)"
    unfolding eq by (auto simp: keyed_inv_def hm_wf_def keyed_view_None_iff)
  from assms(6) show "keyed_view (hm_insert (key u) u m) = (keyed_view m)(cu_uuid u \<mapsto> u)"
    unfolding eq by (auto simp: keyed_view_def fun_eq_iff map_add_def split: option.split)
  from assms(3,4) show "snd ` set (hm_insert (key u) u m) \<subseteq> S"
    unfolding eq by auto
qed

definition keyed_inv_in :: "(core_user \<Rightarrow> 'k) \<Rightarrow> core_user set \<Rightarrow> 'k user_map \<Rightarrow> bool" where
  "keyed_inv_in key S m \<longleftrightarrow> keyed_inv key m \<and> key_separates key S \<and> snd ` set m \<subseteq> S"

lemma keyed_inv_in_without:
  "keyed_inv_in key S m \<Longrightarrow> keyed_inv_in key S (without_uuid uuid m)"
  by (auto simp: keyed_inv_in_def keyed_inv_without)

text \<open>Replacing the entry of a uuid, whether or not there was one.\<close>

lemma keyed_replace:
  assumes "keyed_inv_in key S m" "u \<in> S" "\<not> user_is_empty u"
  shows "keyed_inv_in key S (hm_insert (key u) u (without_uuid (cu_uuid u) m))"
    and "keyed_view (hm_insert (key u) u (without_uuid (cu_uuid u) m)) = (keyed_view m)(cu_uuid u \<mapsto> u)"
  using keyed_insert [of key "without_uuid (cu_uuid u) m" S u] keyed_inv_in_without [OF assms(1)] assms
  by (simp_all add: keyed_inv_in_def keyed_view_without)

lemma keyed_add_one_refines:
  assumes "u \<in> S" "keyed_inv_in key S (fst s)"
  shows "keyed_inv_in key S (fst (keyed_add_one key u s)) \<and>
         tally_view keyed_view (keyed_add_one key u s) = spec_add u (tally_view keyed_view s)"
proof -
  obtain m r where s: "s = (m, r)" by force
  with assms have inv: "keyed_inv_in key S m" by simp
  then have "keyed_inv key m" by (simp add: keyed_inv_in_def)
  note rm = remove_user_by_uuid_eq [OF this]
  show ?thesis
    using keyed_replace [OF inv assms(1)] inv
    by (auto simp: s keyed_add_one_def rm spec_add_apply tally_view_def without_absent)
qed

lemma keyed_update_one_refines:
  assumes "u \<in> S" "keyed_inv_in key S (fst s)"
  shows "keyed_inv_in key S (fst (keyed_update_one key u s)) \<and>
         tally_view keyed_view (keyed_update_one key u s) = spec_update u (tally_view keyed_view s)"
proof -
  obtain m r where s: "s = (m, r)" by force
  with assms have inv: "keyed_inv_in key S m" by simp
  then have "keyed_inv key m" by (simp add: keyed_inv_in_def)
  note rm = remove_user_by_uuid_eq [OF this]
  show ?thesis
    using keyed_replace [OF inv assms(1)] inv
    by (auto simp: s keyed_update_one_def rm spec_update_apply tally_view_def)
qed

lemma keyed_delete_one_refines:
  assumes "keyed_inv_in key S (fst s)"
  shows "keyed_inv_in key S (fst (keyed_delete_one uuid s)) \<and>
         tally_view keyed_view (keyed_delete_one uuid s) = spec_delete uuid (tally_view keyed_view s)"
proof -
  obtain m r where s: "s = (m, r)" by force
  with assms have inv: "keyed_inv_in key S m" by simp
  then have "keyed_inv key m" by (simp add: keyed_inv_in_def)
  note rm = remove_user_by_uuid_eq [OF this]
  show ?thesis
    using keyed_inv_in_without [OF inv, of uuid] keyed_view_without [of uuid m] inv
    by (auto simp: s keyed_delete_one_def rm spec_delete_apply tally_view_def)
qed

lemma length_keyed_view: "keyed_inv key m \<Longrightarrow> length m = card (dom (keyed_view m))"
proof -
  assume "keyed_inv key m"
  then have "hm_wf (map (\<lambda>(k, u). (cu_uuid u, u)) m)"
    by (simp add: keyed_inv_def hm_wf_def comp_def case_prod_beta')
  from hm_len_card [OF this] show ?thesis by (simp add: keyed_view_def)
qed

text \<open>Loading a snapshot that lists each uuid once.\<close>

lemma keyed_load:
  assumes "keyed_inv_in key S m" "set us \<subseteq> S"
    and "distinct (map cu_uuid (filter (\<lambda>u. \<not> user_is_empty u) us))"
    and "\<forall>u \<in> set us. \<not> user_is_empty u \<longrightarrow> keyed_view m (cu_uuid u) = None"
  defines "m' \<equiv> fold (\<lambda>u m. if user_is_empty u then m else hm_insert (key u) u m) us m"
  shows "keyed_inv_in key S m' \<and> keyed_view m' = keyed_view m ++ view_of_users us"
  using assms(1-4) unfolding m'_def
proof (induction us arbitrary: m)
  case Nil
  then show ?case by simp
next
  case (Cons u us)
  have step: "view_of_users (u # us) =
      (if user_is_empty u then view_of_users us else [cu_uuid u \<mapsto> u] ++ view_of_users us)"
    using view_fold_eq [of us "[cu_uuid u \<mapsto> u]"] by (simp add: view_of_users_def)
  show ?case
  proof (cases "user_is_empty u")
    case True
    with Cons show ?thesis by (simp add: step)
  next
    case False
    let ?m = "hm_insert (key u) u m"
    have ins: "keyed_inv_in key S ?m" "keyed_view ?m = (keyed_view m)(cu_uuid u \<mapsto> u)"
      using keyed_insert [of key m S u] Cons.prems False by (auto simp: keyed_inv_in_def)
    have "cu_uuid x \<noteq> cu_uuid u" if "x \<in> set us" "\<not> user_is_empty x" for x
      using Cons.prems(3) False that by (auto simp: image_iff)
    then have "\<forall>x \<in> set us. \<not> user_is_empty x \<longrightarrow> keyed_view ?m (cu_uuid x) = None"
      using Cons.prems(4) by (simp add: ins)
    with Cons.IH [OF ins(1)] Cons.prems False
    have "keyed_inv_in key S (fold (\<lambda>u m. if user_is_empty u then m else hm_insert (key u) u m) us ?m) \<and>
        keyed_view (fold (\<lambda>u m. if user_is_empty u then m else hm_insert (key u) u m) us ?m) =
          keyed_view ?m ++ view_of_users us"
      by simp
    with False show ?thesis by (simp add: step ins map_add_assoc [symmetric])
  qed
qed

lemma keyed_inv_in_Nil: "key_separates key S \<Longrightarrow> keyed_inv_in key S []"
  by (simp add: keyed_inv_in_def keyed_inv_def)

lemma keyed_view_Nil [simp]: "keyed_view [] = Map.empty"
  by (simp add: keyed_view_def)

lemma keyed_accepts_in:
  assumes "keyed_inv key m" "keyed_accepts key d m"
  shows "keyed_inv_in key (snd ` set m \<union> delta_users d) m"
  using assms by (simp add: keyed_inv_in_def keyed_accepts_def)

lemma apply_keyed_delta_refines:
  assumes "keyed_inv key m" "keyed_accepts key d m"
  shows "(keyed_view (fst (apply_keyed_delta key d m)), snd (apply_keyed_delta key d m))
           = delta_spec d (keyed_view m)
         \<and> keyed_inv key (fst (apply_keyed_delta key d m))"
proof (cases "d_full d")
  case (Some full)
  let ?S = "snd ` set m \<union> delta_users d"
  have "key_separates key ?S" "set full \<subseteq> ?S"
    using assms(2) Some by (auto simp: keyed_accepts_def delta_users_def)
  moreover have "distinct (map cu_uuid (filter (\<lambda>u. \<not> user_is_empty u) full))"
    using assms(2) Some by (simp add: keyed_accepts_def full_distinct_def)
  ultimately have "keyed_inv_in key ?S (keyed_user_state key full) \<and>
      keyed_view (keyed_user_state key full) = view_of_users full"
    using keyed_load [OF keyed_inv_in_Nil, of key ?S full] by (simp add: keyed_user_state_def)
  then show ?thesis
    using Some length_keyed_view [of key "keyed_user_state key full"]
    by (simp add: apply_keyed_delta_def delta_spec_def Let_def keyed_inv_in_def)
next
  case None
  let ?S = "snd ` set m \<union> delta_users d"
  let ?s = "fold keyed_delete_one (d_deleted d) (fold (keyed_update_one key) (d_updated d)
              (fold (keyed_add_one key) (d_added d) (m, default_result)))"
  obtain m' r' where s: "?s = (m', r')" by force
  have inv: "keyed_inv_in key ?S m'" and
    eq: "(keyed_view m', r') = fold spec_delete (d_deleted d) (fold spec_update (d_updated d)
             (fold spec_add (d_added d) (keyed_view m, default_result)))"
    using delta_loops_refine [where I = "\<lambda>s. keyed_inv_in key ?S (fst s)" and a = "tally_view keyed_view"
        and s = "(m, default_result)" and d = d and fa = "keyed_add_one key"
        and fu = "keyed_update_one key" and fd = keyed_delete_one]
      keyed_add_one_refines [of _ ?S key] keyed_update_one_refines [of _ ?S key]
      keyed_delete_one_refines [of key ?S] keyed_accepts_in [OF assms]
    by (simp_all add: s tally_view_def delta_users_def)
  have "apply_keyed_delta key d m = (m', r'\<lparr>r_active_users := length m'\<rparr>)"
    using None by (simp add: apply_keyed_delta_def s finish_delta_def)
  then show ?thesis
    using inv delta_spec_of_loops [OF None eq] length_keyed_view [of key m']
    by (simp add: keyed_inv_in_def)
qed

lemma finite_dom_keyed_view [simp]: "finite (dom (keyed_view m))"
  by (simp add: keyed_view_def finite_dom_map_of)

interpretation keyed_store: user_table keyed_view "keyed_inv key" "keyed_accepts key" "apply_keyed_delta key"
  for key :: "core_user \<Rightarrow> 'k"
  by unfold_locales (simp_all add: apply_keyed_delta_refines)

section \<open>The map keyed by an optional derived key\<close>

text \<open>
  The running index maps each uuid to the key of its entry. A user without a key is passed over,
  so a delta is accepted when every user it carries has one.
\<close>

definition index_ok :: "(core_user \<Rightarrow> 'k) \<Rightarrow> 'k user_map \<Rightarrow> (string, 'k) hmap \<Rightarrow> bool" where
  "index_ok key m ix \<longleftrightarrow> map_of ix = map_option key \<circ> keyed_view m"

definition opt_accepts :: "(core_user \<Rightarrow> 'k option) \<Rightarrow> core_user_delta \<Rightarrow> 'k user_map \<Rightarrow> bool" where
  "opt_accepts key d m \<longleftrightarrow>
     keyed_accepts (the \<circ> key) d m \<and> (\<forall>u \<in> delta_users d. key u \<noteq> None)"

definition forget_index :: "'k indexed_tally \<Rightarrow> 'k tally" where
  "forget_index = (\<lambda>(m, ix, r). (m, r))"

definition indexed_inv :: "(core_user \<Rightarrow> 'k) \<Rightarrow> core_user set \<Rightarrow> 'k indexed_tally \<Rightarrow> bool" where
  "indexed_inv key S = (\<lambda>(m, ix, r). keyed_inv_in key S m \<and> index_ok key m ix)"

lemma index_ok_get: "index_ok key m ix \<Longrightarrow> hm_get ix uuid = map_option key (keyed_view m uuid)"
  by (simp add: index_ok_def)

lemma keyed_view_key:
  assumes "keyed_inv key m" "keyed_view m uuid = Some u"
  shows "hm_remove (key u) m = without_uuid uuid m" "hm_contains m (key u)"
proof -
  from assms obtain k where k: "(k, u) \<in> set m" "cu_uuid u = uuid"
    by (auto simp: keyed_view_Some_iff)
  with assms(1) have "k = key u" by (auto simp: keyed_inv_def)
  with k show "hm_remove (key u) m = without_uuid uuid m" "hm_contains m (key u)"
    using hm_remove_is_without [OF assms(1) k(1)] by (simp, force simp: hm_contains_iff)
qed

lemma index_ok_without: "index_ok key m ix \<Longrightarrow> index_ok key (without_uuid uuid m) (hm_remove uuid ix)"
  by (auto simp: index_ok_def keyed_view_without fun_eq_iff)

lemma index_ok_replace:
  assumes "keyed_inv_in key S m" "u \<in> S" "\<not> user_is_empty u" "index_ok key m ix"
  shows "index_ok key (hm_insert (key u) u (without_uuid (cu_uuid u) m)) (hm_insert (cu_uuid u) (key u) ix)"
  using keyed_replace(2) [OF assms(1-3)] assms(4) by (auto simp: index_ok_def fun_eq_iff)

lemma index_ok_restore:
  "index_ok key m ix \<Longrightarrow> keyed_view m uuid = None \<Longrightarrow> index_ok key m (hm_remove uuid (hm_insert uuid k ix))"
  by (auto simp: index_ok_def fun_eq_iff)

lemma index_ok_collect:
  assumes "keyed_inv key m"
  shows "index_ok key m (hm_collect (map (\<lambda>(k, u). (cu_uuid u, k)) m))"
proof -
  let ?ps = "map (\<lambda>(k, u). (cu_uuid u, k)) m"
  have d: "distinct (map fst (rev ?ps))"
    using assms by (simp add: keyed_inv_def comp_def case_prod_beta' rev_map [symmetric])
  have "map_of (rev ?ps) uuid = map_option key (keyed_view m uuid)" for uuid
  proof (cases "keyed_view m uuid")
    case None
    then have "map_of (rev ?ps) uuid = None" by (auto simp: keyed_view_None_iff map_of_eq_None_iff)
    with None show ?thesis by simp
  next
    case (Some u)
    then obtain k where "(k, u) \<in> set m" "cu_uuid u = uuid"
      using assms by (auto simp: keyed_view_Some_iff)
    then show ?thesis
      using d Some assms by (auto simp: map_of_eq_Some_iff keyed_inv_def image_iff intro!: bexI)
  qed
  then show ?thesis by (simp add: index_ok_def hm_get_collect fun_eq_iff)
qed

text \<open>Each indexed loop body does to the map and the counters what the keyed one does.\<close>

lemma map_add_one_eq:
  assumes "u \<in> S" "key u = Some k" "indexed_inv (the \<circ> key) S s"
  shows "indexed_inv (the \<circ> key) S (map_add_one key u s) \<and>
         forget_index (map_add_one key u s) = keyed_add_one (the \<circ> key) u (forget_index s)"
proof -
  obtain m ix r where s: "s = (m, ix, r)" by (cases s)
  with assms have inv: "keyed_inv_in (the \<circ> key) S m" and ix: "index_ok (the \<circ> key) m ix"
    by (simp_all add: indexed_inv_def)
  then have k: "keyed_inv (the \<circ> key) m" by (simp add: keyed_inv_in_def)
  note rm = remove_user_by_uuid_eq [OF k]
  show ?thesis
    using assms(2) index_ok_get [OF ix, of "cu_uuid u"] keyed_replace(1) [OF inv assms(1)]
      index_ok_replace [OF inv assms(1) _ ix] keyed_view_key(1) [OF k, of "cu_uuid u"]
      without_absent [of m "cu_uuid u"] inv ix
    by (cases "keyed_view m (cu_uuid u)")
       (auto simp: s map_add_one_def keyed_add_one_def forget_index_def indexed_inv_def rm)
qed

lemma map_update_one_eq:
  assumes "u \<in> S" "key u = Some k" "indexed_inv (the \<circ> key) S s"
  shows "indexed_inv (the \<circ> key) S (map_update_one key u s) \<and>
         forget_index (map_update_one key u s) = keyed_update_one (the \<circ> key) u (forget_index s)"
proof -
  obtain m ix r where s: "s = (m, ix, r)" by (cases s)
  with assms have inv: "keyed_inv_in (the \<circ> key) S m" and ix: "index_ok (the \<circ> key) m ix"
    by (simp_all add: indexed_inv_def)
  then have k: "keyed_inv (the \<circ> key) m" by (simp add: keyed_inv_in_def)
  note rm = remove_user_by_uuid_eq [OF k]
  show ?thesis
    using assms(2) index_ok_get [OF ix, of "cu_uuid u"] keyed_replace(1) [OF inv assms(1)]
      index_ok_replace [OF inv assms(1) _ ix] keyed_view_key(1) [OF k, of "cu_uuid u"]
      index_ok_restore [OF ix, of "cu_uuid u"] inv ix
    by (cases "keyed_view m (cu_uuid u)")
       (auto simp: s map_update_one_def keyed_update_one_def forget_index_def indexed_inv_def rm)
qed

lemma map_delete_one_eq:
  assumes "indexed_inv key S s"
  shows "indexed_inv key S (map_delete_one uuid s) \<and>
         forget_index (map_delete_one uuid s) = keyed_delete_one uuid (forget_index s)"
proof -
  obtain m ix r where s: "s = (m, ix, r)" by (cases s)
  with assms have inv: "keyed_inv_in key S m" and ix: "index_ok key m ix"
    by (simp_all add: indexed_inv_def)
  then have k: "keyed_inv key m" by (simp add: keyed_inv_in_def)
  note rm = remove_user_by_uuid_eq [OF k]
  show ?thesis
    using index_ok_get [OF ix, of uuid] keyed_view_key [OF k, of uuid] inv ix
      keyed_inv_in_without [OF inv, of uuid] index_ok_without [OF ix, of uuid]
    by (cases "keyed_view m uuid")
       (auto simp: s map_delete_one_def keyed_delete_one_def forget_index_def indexed_inv_def rm)
qed

lemma map_loops_eq:
  assumes "set (d_added d) \<union> set (d_updated d) \<subseteq> S"
    and keys: "\<And>u. u \<in> set (d_added d) \<union> set (d_updated d) \<Longrightarrow> key u \<noteq> None"
    and "indexed_inv (the \<circ> key) S s"
  shows "forget_index (fold map_delete_one (d_deleted d)
           (fold (map_update_one key) (d_updated d) (fold (map_add_one key) (d_added d) s)))
       = fold keyed_delete_one (d_deleted d) (fold (keyed_update_one (the \<circ> key)) (d_updated d)
           (fold (keyed_add_one (the \<circ> key)) (d_added d) (forget_index s)))"
proof -
  let ?k = "the \<circ> key"
  have in_S: "u \<in> S" if "u \<in> set (d_added d) \<union> set (d_updated d)" for u
    using that assms(1) by blast
  have key: "key u = Some (the (key u))" if "u \<in> set (d_added d) \<union> set (d_updated d)" for u
    using keys [OF that] by simp
  let ?a = "fold (map_add_one key) (d_added d) s"
  have a: "indexed_inv ?k S ?a \<and> forget_index ?a = fold (keyed_add_one ?k) (d_added d) (forget_index s)"
    by (rule fold_simulates [where I = "indexed_inv ?k S"])
       (rule map_add_one_eq [where key = key, OF in_S key], simp_all add: assms(3))
  let ?u = "fold (map_update_one key) (d_updated d) ?a"
  have u: "indexed_inv ?k S ?u \<and> forget_index ?u = fold (keyed_update_one ?k) (d_updated d) (forget_index ?a)"
    by (rule fold_simulates [where I = "indexed_inv ?k S"])
       (rule map_update_one_eq [where key = key, OF in_S key], simp_all add: a)
  have "indexed_inv ?k S (fold map_delete_one (d_deleted d) ?u) \<and>
      forget_index (fold map_delete_one (d_deleted d) ?u) = fold keyed_delete_one (d_deleted d) (forget_index ?u)"
    by (rule fold_simulates [where I = "indexed_inv ?k S"]) (rule map_delete_one_eq, simp_all add: u)
  with a u show ?thesis by simp
qed

lemma apply_user_delta_to_keyed_map_eq:
  assumes "keyed_inv (the \<circ> key) m" "opt_accepts key d m"
  shows "apply_user_delta_to_keyed_map key d m = apply_keyed_delta (the \<circ> key) d m"
proof (cases "d_full d")
  case (Some full)
  then have "\<forall>u \<in> set full. \<exists>k. key u = Some k"
    using assms(2) by (auto simp: opt_accepts_def delta_users_def)
  then have "fold (\<lambda>u m. if user_is_empty u then m else case key u of None \<Rightarrow> m | Some k \<Rightarrow> hm_insert k u m) full []
      = keyed_user_state (the \<circ> key) full"
    unfolding keyed_user_state_def by (intro fold_cong) (auto simp: fun_eq_iff)
  with Some show ?thesis by (simp add: apply_user_delta_to_keyed_map_def apply_keyed_delta_def)
next
  case None
  let ?S = "snd ` set m \<union> delta_users d" and ?ix = "hm_collect (map (\<lambda>(k, u). (cu_uuid u, k)) m)"
  have inv: "indexed_inv (the \<circ> key) ?S (m, ?ix, default_result)"
    using assms keyed_accepts_in [OF assms(1)] index_ok_collect [OF assms(1)]
    by (simp add: indexed_inv_def opt_accepts_def)
  have sub: "set (d_added d) \<union> set (d_updated d) \<subseteq> ?S" by (auto simp: delta_users_def)
  have keys: "key u \<noteq> None" if "u \<in> set (d_added d) \<union> set (d_updated d)" for u
    using assms(2) that unfolding opt_accepts_def delta_users_def by blast
  have eq: "forget_index (fold map_delete_one (d_deleted d) (fold (map_update_one key) (d_updated d)
          (fold (map_add_one key) (d_added d) (m, ?ix, default_result))))
      = fold keyed_delete_one (d_deleted d) (fold (keyed_update_one (the \<circ> key)) (d_updated d)
          (fold (keyed_add_one (the \<circ> key)) (d_added d) (m, default_result)))"
    using map_loops_eq [where key = key and d = d, OF sub keys inv] by (simp add: forget_index_def)
  show ?thesis
    by (simp add: None apply_user_delta_to_keyed_map_def apply_keyed_delta_def finish_delta_def
        eq [symmetric] forget_index_def case_prod_beta Let_def)
qed

interpretation keyed_map: user_table keyed_view "keyed_inv (the \<circ> key)" "opt_accepts key"
    "apply_user_delta_to_keyed_map key" for key :: "core_user \<Rightarrow> 'k option"
proof unfold_locales
  fix m d assume "keyed_inv (the \<circ> key) m" "opt_accepts key d m"
  then show "(keyed_view (fst (apply_user_delta_to_keyed_map key d m)),
              snd (apply_user_delta_to_keyed_map key d m)) = delta_spec d (keyed_view m)"
    and "keyed_inv (the \<circ> key) (fst (apply_user_delta_to_keyed_map key d m))"
    using apply_keyed_delta_refines [of "the \<circ> key" m d]
    by (simp_all add: apply_user_delta_to_keyed_map_eq opt_accepts_def)
qed simp

section \<open>The sorted vector\<close>

definition vec_inv :: "core_user list \<Rightarrow> bool" where
  "vec_inv us \<longleftrightarrow>
     sorted (map cu_uuid us) \<and> distinct (map cu_uuid us) \<and> (\<forall>u \<in> set us. \<not> user_is_empty u)"

lemma view_of_users_Some_iff:
  assumes "distinct (map cu_uuid (filter (\<lambda>u. \<not> user_is_empty u) us))"
  shows "view_of_users us uuid = Some u \<longleftrightarrow> u \<in> set us \<and> \<not> user_is_empty u \<and> cu_uuid u = uuid"
  using assms
  by (induction us rule: rev_induct) (auto simp: view_of_users_snoc image_iff split: if_splits)

lemma view_eqI:
  assumes "\<And>k u. v k = Some u \<longleftrightarrow> v' k = Some u"
  shows "v = (v' :: user_view)"
  using assms by (metis ext option.exhaust)

lemma active_user_vec_members: "u \<in> set (active_user_vec us) \<longleftrightarrow> u \<in> set us \<and> \<not> user_is_empty u"
  by (simp add: active_user_vec_def)

lemma active_user_vec_view:
  assumes "distinct (map cu_uuid (filter (\<lambda>u. \<not> user_is_empty u) us))"
  shows "vec_inv (active_user_vec us)" "view_of_users (active_user_vec us) = view_of_users us"
    and "length (active_user_vec us) = card (dom (view_of_users us))"
proof -
  have d: "distinct (map cu_uuid (active_user_vec us))"
    using assms unfolding active_user_vec_def by (simp add: distinct_map)
  then show "vec_inv (active_user_vec us)"
    by (simp add: vec_inv_def active_user_vec_def)
  have f: "filter (\<lambda>u. \<not> user_is_empty u) (active_user_vec us) = active_user_vec us"
    by (rule filter_True) (simp add: active_user_vec_def)
  show v: "view_of_users (active_user_vec us) = view_of_users us"
    by (rule view_eqI) (auto simp: view_of_users_Some_iff assms d f active_user_vec_members)
  have "dom (view_of_users us) = cu_uuid ` set (active_user_vec us)"
    by (auto simp: dom_view_of_users active_user_vec_def)
  with d show "length (active_user_vec us) = card (dom (view_of_users us))"
    by (metis distinct_card length_map set_map)
qed

lemma uuid_store_users:
  assumes "uuid_store_inv m"
  shows "distinct (map cu_uuid (map snd m))" "\<forall>u \<in> set (map snd m). \<not> user_is_empty u"
    and "view_of_users (map snd m) = map_of m"
proof -
  have keys: "cu_uuid (snd p) = fst p \<and> \<not> user_is_empty (snd p)" if "p \<in> set m" for p
    using assms that by (auto simp: uuid_store_inv_def)
  then have eq: "map cu_uuid (map snd m) = map fst m" by simp
  show d: "distinct (map cu_uuid (map snd m))"
    unfolding eq using assms by (simp add: uuid_store_inv_def hm_wf_def)
  show e: "\<forall>u \<in> set (map snd m). \<not> user_is_empty u"
    using keys by auto
  have f: "filter (\<lambda>u. \<not> user_is_empty u) (map snd m) = map snd m"
    using e by (intro filter_True)
  have w: "hm_wf m" using assms by (rule uuid_store_wf)
  show "view_of_users (map snd m) = map_of m"
  proof (rule view_eqI)
    fix k u
    have "view_of_users (map snd m) k = Some u \<longleftrightarrow> u \<in> set (map snd m) \<and> cu_uuid u = k"
      using d e view_of_users_Some_iff [of "map snd m" k u] unfolding f by blast
    also have "\<dots> \<longleftrightarrow> (k, u) \<in> set m" using keys by force
    also have "\<dots> \<longleftrightarrow> map_of m k = Some u" using w by (simp add: hm_wf_def)
    finally show "view_of_users (map snd m) k = Some u \<longleftrightarrow> map_of m k = Some u" .
  qed
qed

lemma by_uuid_eq:
  "hm_collect (map (\<lambda>u. (cu_uuid u, u)) (filter (\<lambda>u. \<not> user_is_empty u) us)) = keyed_user_state cu_uuid us"
proof -
  have "fold (\<lambda>(k, v). hm_insert k v) (map (\<lambda>u. (cu_uuid u, u)) (filter (\<lambda>u. \<not> user_is_empty u) us)) m
      = fold (\<lambda>u m. if user_is_empty u then m else hm_insert (cu_uuid u) u m) us m" for m
    by (induction us arbitrary: m) auto
  then show ?thesis by (simp add: hm_collect_def keyed_user_state_def)
qed

text \<open>
  A delta without a snapshot runs on a vector as on the store built from it; the result is read
  back in uuid order.
\<close>

lemma vec_delta_via_store:
  assumes "d_full d = None"
  shows "apply_user_delta_to_vec d us =
     (let (m, r) = apply_uuid_delta d (keyed_user_state cu_uuid us) in (store_list m, r))"
  by (simp add: assms apply_user_delta_to_vec_def apply_uuid_delta_def by_uuid_eq store_list_def
      finish_delta_def case_prod_beta Let_def)

lemma store_list_vec:
  assumes "uuid_store_inv m"
  shows "vec_inv (store_list m)" "view_of_users (store_list m) = map_of m"
proof -
  have "filter (\<lambda>u. \<not> user_is_empty u) (map snd m) = map snd m"
    using uuid_store_users(2) [OF assms] by (intro filter_True)
  then have "store_list m = active_user_vec (map snd m)"
    and "distinct (map cu_uuid (filter (\<lambda>u. \<not> user_is_empty u) (map snd m)))"
    using uuid_store_users(1) [OF assms] by (simp_all add: store_list_def active_user_vec_def)
  then show "vec_inv (store_list m)" "view_of_users (store_list m) = map_of m"
    using active_user_vec_view [of "map snd m"] uuid_store_users(3) [OF assms] by simp_all
qed

lemma apply_user_delta_to_vec_refines:
  assumes "full_distinct d"
  shows "(view_of_users (fst (apply_user_delta_to_vec d us)), snd (apply_user_delta_to_vec d us))
           = delta_spec d (view_of_users us)
         \<and> vec_inv (fst (apply_user_delta_to_vec d us))"
proof (cases "d_full d")
  case (Some full)
  with assms have "distinct (map cu_uuid (filter (\<lambda>u. \<not> user_is_empty u) full))"
    by (simp add: full_distinct_def)
  with Some active_user_vec_view [of full] show ?thesis
    by (simp add: apply_user_delta_to_vec_def delta_spec_def Let_def)
next
  case None
  let ?m = "keyed_user_state cu_uuid us"
  have "uuid_store_inv ?m" "map_of ?m = view_of_users us"
    using keyed_user_state_uuid [of us] by simp_all
  with apply_uuid_delta_refines [of ?m d] store_list_vec [of "fst (apply_uuid_delta d ?m)"]
  show ?thesis by (simp add: vec_delta_via_store [OF None] case_prod_beta)
qed

interpretation user_vec: user_table view_of_users vec_inv "\<lambda>d _. full_distinct d" apply_user_delta_to_vec
  by unfold_locales (simp_all add: apply_user_delta_to_vec_refines finite_dom_view_of_users)

section \<open>The interning pool\<close>

abbreviation live :: "weak_user \<Rightarrow> bool" where
  "live w \<equiv> 0 < w_strong w"

definition pool_bucket :: "user_pool \<Rightarrow> u64 \<Rightarrow> weak_user list" where
  "pool_bucket pool fp = (case hm_get pool fp of None \<Rightarrow> [] | Some b \<Rightarrow> b)"

definition pool_inv :: "(core_user \<Rightarrow> u64) \<Rightarrow> user_pool \<Rightarrow> bool" where
  "pool_inv fingerprint pool \<longleftrightarrow>
     hm_wf pool \<and>
     (\<forall>fp. distinct (map w_user (filter live (pool_bucket pool fp))) \<and>
           (\<forall>w \<in> set (pool_bucket pool fp). fingerprint (w_user w) = fp))"

definition pool_entries :: "(core_user \<Rightarrow> u64) \<Rightarrow> user_pool \<Rightarrow> core_user \<Rightarrow> weak_user list" where
  "pool_entries fingerprint pool u =
     filter (\<lambda>w. live w \<and> w_user w = u) (pool_bucket pool (fingerprint u))"

lemma upgrade_first_None: "upgrade_first u ws = None \<longleftrightarrow> (\<forall>w \<in> set ws. \<not> (live w \<and> w_user w = u))"
  by (induction ws) auto

lemma upgrade_first_Some:
  "upgrade_first u ws = Some (u', ws') \<Longrightarrow>
     u' = u \<and> map w_user ws' = map w_user ws \<and> map live ws' = map live ws \<and>
     filter (\<lambda>w. live w \<and> w_user w \<noteq> u) ws' = filter (\<lambda>w. live w \<and> w_user w \<noteq> u) ws \<and>
     (\<exists>w rest. filter (\<lambda>w. live w \<and> w_user w = u) ws = w # rest \<and>
        filter (\<lambda>w. live w \<and> w_user w = u) ws' = w\<lparr>w_strong := w_strong w + 1\<rparr> # rest)"
  by (induction ws arbitrary: ws') (auto split: if_splits)

lemma map_filter_eq:
  "map f xs = map f ys \<Longrightarrow> map P xs = map P ys \<Longrightarrow> map f (filter P xs) = map f (filter P ys)"
proof (induction xs arbitrary: ys)
  case (Cons x xs)
  then show ?case by (cases ys) auto
qed simp

lemma distinct_constant: "distinct (map f (x # xs)) \<Longrightarrow> \<forall>y \<in> set (x # xs). f y = c \<Longrightarrow> xs = []"
  by (cases xs) auto

lemma filter_live_eq: "filter (\<lambda>w. live w \<and> w_user w = u) (filter live b) = filter (\<lambda>w. live w \<and> w_user w = u) b"
  by (induction b) auto

lemma pool_bucket_insert: "pool_bucket (hm_insert fp b pool) fp' = (if fp' = fp then b else pool_bucket pool fp')"
  by (simp add: pool_bucket_def)

text \<open>What the call leaves in the bucket of the user, in the two cases of the search.\<close>

lemma shared_core_user_cases:
  fixes fingerprint :: "core_user \<Rightarrow> u64" and pool :: user_pool and u :: core_user
  defines "b \<equiv> filter live (pool_bucket pool (fingerprint u))"
  obtains (found) b' w rest where
      "shared_core_user fingerprint u pool = (u, hm_insert (fingerprint u) b' pool)"
      "map w_user b' = map w_user b" "map live b' = map live b"
      "filter (\<lambda>w. live w \<and> w_user w \<noteq> u) b' = filter (\<lambda>w. live w \<and> w_user w \<noteq> u) b"
      "filter (\<lambda>w. live w \<and> w_user w = u) b = w # rest"
      "filter (\<lambda>w. live w \<and> w_user w = u) b' = w\<lparr>w_strong := w_strong w + 1\<rparr> # rest"
    | (fresh) "\<forall>w \<in> set b. \<not> (live w \<and> w_user w = u)"
      "shared_core_user fingerprint u pool =
         (u, hm_insert (fingerprint u) (b @ [\<lparr>w_user = u, w_strong = 1\<rparr>]) pool)"
proof (cases "upgrade_first u b")
  case None
  then have "shared_core_user fingerprint u pool =
      (u, hm_insert (fingerprint u) (b @ [\<lparr>w_user = u, w_strong = 1\<rparr>]) pool)"
    by (simp add: shared_core_user_def b_def pool_bucket_def Let_def)
  with None that(2) show ?thesis unfolding upgrade_first_None by blast
next
  case (Some r)
  obtain u' b' where r: "r = (u', b')" by force
  note f = upgrade_first_Some [OF Some [unfolded r]]
  then have "shared_core_user fingerprint u pool = (u, hm_insert (fingerprint u) b' pool)"
    using Some r by (simp add: shared_core_user_def b_def pool_bucket_def Let_def)
  with f that(1) show ?thesis by blast
qed

lemma shared_core_user_inv:
  assumes "pool_inv fingerprint pool"
  shows "pool_inv fingerprint (snd (shared_core_user fingerprint u pool))"
proof -
  let ?b = "filter live (pool_bucket pool (fingerprint u))"
  have b: "distinct (map w_user ?b)" "\<forall>w \<in> set ?b. fingerprint (w_user w) = fingerprint u"
    using assms by (auto simp: pool_inv_def)
  have ins: "pool_inv fingerprint (hm_insert (fingerprint u) b' pool)"
    if "distinct (map w_user (filter live b'))" "\<forall>x \<in> set (map w_user b'). fingerprint x = fingerprint u" for b'
    using assms that by (auto simp: pool_inv_def pool_bucket_insert)
  show ?thesis
  proof (cases rule: shared_core_user_cases [of fingerprint u pool])
    case (found b' w rest)
    have "map w_user (filter live b') = map w_user ?b"
      using map_filter_eq [OF found(2,3)] by simp
    with found(1,2) b show ?thesis by (simp add: ins)
  next
    case fresh
    then have "u \<notin> w_user ` set ?b" by force
    with b show ?thesis unfolding fresh(2) snd_conv by (intro ins) simp_all
  qed
qed

lemma pool_entries_single:
  assumes "pool_inv fingerprint pool" "pool_entries fingerprint pool u = w # rest"
  shows "rest = []"
proof -
  have "distinct (map w_user (pool_entries fingerprint pool u))"
    using assms(1) distinct_map_filter [of w_user "filter live (pool_bucket pool (fingerprint u))" "\<lambda>w. w_user w = u"]
    by (simp add: pool_inv_def pool_entries_def conj_commute)
  moreover have "\<forall>x \<in> set (pool_entries fingerprint pool u). w_user x = u"
    by (simp add: pool_entries_def)
  ultimately show ?thesis unfolding assms(2) by (rule distinct_constant)
qed

lemma filter_live_eq_not:
  "filter (\<lambda>w. live w \<and> w_user w = u') (filter (\<lambda>w. live w \<and> w_user w \<noteq> u) b)
     = (if u' = u then [] else filter (\<lambda>w. live w \<and> w_user w = u') b)"
  by (induction b) auto

lemma shared_core_user_entries:
  fixes fingerprint :: "core_user \<Rightarrow> u64" and pool :: user_pool and u :: core_user
  assumes "pool_inv fingerprint pool"
  defines "pool' \<equiv> snd (shared_core_user fingerprint u pool)"
  shows "pool_entries fingerprint pool' u =
           (case pool_entries fingerprint pool u of
              [] \<Rightarrow> [\<lparr>w_user = u, w_strong = 1\<rparr>]
            | w # _ \<Rightarrow> [w\<lparr>w_strong := w_strong w + 1\<rparr>])"
    and "u' \<noteq> u \<Longrightarrow> pool_entries fingerprint pool' u' = pool_entries fingerprint pool u'"
proof -
  let ?b = "filter live (pool_bucket pool (fingerprint u))"
  have "pool_entries fingerprint pool' u =
           (case pool_entries fingerprint pool u of
              [] \<Rightarrow> [\<lparr>w_user = u, w_strong = 1\<rparr>]
            | w # _ \<Rightarrow> [w\<lparr>w_strong := w_strong w + 1\<rparr>]) \<and>
        (u' \<noteq> u \<longrightarrow> pool_entries fingerprint pool' u' = pool_entries fingerprint pool u')"
  proof (cases rule: shared_core_user_cases [of fingerprint u pool])
    case (found b' w rest)
    have e: "pool_entries fingerprint pool u = w # rest"
      using found(5) unfolding filter_live_eq by (simp add: pool_entries_def)
    have o: "filter (\<lambda>w. live w \<and> w_user w = u') b' = filter (\<lambda>w. live w \<and> w_user w = u') ?b" if "u' \<noteq> u"
      using arg_cong [OF found(4), of "filter (\<lambda>w. live w \<and> w_user w = u')"] that
      unfolding filter_live_eq_not by simp
    from e found(1,6) o pool_entries_single [OF assms(1) e] show ?thesis
      unfolding filter_live_eq
      by (auto simp: pool'_def pool_entries_def pool_bucket_insert)
  next
    case fresh
    then have "pool_entries fingerprint pool u = []"
      by (auto simp: pool_entries_def filter_empty_conv)
    with fresh(1) show ?thesis
      by (auto simp: pool'_def pool_entries_def pool_bucket_insert fresh(2) filter_empty_conv
          filter_live_eq [simplified])
  qed
  then show "pool_entries fingerprint pool' u =
           (case pool_entries fingerprint pool u of
              [] \<Rightarrow> [\<lparr>w_user = u, w_strong = 1\<rparr>]
            | w # _ \<Rightarrow> [w\<lparr>w_strong := w_strong w + 1\<rparr>])"
    and "u' \<noteq> u \<Longrightarrow> pool_entries fingerprint pool' u' = pool_entries fingerprint pool u'" by simp_all
qed

section \<open>Properties of the user tables\<close>

definition example_user :: "string \<Rightarrow> string \<Rightarrow> core_user" where
  "example_user uuid password =
     \<lparr>cu_id = 7, cu_uuid = uuid, cu_password = Some password, cu_email = None,
      cu_speed_limit = 0, cu_device_limit = 0\<rparr>"

definition example_delta :: core_user_delta where
  "example_delta =
     \<lparr>d_added = [example_user ''b'' ''pb''], d_updated = [example_user ''a'' ''pa2''], d_deleted = [''c''],
      d_full = None, d_base_revision = None, d_revision = None\<rparr>"

definition example_store :: "string user_map" where
  "example_store = [(''pa'', example_user ''a'' ''pa''), (''pc'', example_user ''c'' ''pc'')]"

lemma example_nonempty: "\<not> user_is_empty (example_user ''a'' p)" "\<not> user_is_empty (example_user ''b'' p)"
    "\<not> user_is_empty (example_user ''c'' p)"
  by (simp_all add: user_is_empty_def example_user_def, code_simp+)

lemma example_keyed:
  "keyed_inv credential example_store" "keyed_accepts credential example_delta example_store"
  "full_distinct example_delta" "d_full example_delta = None" "set (d_deleted example_delta) = {''c''}"
  by (simp_all add: keyed_inv_def keyed_accepts_def key_separates_def full_distinct_def delta_users_def
      hm_wf_def example_store_def example_delta_def credential_def example_nonempty)
     (simp_all add: example_user_def)

lemma example_uuid_store: "uuid_store_inv [(''c'', example_user ''c'' ''pc'')]"
  by (simp add: uuid_store_inv_def hm_wf_def example_nonempty) (simp add: example_user_def)

text \<open>
  A delta or snapshot applied to the store keyed by uuid (SOCKS, HTTP, Naive) has exactly the
  effect and the counters the delta specification gives for the users the store holds, and keeps the
  store well formed.
\<close>

theorem apply_uuid_delta_correct:
  assumes "uuid_store_inv m"
  shows "map_of (fst (apply_uuid_delta d m)) = fst (delta_spec d (map_of m)) \<and>
         snd (apply_uuid_delta d m) = snd (delta_spec d (map_of m)) \<and>
         uuid_store_inv (fst (apply_uuid_delta d m))"
  using assms uuid_store.view_apply [of m d] uuid_store.result_apply [of m d] uuid_store.preserves [of m d]
  by simp

theorem apply_uuid_delta_correct_witness:
  "map_of (fst (apply_uuid_delta example_delta [(''c'', example_user ''c'' ''pc'')]))
     = fst (delta_spec example_delta (map_of [(''c'', example_user ''c'' ''pc'')]))"
  using apply_uuid_delta_correct [of "[(''c'', example_user ''c'' ''pc'')]" example_delta] example_uuid_store
  by blast



text \<open>
  The map keyed by a derived key (AnyTLS, TUIC), which keeps a uuid index while it runs, does the
  same to the map and to the counters as the keyed store that scans, when every user has a key.
\<close>

theorem keyed_map_delta_correct:
  assumes "keyed_inv (the \<circ> key) m" "opt_accepts key d m"
  shows "apply_user_delta_to_keyed_map key d m = apply_keyed_delta (the \<circ> key) d m \<and>
         keyed_view (fst (apply_user_delta_to_keyed_map key d m)) = fst (delta_spec d (keyed_view m)) \<and>
         snd (apply_user_delta_to_keyed_map key d m) = snd (delta_spec d (keyed_view m))"
  using assms apply_user_delta_to_keyed_map_eq keyed_map.view_apply keyed_map.result_apply by blast

theorem keyed_map_delta_correct_witness:
  "apply_user_delta_to_keyed_map (Some \<circ> credential) example_delta example_store
     = apply_keyed_delta (the \<circ> (Some \<circ> credential)) example_delta example_store"
  using keyed_map_delta_correct [of "Some \<circ> credential" example_store example_delta] example_keyed(1,2)
  by (simp add: opt_accepts_def comp_def)

text \<open>
  A delta applied to the sorted vector (Shadowsocks, Mieru) implements the specification and the
  result is again sorted by uuid, without duplicates and without blank uuids.
\<close>

theorem apply_user_delta_to_vec_correct:
  assumes "full_distinct d"
  shows "view_of_users (fst (apply_user_delta_to_vec d us)) = fst (delta_spec d (view_of_users us)) \<and>
         snd (apply_user_delta_to_vec d us) = snd (delta_spec d (view_of_users us)) \<and>
         vec_inv (fst (apply_user_delta_to_vec d us))"
  using apply_user_delta_to_vec_refines [OF assms, of us] by (metis fst_conv snd_conv)

theorem apply_user_delta_to_vec_correct_witness:
  "vec_inv (fst (apply_user_delta_to_vec example_delta [example_user ''c'' ''pc'', example_user ''a'' ''pa'']))"
  using apply_user_delta_to_vec_correct [OF example_keyed(3)] by blast



text \<open>
  The tables agree: when a uuid store, a keyed store, a keyed map and a vector hold the same users,
  the same delta leaves them holding the same users and reports the same counters.
\<close>

theorem user_tables_in_step:
  assumes "uuid_store_inv s" "keyed_inv key m" "keyed_inv (the \<circ> okey) om"
    and "map_of s = view_of_users v" "keyed_view m = view_of_users v" "keyed_view om = view_of_users v"
    and "keyed_accepts key d m" "opt_accepts okey d om"
  shows "map_of (fst (apply_uuid_delta d s)) = view_of_users (fst (apply_user_delta_to_vec d v)) \<and>
         keyed_view (fst (apply_keyed_delta key d m)) = view_of_users (fst (apply_user_delta_to_vec d v)) \<and>
         keyed_view (fst (apply_user_delta_to_keyed_map okey d om))
           = view_of_users (fst (apply_user_delta_to_vec d v)) \<and>
         snd (apply_uuid_delta d s) = snd (apply_user_delta_to_vec d v) \<and>
         snd (apply_keyed_delta key d m) = snd (apply_user_delta_to_vec d v) \<and>
         snd (apply_user_delta_to_keyed_map okey d om) = snd (apply_user_delta_to_vec d v)"
proof -
  have "full_distinct d" using assms(7) by (simp add: keyed_accepts_def)
  from apply_user_delta_to_vec_refines [OF this, of v] show ?thesis
    using assms uuid_store.refines [of s d] keyed_store.refines [of key m d] keyed_map.refines [of okey om d]
    by (metis fst_conv snd_conv)
qed

theorem user_tables_in_step_witness:
  "snd (apply_uuid_delta example_delta [(''a'', example_user ''a'' ''pa''), (''c'', example_user ''c'' ''pc'')])
     = snd (apply_user_delta_to_vec example_delta [example_user ''a'' ''pa'', example_user ''c'' ''pc''])"
proof -
  let ?s = "[(''a'', example_user ''a'' ''pa''), (''c'', example_user ''c'' ''pc'')]"
  let ?v = "[example_user ''a'' ''pa'', example_user ''c'' ''pc'']"
  have s: "uuid_store_inv ?s"
    by (simp add: uuid_store_inv_def hm_wf_def example_nonempty) (simp add: example_user_def)
  have v: "map_of ?s = view_of_users ?v" "keyed_view example_store = view_of_users ?v"
    by (simp_all add: view_of_users_def keyed_view_def example_store_def example_nonempty)
       (simp_all add: example_user_def fun_eq_iff)
  have oa: "opt_accepts (Some \<circ> credential) example_delta example_store"
    using example_keyed(2) by (simp add: opt_accepts_def comp_def)
  have k: "keyed_inv (the \<circ> (Some \<circ> credential)) example_store"
    using example_keyed(1) by (simp add: comp_def)
  show ?thesis
    using user_tables_in_step [OF s example_keyed(1) k v(1) v(2) v(2) example_keyed(2) oa] by blast
qed

text \<open>
  Sending a delta twice does no harm: a retry leaves the store with the users it already has.
\<close>

theorem delta_retry_harmless:
  assumes "uuid_store_inv m"
  shows "map_of (fst (apply_uuid_delta d (fst (apply_uuid_delta d m)))) = map_of (fst (apply_uuid_delta d m))"
  using assms by (rule uuid_store.retry_harmless) simp_all

theorem delta_retry_harmless_witness:
  "map_of (fst (apply_uuid_delta example_delta
            (fst (apply_uuid_delta example_delta [(''c'', example_user ''c'' ''pc'')]))))
     = map_of (fst (apply_uuid_delta example_delta [(''c'', example_user ''c'' ''pc'')]))"
  by (rule delta_retry_harmless [OF example_uuid_store])

text \<open>
  The counters of an incremental delta add up: the active users reported afterwards are those
  there were before, plus the added, minus the deleted.
\<close>

theorem delta_counters_balance:
  assumes "keyed_inv key m" "keyed_accepts key d m" "d_full d = None"
  shows "r_active_users (snd (apply_keyed_delta key d m)) + r_deleted (snd (apply_keyed_delta key d m))
           = length m + r_added (snd (apply_keyed_delta key d m))"
  using keyed_store.accounting [OF assms] length_keyed_view [OF assms(1)] by simp

theorem delta_counters_balance_witness:
  "r_active_users (snd (apply_keyed_delta credential example_delta example_store))
       + r_deleted (snd (apply_keyed_delta credential example_delta example_store))
     = length example_store + r_added (snd (apply_keyed_delta credential example_delta example_store))"
  by (rule delta_counters_balance [OF example_keyed(1,2,4)])

text \<open>
  C31. The pool interns users: a call returns a user equal to the argument, afterwards the pool has
  exactly one live entry for it, holding one reference more than before, and the live entries of all
  other users are as they were, even those that share the fingerprint.
\<close>

theorem shared_core_user_interns:
  assumes "pool_inv fingerprint pool"
  shows "fst (shared_core_user fingerprint u pool) = u \<and>
         pool_inv fingerprint (snd (shared_core_user fingerprint u pool)) \<and>
         pool_entries fingerprint (snd (shared_core_user fingerprint u pool)) u =
           (case pool_entries fingerprint pool u of
              [] \<Rightarrow> [\<lparr>w_user = u, w_strong = 1\<rparr>]
            | w # _ \<Rightarrow> [w\<lparr>w_strong := w_strong w + 1\<rparr>]) \<and>
         (\<forall>u'. u' \<noteq> u \<longrightarrow>
            pool_entries fingerprint (snd (shared_core_user fingerprint u pool)) u'
              = pool_entries fingerprint pool u')"
proof -
  have "fst (shared_core_user fingerprint u pool) = u"
    by (cases rule: shared_core_user_cases [of fingerprint u pool]) simp_all
  with shared_core_user_inv [OF assms] shared_core_user_entries [OF assms] show ?thesis by simp
qed

theorem shared_core_user_interns_witness:
  "pool_entries (\<lambda>_. 0) (snd (shared_core_user (\<lambda>_. 0) (example_user ''a'' ''pa'')
       [(0, [\<lparr>w_user = example_user ''a'' ''pa'', w_strong = 2\<rparr>])])) (example_user ''a'' ''pa'')
     = [\<lparr>w_user = example_user ''a'' ''pa'', w_strong = 3\<rparr>]"
proof -
  let ?pool = "[(0, [\<lparr>w_user = example_user ''a'' ''pa'', w_strong = 2\<rparr>])]"
  have "pool_inv (\<lambda>_. 0) ?pool"
    by (simp add: pool_inv_def pool_bucket_def hm_wf_def split: option.split)
  from shared_core_user_interns [OF this, of "example_user ''a'' ''pa''"] show ?thesis
    by (simp add: pool_entries_def pool_bucket_def)
qed


end
