(* ===== verification/Sharded.thy ===== *)
theory Sharded
  imports Prelude
begin

text \<open>
  Maps split over a fixed number of shards by a hash of the key, as the traffic registry, the
  bandwidth limiters and the failure backoff keep them. A shard is one mutex-protected
  \<^verbatim>\<open>HashMap\<close>. The locale \<open>shard_family\<close> derives, from the shard index alone, that the family
  behaves as one map.
\<close>

type_synonym ('k, 'v) shards = "('k, 'v) hmap list"

definition empty_shards :: "nat \<Rightarrow> ('k, 'v) shards" where
  "empty_shards n = replicate n []"

definition at_shard :: "('k \<Rightarrow> nat) \<Rightarrow> 'k \<Rightarrow> (('k, 'v) hmap \<Rightarrow> ('k, 'v) hmap) \<Rightarrow> ('k, 'v) shards \<Rightarrow> ('k, 'v) shards" where
  "at_shard idx k f ss = ss[idx k := f (ss ! idx k)]"

definition shard_view :: "('k, 'v) shards \<Rightarrow> 'k \<Rightarrow> 'v option" where
  "shard_view ss = map_of (concat ss)"

definition shards_inv :: "('k \<Rightarrow> nat) \<Rightarrow> nat \<Rightarrow> ('k, 'v) shards \<Rightarrow> bool" where
  "shards_inv idx n ss \<longleftrightarrow>
     length ss = n \<and> (\<forall>i < n. hm_wf (ss ! i) \<and> (\<forall>k \<in> fst ` set (ss ! i). idx k = i))"

text \<open>A change of one shard that is about one key.\<close>

definition key_local :: "'k \<Rightarrow> (('k, 'v) hmap \<Rightarrow> ('k, 'v) hmap) \<Rightarrow> bool" where
  "key_local k f \<longleftrightarrow>
     (\<forall>m. hm_wf m \<longrightarrow>
        hm_wf (f m) \<and> fst ` set (f m) \<subseteq> insert k (fst ` set m) \<and>
        (\<forall>k'. k' \<noteq> k \<longrightarrow> map_of (f m) k' = map_of m k'))"

lemma key_local_insert: "key_local k (\<lambda>m. hm_insert k (v m) m)"
  by (auto simp: key_local_def set_hm_insert)

lemma key_local_remove: "key_local k (\<lambda>m. hm_remove k m)"
  by (auto simp: key_local_def set_hm_remove)

lemma key_local_id: "key_local k (\<lambda>m. m)"
  by (auto simp: key_local_def)

lemma key_local_If: "key_local k f \<Longrightarrow> key_local k g \<Longrightarrow> key_local k (\<lambda>m. if P m then f m else g m)"
  by (simp add: key_local_def)

lemma shards_inv_nth:
  "shards_inv idx n ss \<Longrightarrow> i < n \<Longrightarrow> hm_wf (ss ! i)"
  "shards_inv idx n ss \<Longrightarrow> i < n \<Longrightarrow> (k, v) \<in> set (ss ! i) \<Longrightarrow> idx k = i"
  "shards_inv idx n ss \<Longrightarrow> length ss = n"
  by (force simp: shards_inv_def)+

lemma shards_inv_empty: "shards_inv idx n (empty_shards n)"
  by (simp add: shards_inv_def empty_shards_def hm_wf_def)

lemma shard_view_empty [simp]: "shard_view (empty_shards n) = Map.empty"
proof -
  have "concat (replicate n []) = ([] :: ('a \<times> 'b) list)" by (induction n) simp_all
  then show ?thesis by (simp add: shard_view_def empty_shards_def)
qed

text \<open>A change of every shard that only drops entries.\<close>

lemma shards_inv_map_filter:
  assumes "shards_inv idx n ss"
  shows "shards_inv idx n (map (filter P) ss)"
proof -
  have "hm_wf (filter P (ss ! i)) \<and> (\<forall>k \<in> fst ` set (filter P (ss ! i)). idx k = i)" if "i < n" for i
    using assms that by (auto simp: shards_inv_def hm_wf_filter)
  then show ?thesis using assms by (simp add: shards_inv_def)
qed

lemma concat_map_filter: "concat (map (filter P) xss) = filter P (concat xss)"
  by (induction xss) simp_all

locale shard_family =
  fixes idx :: "'k \<Rightarrow> nat" and n :: nat
  assumes idx_less: "idx k < n"
begin

lemma concat_wf: "shards_inv idx n ss \<Longrightarrow> hm_wf (concat ss)"
proof -
  assume inv: "shards_inv idx n ss"
  have "distinct (concat (map (map fst) ss))"
    if "\<forall>i < length ss. hm_wf (ss ! i) \<and> (\<forall>k \<in> fst ` set (ss ! i). idx k = c + i)" for c and ss :: "('k, 'v) shards"
    using that
  proof (induction ss arbitrary: c)
    case (Cons s ss)
    have tl: "hm_wf (ss ! i) \<and> (\<forall>k \<in> fst ` set (ss ! i). idx k = Suc c + i)" if "i < length ss" for i
      using Cons.prems [rule_format, of "Suc i"] that by simp
    have hd: "hm_wf s" "\<forall>k \<in> fst ` set s. idx k = c"
      using Cons.prems [rule_format, of 0] by simp_all
    have "k \<notin> fst ` set s" if "k \<in> fst ` set t" "t \<in> set ss" for k t
    proof -
      from that(2) obtain i where "i < length ss" "t = ss ! i" by (auto simp: in_set_conv_nth)
      with tl that(1) have "idx k = Suc c + i" by blast
      with hd(2) show ?thesis by auto
    qed
    then show ?case using Cons.IH [of "Suc c"] tl hd(1) by (auto simp: hm_wf_def)
  qed simp
  from this [of ss 0] inv show ?thesis by (simp add: shards_inv_def hm_wf_def map_concat)
qed

lemma lookup:
  assumes "shards_inv idx n ss"
  shows "shard_view ss k = hm_get (ss ! idx k) k"
proof -
  have "shard_view ss k = Some v \<longleftrightarrow> hm_get (ss ! idx k) k = Some v" for v
  proof -
    have "shard_view ss k = Some v \<longleftrightarrow> (k, v) \<in> set (concat ss)"
      using concat_wf [OF assms] by (simp add: shard_view_def hm_wf_def)
    also have "\<dots> \<longleftrightarrow> (k, v) \<in> set (ss ! idx k)"
    proof
      assume "(k, v) \<in> set (concat ss)"
      then obtain t where "t \<in> set ss" "(k, v) \<in> set t" by auto
      then obtain i where "i < length ss" "(k, v) \<in> set (ss ! i)" by (metis in_set_conv_nth)
      with shards_inv_nth(2,3) [OF assms] show "(k, v) \<in> set (ss ! idx k)" by metis
    next
      assume "(k, v) \<in> set (ss ! idx k)"
      moreover have "ss ! idx k \<in> set ss" using idx_less shards_inv_nth(3) [OF assms] by simp
      ultimately show "(k, v) \<in> set (concat ss)" by auto
    qed
    also have "\<dots> \<longleftrightarrow> hm_get (ss ! idx k) k = Some v"
      using shards_inv_nth(1) [OF assms idx_less] by (simp add: hm_wf_def)
    finally show ?thesis .
  qed
  then show ?thesis by (metis option.exhaust)
qed

lemma inv_at:
  assumes "shards_inv idx n ss" "key_local k f"
  shows "shards_inv idx n (at_shard idx k f ss)"
proof -
  have f: "hm_wf (f (ss ! idx k))" "fst ` set (f (ss ! idx k)) \<subseteq> insert k (fst ` set (ss ! idx k))"
    using assms idx_less [of k] by (simp_all add: key_local_def shards_inv_def)
  have len: "length ss = n" by (rule shards_inv_nth(3) [OF assms(1)])
  have "hm_wf (at_shard idx k f ss ! i) \<and> (\<forall>k' \<in> fst ` set (at_shard idx k f ss ! i). idx k' = i)" if i: "i < n" for i
  proof (cases "i = idx k")
    case True
    have at: "at_shard idx k f ss ! i = f (ss ! idx k)" using i True len by (simp add: at_shard_def)
    have "\<forall>k' \<in> fst ` set (ss ! idx k). idx k' = i" using assms(1) i True unfolding shards_inv_def by blast
    with f(2) True have "\<forall>k' \<in> fst ` set (f (ss ! idx k)). idx k' = i" by blast
    with f(1) show ?thesis unfolding at by blast
  next
    case False
    then have at: "at_shard idx k f ss ! i = ss ! i" by (simp add: at_shard_def)
    show ?thesis using assms(1) i unfolding at shards_inv_def by blast
  qed
  then show ?thesis using assms(1) by (simp add: shards_inv_def at_shard_def)
qed

lemma view_at:
  assumes "shards_inv idx n ss" "key_local k f"
  shows "shard_view (at_shard idx k f ss) = (shard_view ss)(k := hm_get (f (ss ! idx k)) k)"
proof
  fix k'
  have w: "hm_wf (ss ! idx k)" using shards_inv_nth(1) [OF assms(1) idx_less] .
  have "shard_view (at_shard idx k f ss) k' = hm_get (at_shard idx k f ss ! idx k') k'"
    by (rule lookup [OF inv_at [OF assms]])
  also have "\<dots> = ((shard_view ss)(k := hm_get (f (ss ! idx k)) k)) k'"
    using assms w idx_less [of k'] lookup [OF assms(1), of k']
    by (cases "k' = k"; cases "idx k' = idx k") (auto simp: at_shard_def key_local_def shards_inv_def)
  finally show "shard_view (at_shard idx k f ss) k' = ((shard_view ss)(k := hm_get (f (ss ! idx k)) k)) k'" .
qed

lemma view_filter:
  assumes "shards_inv idx n ss"
  shows "shard_view (map (filter P) ss) k =
           (case shard_view ss k of None \<Rightarrow> None | Some v \<Rightarrow> if P (k, v) then Some v else None)"
proof -
  have "filter P (concat ss) = hm_retain (\<lambda>k v. P (k, v)) (concat ss)"
    by (simp add: hm_retain_def case_prod_eta)
  then show ?thesis
    using hm_get_retain [OF concat_wf [OF assms], of "\<lambda>k v. P (k, v)" k]
    by (simp only: shard_view_def concat_map_filter)
qed

text \<open>A change of one shard, by index, that only drops entries.\<close>

lemma inv_filter_at:
  assumes "shards_inv idx n ss"
  shows "shards_inv idx n (ss[i := filter P (ss ! i)])"
proof -
  have "hm_wf (ss[i := filter P (ss ! i)] ! j) \<and> (\<forall>k \<in> fst ` set (ss[i := filter P (ss ! i)] ! j). idx k = j)"
    if "j < n" for j
    using assms that by (cases "j = i") (auto simp: shards_inv_def hm_wf_filter)
  then show ?thesis using assms by (simp add: shards_inv_def)
qed

lemma view_filter_at:
  assumes "shards_inv idx n ss"
  shows "shard_view (ss[i := filter P (ss ! i)]) k =
           (case shard_view ss k of None \<Rightarrow> None | Some v \<Rightarrow> if idx k = i \<and> \<not> P (k, v) then None else Some v)"
proof -
  have len: "length ss = n" by (rule shards_inv_nth(3) [OF assms])
  have r: "filter P (ss ! i) = hm_retain (\<lambda>k v. P (k, v)) (ss ! i)"
    by (simp add: hm_retain_def case_prod_eta)
  show ?thesis
  proof (cases "idx k = i")
    case True
    then show ?thesis
      using lookup [OF inv_filter_at [OF assms], of i P k] lookup [OF assms, of k] idx_less [of k] len
        hm_get_retain [OF shards_inv_nth(1) [OF assms idx_less], of "\<lambda>k v. P (k, v)" k k]
      by (auto simp: r split: option.splits)
  next
    case False
    then show ?thesis
      using lookup [OF inv_filter_at [OF assms], of i P k] lookup [OF assms, of k]
      by (simp split: option.split)
  qed
qed

text \<open>The number of entries of all shards together.\<close>

lemma total_len:
  assumes "shards_inv idx n ss"
  shows "sum_list (map length ss) = card (dom (shard_view ss))"
  using hm_len_card [OF concat_wf [OF assms]] by (simp add: shard_view_def length_concat)

end

end
