(* ===== verification/NetAddr.thy ===== *)
theory NetAddr
  imports Rust_Text
begin

text \<open>
  IP addresses as the sources use them through \<^verbatim>\<open>std::net\<close>: the textual forms accepted by
  \<^verbatim>\<open>str::parse::<IpAddr>\<close> and produced by \<^verbatim>\<open>to_string\<close>, and the address classes the
  private-address test asks for. An IPv4 address is its 32-bit value and an IPv6 address its 128-bit
  value, most significant byte first, as \<^verbatim>\<open>ipv4_to_u32\<close> and \<^verbatim>\<open>ipv6_to_u128\<close> compute them.
\<close>

datatype ip_addr = V4 u32 | V6 u128

type_synonym sock_addr = "ip_addr \<times> u16"

definition be_value :: "nat \<Rightarrow> nat list \<Rightarrow> nat" where
  "be_value base = foldl (\<lambda>n d. n * base + d) 0"

definition ipv4_of_octets :: "nat list \<Rightarrow> u32" where
  "ipv4_of_octets os = of_nat (be_value 256 os)"

definition octets :: "u32 \<Rightarrow> nat list" where
  "octets w = map (\<lambda>k. unat w div 256 ^ k mod 256) [3, 2, 1, 0]"

definition ipv6_of_segments :: "nat list \<Rightarrow> u128" where
  "ipv6_of_segments gs = of_nat (be_value 65536 gs)"

definition segments :: "u128 \<Rightarrow> nat list" where
  "segments w = map (\<lambda>k. unat w div 65536 ^ k mod 65536) [7, 6, 5, 4, 3, 2, 1, 0]"

section \<open>Parsing\<close>

text \<open>
  A reader returns the value and the unread input; on failure the caller's position is unchanged,
  which is what \<^verbatim>\<open>read_atomically\<close> does.
\<close>

definition read_number :: "nat \<Rightarrow> nat \<Rightarrow> bool \<Rightarrow> nat \<Rightarrow> string \<Rightarrow> (nat \<times> string) option" where
  "read_number radix max_digits allow_zero_prefix mx s =
     (let ds = takeWhile (\<lambda>c. to_digit radix c \<noteq> None) s;
          rest = dropWhile (\<lambda>c. to_digit radix c \<noteq> None) s
      in if max_digits < length ds then None
         else if ds = [] then None
         else if \<not> allow_zero_prefix \<and> hd ds = CHR ''0'' \<and> 1 < length ds then None
         else map_option (\<lambda>n. (n, rest)) (parse_digits radix mx 0 ds))"

definition read_separator ::
    "char \<Rightarrow> nat \<Rightarrow> (string \<Rightarrow> ('a \<times> string) option) \<Rightarrow> string \<Rightarrow> ('a \<times> string) option" where
  "read_separator sep index inner s =
     (if index = 0 then inner s
      else case s of [] \<Rightarrow> None | c # cs \<Rightarrow> if c = sep then inner cs else None)"

fun read_octets :: "nat \<Rightarrow> nat \<Rightarrow> string \<Rightarrow> (nat list \<times> string) option" where
  "read_octets 0 i s = Some ([], s)"
| "read_octets (Suc k) i s =
     (case read_separator CHR ''.'' i (read_number 10 3 False 255) s of
        None \<Rightarrow> None
      | Some (n, s') \<Rightarrow>
          (case read_octets k (i + 1) s' of None \<Rightarrow> None | Some (ns, s'') \<Rightarrow> Some (n # ns, s'')))"

definition read_ipv4_addr :: "string \<Rightarrow> (nat list \<times> string) option" where
  "read_ipv4_addr s = read_octets 4 0 s"

fun read_groups :: "nat \<Rightarrow> nat \<Rightarrow> string \<Rightarrow> nat list \<times> bool \<times> string" where
  "read_groups 0 i s = ([], False, s)"
| "read_groups (Suc k) i s =
     (case (if 0 < k then read_separator CHR '':'' i read_ipv4_addr s else None) of
        Some (os, s') \<Rightarrow> ([be_value 256 (take 2 os), be_value 256 (drop 2 os)], True, s')
      | None \<Rightarrow>
          (case read_separator CHR '':'' i (read_number 16 4 True 65535) s of
             None \<Rightarrow> ([], False, s)
           | Some (g, s') \<Rightarrow>
               (case read_groups k (i + 1) s' of (gs, v4, s'') \<Rightarrow> (g # gs, v4, s''))))"

definition read_ipv6_addr :: "string \<Rightarrow> (nat list \<times> string) option" where
  "read_ipv6_addr s =
     (case read_groups 8 0 s of
        (head_groups, head_ipv4, s1) \<Rightarrow>
          if length head_groups = 8 then Some (head_groups, s1)
          else if head_ipv4 then None
          else (case strip_prefix ''::'' s1 of
                 None \<Rightarrow> None
               | Some s2 \<Rightarrow>
                   (case read_groups (8 - (length head_groups + 1)) 0 s2 of
                      (tail_groups, _, s3) \<Rightarrow>
                        Some (head_groups @ replicate (8 - length head_groups - length tail_groups) 0
                                @ tail_groups, s3))))"

definition parse_ip :: "string \<Rightarrow> ip_addr option" where
  "parse_ip s =
     (case read_ipv4_addr s of
        Some (os, rest) \<Rightarrow> if rest = [] then Some (V4 (ipv4_of_octets os)) else None
      | None \<Rightarrow>
          (case read_ipv6_addr s of
             Some (gs, rest) \<Rightarrow> if rest = [] then Some (V6 (ipv6_of_segments gs)) else None
           | None \<Rightarrow> None))"

text \<open>
  \<^verbatim>\<open>str::parse::<SocketAddr>\<close>: an IPv4 address, or an IPv6 address in brackets with an optional scope number,
  followed by a port. The scope number is read and not kept.
\<close>

definition read_port :: "string \<Rightarrow> (nat \<times> string) option" where
  "read_port s = (case s of CHR '':'' # rest \<Rightarrow> read_number 10 (length rest) True 65535 rest | _ \<Rightarrow> None)"

definition read_scope_id :: "string \<Rightarrow> string" where
  "read_scope_id s = (case s of
     CHR ''%'' # rest \<Rightarrow> (case read_number 10 (length rest) True 4294967295 rest of Some (_, rest') \<Rightarrow> rest' | None \<Rightarrow> s)
   | _ \<Rightarrow> s)"

definition read_socket_addr_v4 :: "string \<Rightarrow> (sock_addr \<times> string) option" where
  "read_socket_addr_v4 s =
     (case read_ipv4_addr s of
        Some (os, r) \<Rightarrow> map_option (\<lambda>(port, r'). ((V4 (ipv4_of_octets os), of_nat port), r')) (read_port r)
      | None \<Rightarrow> None)"

definition read_socket_addr_v6 :: "string \<Rightarrow> (sock_addr \<times> string) option" where
  "read_socket_addr_v6 s =
     (case s of
        CHR ''['' # s1 \<Rightarrow>
          (case read_ipv6_addr s1 of
             Some (gs, r) \<Rightarrow>
               (case read_scope_id r of
                  CHR '']'' # r2 \<Rightarrow> map_option (\<lambda>(port, r'). ((V6 (ipv6_of_segments gs), of_nat port), r')) (read_port r2)
                | _ \<Rightarrow> None)
           | None \<Rightarrow> None)
      | _ \<Rightarrow> None)"

definition parse_socket_addr :: "string \<Rightarrow> sock_addr option" where
  "parse_socket_addr s =
     (case (case read_socket_addr_v4 s of Some a \<Rightarrow> Some a | None \<Rightarrow> read_socket_addr_v6 s) of
        Some (addr, rest) \<Rightarrow> if rest = [] then Some addr else None
      | None \<Rightarrow> None)"

section \<open>Printing\<close>

fun show_hex :: "nat \<Rightarrow> string" where
  "show_hex n =
     (let digit = (\<lambda>d. char_of (if d < 10 then 48 + d else 87 + d))
      in if n < 16 then [digit n] else show_hex (n div 16) @ [digit (n mod 16)])"

declare show_hex.simps [simp del]

definition show_ipv4 :: "u32 \<Rightarrow> string" where
  "show_ipv4 w = str_join ''.'' (map show_nat (octets w))"

text \<open>The longest run of zero segments, the first of equal length: \<open>(start, len)\<close>.\<close>

definition zero_run :: "nat list \<Rightarrow> nat \<times> nat" where
  "zero_run gs =
     snd (foldl (\<lambda>(cur, best) (i, g).
            if g = (0 :: nat)
            then let cur' = (if snd cur = 0 then i else fst cur, snd cur + 1)
                 in (cur', if snd best < snd cur' then cur' else best)
            else ((0, 0), best))
          ((0, 0), (0, 0)) (enumerate 0 gs))"

definition show_ipv6 :: "u128 \<Rightarrow> string" where
  "show_ipv6 w =
     (let gs = segments w in
      if take 6 gs = [0, 0, 0, 0, 0, 65535]
      then ''::ffff:'' @ show_ipv4 (of_nat (unat w mod 2 ^ 32))
      else let (start, len) = zero_run gs;
               hex = (\<lambda>xs. str_join '':'' (map show_hex xs))
           in if 1 < len then hex (take start gs) @ ''::'' @ hex (drop (start + len) gs)
              else hex gs)"

fun show_ip :: "ip_addr \<Rightarrow> string" where
  "show_ip (V4 w) = show_ipv4 w"
| "show_ip (V6 w) = show_ipv6 w"

section \<open>IPv4 text round trip\<close>


lemma show_nat_digits: "c \<in> set (show_nat n) \<Longrightarrow> to_digit 10 c \<noteq> None"
proof (induction n rule: show_nat.induct)
  case (1 n)
  show ?case
  proof (cases "n < 10")
    case True
    with 1(2) show ?thesis by (subst (asm) show_nat.simps) (simp add: to_digit_char_of)
  next
    case False
    with 1 show ?thesis by (subst (asm) show_nat.simps) (auto simp: to_digit_char_of)
  qed
qed

lemma show_nat_length: "n < 10 ^ Suc k \<Longrightarrow> length (show_nat n) \<le> Suc k"
proof (induction k arbitrary: n)
  case 0
  then show ?case by (subst show_nat.simps) simp
next
  case (Suc k)
  then have "n div 10 < 10 ^ Suc k" by simp
  with Suc.IH [of "n div 10"] show ?case by (subst show_nat.simps) simp
qed

lemma show_nat_no_leading_zero: "hd (show_nat n) = CHR ''0'' \<Longrightarrow> n = 0"
proof (induction n rule: show_nat.induct)
  case (1 n)
  show ?case
  proof (cases "n < 10")
    case True
    then have "of_char (char_of (48 + n) :: char) = (48 + n :: nat)" by simp
    moreover have "char_of (48 + n) = CHR ''0''" using 1(2) True by (subst (asm) show_nat.simps) simp
    ultimately show ?thesis by simp
  next
    case False
    then have "n div 10 = 0" using 1 by (subst (asm) (2) show_nat.simps) simp
    with False show ?thesis by simp
  qed
qed

definition stops :: "nat \<Rightarrow> string \<Rightarrow> bool" where
  "stops radix s \<longleftrightarrow> s = [] \<or> to_digit radix (hd s) = None"

lemma read_number_show_nat:
  assumes "n \<le> 255" "stops 10 rest"
  shows "read_number 10 3 False 255 (show_nat n @ rest) = Some (n, rest)"
proof -
  have t: "takeWhile (\<lambda>c. to_digit 10 c \<noteq> None) (show_nat n @ rest) = show_nat n"
    "dropWhile (\<lambda>c. to_digit 10 c \<noteq> None) (show_nat n @ rest) = rest"
    using assms(2) show_nat_digits [of _ n]
    by (cases rest; simp add: stops_def takeWhile_append dropWhile_append)+
  have "length (show_nat n) \<le> 3" using show_nat_length [of n 2] assms(1) by simp
  moreover have "\<not> (hd (show_nat n) = CHR ''0'' \<and> 1 < length (show_nat n))"
    using show_nat_no_leading_zero [of n] by (auto simp: show_nat.simps [of 0])
  ultimately show ?thesis
    using assms(1) unfolding read_number_def Let_def t by (auto simp: parse_digits_show_nat)
qed

lemma dot_stops: "stops 10 (CHR ''.'' # s)"
  by (simp add: stops_def to_digit_def)

lemma read_octets_show:
  assumes "a \<le> 255" "b \<le> 255" "c \<le> 255" "d \<le> 255"
  shows "read_octets 4 0 (str_join ''.'' (map show_nat [a, b, c, d])) = Some ([a, b, c, d], [])"
proof -
  have nil: "stops 10 []" by (simp add: stops_def)
  have "read_number 10 3 False 255 (show_nat d) = Some (d, [])"
    using read_number_show_nat [OF assms(4) nil] by simp
  moreover have "(4 :: nat) = Suc (Suc (Suc (Suc 0)))" by simp
  ultimately show ?thesis
    by (simp only: read_octets.simps)
       (simp add: read_separator_def read_number_show_nat dot_stops assms)
qed

lemma be_value_foldl: "foldl (\<lambda>n d. n * b + d) acc ds = acc * b ^ length ds + be_value b ds"
proof (induction ds arbitrary: acc)
  case (Cons d ds)
  show ?case
    using Cons [of "acc * b + d"] Cons [of d] by (simp add: be_value_def algebra_simps)
qed (simp add: be_value_def)

lemma be_value_digits:
  "be_value b (map (\<lambda>i. n div b ^ i mod b) (rev [0..<k])) = n mod b ^ k"
proof (induction k)
  case (Suc k)
  have "be_value b (map (\<lambda>i. n div b ^ i mod b) (rev [0..<Suc k]))
      = (n div b ^ k mod b) * b ^ k + n mod b ^ k"
    using be_value_foldl [of b "n div b ^ k mod b" "map (\<lambda>i. n div b ^ i mod b) (rev [0..<k])"] Suc
    by (simp add: be_value_def)
  also have "\<dots> = n mod (b ^ k * b)" by (simp add: mod_mult2_eq)
  finally show ?case by (simp only: power_Suc2)
qed (simp add: be_value_def)

lemma be_value_octets: "be_value 256 (octets w) = unat w"
proof -
  have "rev [0..<4] = [3, 2, 1, 0 :: nat]" by code_simp
  then have "octets w = map (\<lambda>i. unat w div 256 ^ i mod 256) (rev [0..<4])"
    by (simp only: octets_def)
  moreover have "unat w < 2 ^ LENGTH(32)" by (rule unsigned_less)
  ultimately show ?thesis using be_value_digits [of 256 "unat w" 4] by simp
qed

lemma octets_bound: "x \<in> set (octets w) \<Longrightarrow> x \<le> 255"
proof -
  have "n mod 256 \<le> 255" for n :: nat using mod_less_divisor [of 256 n] by linarith
  then show "x \<in> set (octets w) \<Longrightarrow> x \<le> 255" by (auto simp: octets_def)
qed

lemma parse_show_ipv4: "parse_ip (show_ip (V4 w)) = Some (V4 w)"
proof -
  obtain a b c d where o: "octets w = [a, b, c, d]" by (simp add: octets_def)
  then have "a \<le> 255" "b \<le> 255" "c \<le> 255" "d \<le> 255" using octets_bound [of _ w] by auto
  from read_octets_show [OF this]
  have "read_ipv4_addr (show_ipv4 w) = Some (octets w, [])"
    by (simp add: read_ipv4_addr_def show_ipv4_def o)
  then show ?thesis by (simp add: parse_ip_def ipv4_of_octets_def be_value_octets)
qed

end
