(* ===== verification/Sessions.thy ===== *)
theory Sessions
  imports Sharded NetAddr Users
begin

text \<open>
  Device limits: the session tracker of \<^verbatim>\<open>src/limits.rs\<close>. A session is counted per user and client
  address in one of 64 shards; a second table, \<open>device_state\<close>, remembers the addresses the panel reported
  alive and the ones this node admitted and has not reported yet. A guard releases its session when it
  is dropped. \<^verbatim>\<open>Instant::now()\<close> and the hash that selects a shard are arguments.
\<close>

section \<open>State\<close>

record session_state =
  ss_ips :: "(ip_addr, nat) hmap"
  ss_anonymous :: nat

record node_state =
  ns_alive :: "(u64, nat) hmap"
  ns_alive_ips :: "(u64, ip_addr list) hmap"
  ns_mode :: int
  ns_last_alive_pull :: instant

record device_state =
  ds_snapshots :: "(string, node_state) hmap"
  ds_pending :: "(string, (ip_addr, u64) hmap) hmap"
  ds_reported :: "(string, (u64, (ip_addr, instant) hmap) hmap) hmap"

record session_tracker =
  tr_active :: "(string, session_state) shards"
  tr_devices :: device_state

datatype session_key = Key_Ip ip_addr | Key_Anonymous

record session_guard =
  g_user_uuid :: string
  g_node_tag :: string
  g_user_id :: u64
  g_key :: session_key

record device_limit_exceeded =
  dle_user_uuid :: string
  dle_limit :: u32

record device_limit_policy =
  udp_rebind_tolerant :: bool

record device_limit_snapshot =
  sn_node_tag :: string
  sn_alive :: "(u64, nat) hmap"
  sn_alive_ips :: "(u64, ip_addr list) hmap"
  sn_mode :: int

record online_record =
  or_node_tag :: string
  or_user_id :: u64
  or_ip :: ip_addr

definition user_limit_shards :: nat where
  "user_limit_shards = 64"

definition user_limit_shard_index :: "(string \<Rightarrow> u64) \<Rightarrow> string \<Rightarrow> nat" where
  "user_limit_shard_index hash uuid = unat (hash uuid) mod user_limit_shards"

definition reported_alive_bridge_ttl :: duration where
  "reported_alive_bridge_ttl = secs 120"

definition default_policy :: device_limit_policy where
  "default_policy = \<lparr>udp_rebind_tolerant = False\<rparr>"

definition default_devices :: device_state where
  "default_devices = \<lparr>ds_snapshots = [], ds_pending = [], ds_reported = []\<rparr>"

definition default_tracker :: session_tracker where
  "default_tracker = \<lparr>tr_active = empty_shards user_limit_shards, tr_devices = default_devices\<rparr>"

definition default_session :: session_state where
  "default_session = \<lparr>ss_ips = [], ss_anonymous = 0\<rparr>"

section \<open>Known and pending devices\<close>

definition prune_reported :: "instant \<Rightarrow> device_state \<Rightarrow> device_state" where
  "prune_reported now ds =
     ds\<lparr>ds_reported :=
       hm_retain (\<lambda>_ users. users \<noteq> [])
         (map (apsnd (\<lambda>users.
            hm_retain (\<lambda>_ ips. ips \<noteq> [])
              (map (apsnd (hm_retain (\<lambda>_ reported_at. now - reported_at \<le> reported_alive_bridge_ttl))) users)))
          (ds_reported ds))\<rparr>"

definition is_known_alive_ip :: "device_state \<Rightarrow> string \<Rightarrow> u64 \<Rightarrow> ip_addr \<Rightarrow> bool" where
  "is_known_alive_ip ds node_tag user_id ip \<longleftrightarrow>
     (case Option.bind (hm_get (ds_reported ds) node_tag) (\<lambda>users. hm_get users user_id) of
        None \<Rightarrow> False | Some ips \<Rightarrow> hm_contains ips ip) \<or>
     (case hm_get (ds_snapshots ds) node_tag of
        None \<Rightarrow> False
      | Some sn \<Rightarrow>
          ns_mode sn = 1 \<and>
          (case hm_get (ns_alive_ips sn) user_id of None \<Rightarrow> False | Some ips \<Rightarrow> ip \<in> set ips))"

definition snapshot_alive_count :: "device_state \<Rightarrow> string \<Rightarrow> u64 \<Rightarrow> nat" where
  "snapshot_alive_count ds node_tag user_id =
     (case Option.bind (hm_get (ds_snapshots ds) node_tag) (\<lambda>sn. hm_get (ns_alive sn) user_id) of
        None \<Rightarrow> 0 | Some n \<Rightarrow> n)"

definition recent_reported_local_count :: "device_state \<Rightarrow> string \<Rightarrow> u64 \<Rightarrow> nat" where
  "recent_reported_local_count ds node_tag user_id =
     (let last_alive_pull = map_option ns_last_alive_pull (hm_get (ds_snapshots ds) node_tag) in
      case Option.bind (hm_get (ds_reported ds) node_tag) (\<lambda>users. hm_get users user_id) of
        None \<Rightarrow> 0
      | Some ips \<Rightarrow>
          length (filter (\<lambda>(_, reported_at).
            case last_alive_pull of None \<Rightarrow> True | Some t \<Rightarrow> t < reported_at) ips))"

definition known_device_count :: "device_state \<Rightarrow> string \<Rightarrow> u64 \<Rightarrow> nat" where
  "known_device_count ds node_tag user_id =
     usize_saturating_add (snapshot_alive_count ds node_tag user_id)
       (recent_reported_local_count ds node_tag user_id)"

definition pending_of :: "device_state \<Rightarrow> string \<Rightarrow> (ip_addr, u64) hmap" where
  "pending_of ds key = (case hm_get (ds_pending ds) key of None \<Rightarrow> [] | Some p \<Rightarrow> p)"

definition pending_new_ip_count :: "device_state \<Rightarrow> string \<Rightarrow> string \<Rightarrow> u64 \<Rightarrow> nat" where
  "pending_new_ip_count ds key node_tag user_id =
     length (filter (\<lambda>(ip, uid). uid = user_id \<and> \<not> is_known_alive_ip ds node_tag user_id ip) (pending_of ds key))"

definition drop_one_pending_unknown_ip ::
    "device_state \<Rightarrow> string \<Rightarrow> string \<Rightarrow> u64 \<Rightarrow> bool \<times> device_state" where
  "drop_one_pending_unknown_ip ds key node_tag user_id =
     (case hm_get (ds_pending ds) key of
        None \<Rightarrow> (False, ds)
      | Some pending \<Rightarrow>
          (case find (\<lambda>(ip, uid). uid = user_id \<and> \<not> is_known_alive_ip ds node_tag user_id ip) pending of
             None \<Rightarrow> (False, ds)
           | Some (drop_ip, _) \<Rightarrow>
               (True, ds\<lparr>ds_pending := hm_insert key (hm_remove drop_ip pending) (ds_pending ds)\<rparr>)))"

definition device_limit_user_key :: "string \<Rightarrow> string \<Rightarrow> string" where
  "device_limit_user_key node_tag user_uuid =
     (if trim node_tag = [] then user_uuid else node_tag @ ''|'' @ user_uuid)"

definition remove_pending_ip_for_user :: "string \<Rightarrow> string \<Rightarrow> u64 \<Rightarrow> ip_addr \<Rightarrow> device_state \<Rightarrow> device_state" where
  "remove_pending_ip_for_user node_tag user_uuid user_id ip ds =
     (let key = device_limit_user_key node_tag user_uuid in
      case hm_get (ds_pending ds) key of
        None \<Rightarrow> ds
      | Some pending \<Rightarrow>
          (let pending' = (if hm_get pending ip = Some user_id then hm_remove ip pending else pending)
           in ds\<lparr>ds_pending := (if pending' = [] then hm_remove key (ds_pending ds)
                                else hm_insert key pending' (ds_pending ds))\<rparr>))"

definition exceeded :: "core_user \<Rightarrow> device_limit_exceeded" where
  "exceeded user = \<lparr>dle_user_uuid = cu_uuid user, dle_limit = cu_device_limit user\<rparr>"

definition check_device_limit_ip ::
    "instant \<Rightarrow> string \<Rightarrow> core_user \<Rightarrow> ip_addr \<Rightarrow> device_limit_policy \<Rightarrow> device_state
      \<Rightarrow> (device_limit_exceeded + unit) \<times> device_state" where
  "check_device_limit_ip now node_tag user ip policy ds0 =
     (let ds = prune_reported now ds0;
          key = device_limit_user_key node_tag (cu_uuid user);
          limit = unat (cu_device_limit user);
          insert_pending = (\<lambda>ds. ds\<lparr>ds_pending := hm_insert key (hm_insert ip (cu_id user) (pending_of ds key)) (ds_pending ds)\<rparr>)
      in if hm_get (pending_of ds key) ip = Some (cu_id user) then (Inr (), ds)
         else if is_known_alive_ip ds node_tag (cu_id user) ip then (Inr (), insert_pending ds)
         else
           let known = known_device_count ds node_tag (cu_id user);
               pending_new = pending_new_ip_count ds key node_tag (cu_id user);
               (pending_new', ds') =
                 (if limit \<le> usize_saturating_add known pending_new \<and> udp_rebind_tolerant policy \<and> 0 < known
                  then case drop_one_pending_unknown_ip ds key node_tag (cu_id user) of
                         (dropped, ds') \<Rightarrow> (if dropped \<and> 0 < pending_new then pending_new - 1 else pending_new, ds')
                  else (pending_new, ds))
           in if limit \<le> usize_saturating_add known pending_new' \<and>
                 \<not> (udp_rebind_tolerant policy \<and> 0 < known \<and> limit = usize_saturating_add known pending_new')
              then (Inl (exceeded user), ds')
              else (Inr (), insert_pending ds'))"

section \<open>Sessions\<close>

definition device_count :: "session_state \<Rightarrow> nat" where
  "device_count st = length (ss_ips st) + ss_anonymous st"

definition session_at :: "(string, session_state) hmap \<Rightarrow> string \<Rightarrow> session_state" where
  "session_at shard uuid = (case hm_get shard uuid of None \<Rightarrow> default_session | Some st \<Rightarrow> st)"

text \<open>
  The critical section of an acquisition, on the state of one user: the key of the new session, or the
  refusal.
\<close>

definition admit :: "nat \<Rightarrow> ip_addr option \<Rightarrow> device_limit_policy \<Rightarrow> session_state \<Rightarrow> (session_key \<times> session_state) option" where
  "admit limit client_ip policy st =
     (case client_ip of
        Some ip \<Rightarrow>
          (case hm_get (ss_ips st) ip of
             Some n \<Rightarrow> Some (Key_Ip ip, st\<lparr>ss_ips := hm_insert ip (n + 1) (ss_ips st)\<rparr>)
           | None \<Rightarrow>
               (if \<not> udp_rebind_tolerant policy \<and> limit \<le> device_count st then None
                else Some (Key_Ip ip, st\<lparr>ss_ips := hm_insert ip 1 (ss_ips st)\<rparr>)))
      | None \<Rightarrow>
          (if limit \<le> device_count st then None
           else Some (Key_Anonymous, st\<lparr>ss_anonymous := ss_anonymous st + 1\<rparr>)))"

definition try_acquire_for_node_ip_with_policy ::
    "(string \<Rightarrow> u64) \<Rightarrow> instant \<Rightarrow> string \<Rightarrow> core_user option \<Rightarrow> ip_addr option \<Rightarrow> device_limit_policy
      \<Rightarrow> session_tracker \<Rightarrow> (device_limit_exceeded + session_guard option) \<times> session_tracker" where
  "try_acquire_for_node_ip_with_policy hash now node_tag user_opt client_ip policy tr =
     (case user_opt of
        None \<Rightarrow> (Inr None, tr)
      | Some user \<Rightarrow>
          if cu_device_limit user = 0 then (Inr None, tr)
          else
            case (case client_ip of
                    None \<Rightarrow> (Inr (), tr_devices tr)
                  | Some ip \<Rightarrow> check_device_limit_ip now node_tag user ip policy (tr_devices tr)) of
              (Inl e, ds) \<Rightarrow> (Inl e, tr\<lparr>tr_devices := ds\<rparr>)
            | (Inr _, ds) \<Rightarrow>
                (let uuid = cu_uuid user;
                     shard = tr_active tr ! user_limit_shard_index hash uuid
                 in case admit (unat (cu_device_limit user)) client_ip policy (session_at shard uuid) of
                      Some (key, st) \<Rightarrow>
                        (Inr (Some \<lparr>g_user_uuid = uuid, g_node_tag = node_tag, g_user_id = cu_id user, g_key = key\<rparr>),
                         \<lparr>tr_active = at_shard (user_limit_shard_index hash) uuid (hm_insert uuid st) (tr_active tr),
                          tr_devices = ds\<rparr>)
                    | None \<Rightarrow>
                        (Inl (exceeded user),
                         \<lparr>tr_active = at_shard (user_limit_shard_index hash) uuid
                                        (\<lambda>shard. hm_insert uuid (session_at shard uuid) shard) (tr_active tr),
                          tr_devices = (case client_ip of
                             Some ip \<Rightarrow> remove_pending_ip_for_user node_tag uuid (cu_id user) ip ds
                           | None \<Rightarrow> ds)\<rparr>)))"

definition try_acquire_for_node_ip where
  "try_acquire_for_node_ip hash now node_tag user client_ip =
     try_acquire_for_node_ip_with_policy hash now node_tag user client_ip default_policy"

definition try_acquire_for_ip where
  "try_acquire_for_ip hash now user client_ip = try_acquire_for_node_ip hash now [] user client_ip"

definition try_acquire where
  "try_acquire hash now user = try_acquire_for_ip hash now user None"

definition release :: "session_key \<Rightarrow> session_state \<Rightarrow> ip_addr option \<times> session_state" where
  "release key st =
     (case key of
        Key_Ip ip \<Rightarrow>
          (case hm_get (ss_ips st) ip of
             None \<Rightarrow> (None, st)
           | Some n \<Rightarrow>
               (if 1 < n then (None, st\<lparr>ss_ips := hm_insert ip (n - 1) (ss_ips st)\<rparr>)
                else (Some ip, st\<lparr>ss_ips := hm_remove ip (ss_ips st)\<rparr>)))
      | Key_Anonymous \<Rightarrow> (None, st\<lparr>ss_anonymous := ss_anonymous st - 1\<rparr>))"

definition drop_guard :: "(string \<Rightarrow> u64) \<Rightarrow> session_guard \<Rightarrow> session_tracker \<Rightarrow> session_tracker" where
  "drop_guard hash g tr =
     (let uuid = g_user_uuid g;
          shard = tr_active tr ! user_limit_shard_index hash uuid
      in case hm_get shard uuid of
           None \<Rightarrow> tr
         | Some st \<Rightarrow>
             (case release (g_key g) st of (released_ip, st') \<Rightarrow>
                \<lparr>tr_active = at_shard (user_limit_shard_index hash) uuid
                    (\<lambda>shard. if device_count st' = 0 then hm_remove uuid shard else hm_insert uuid st' shard)
                    (tr_active tr),
                 tr_devices = (case released_ip of
                    None \<Rightarrow> tr_devices tr
                  | Some ip \<Rightarrow> remove_pending_ip_for_user (g_node_tag g) uuid (g_user_id g) ip (tr_devices tr))\<rparr>))"

definition active_count :: "(string \<Rightarrow> u64) \<Rightarrow> session_tracker \<Rightarrow> string \<Rightarrow> nat" where
  "active_count hash tr uuid =
     (case hm_get (tr_active tr ! user_limit_shard_index hash uuid) uuid of
        None \<Rightarrow> 0 | Some st \<Rightarrow> device_count st)"

section \<open>Panel snapshots, reports and revocation\<close>

definition apply_device_limit_snapshot :: "instant \<Rightarrow> device_limit_snapshot \<Rightarrow> session_tracker \<Rightarrow> session_tracker" where
  "apply_device_limit_snapshot now sn tr =
     (let ds = prune_reported now (tr_devices tr)
      in tr\<lparr>tr_devices := ds\<lparr>ds_snapshots :=
           hm_insert (sn_node_tag sn)
             \<lparr>ns_alive = sn_alive sn, ns_alive_ips = sn_alive_ips sn, ns_mode = sn_mode sn, ns_last_alive_pull = now\<rparr>
             (ds_snapshots ds)\<rparr>\<rparr>)"

definition commit_one :: "instant \<Rightarrow> online_record \<Rightarrow> device_state \<Rightarrow> device_state" where
  "commit_one now r ds =
     (if trim (or_node_tag r) = [] \<or> or_user_id r = 0 then ds
      else
        let users = (case hm_get (ds_reported ds) (or_node_tag r) of None \<Rightarrow> [] | Some us \<Rightarrow> us);
            ips = (case hm_get users (or_user_id r) of None \<Rightarrow> [] | Some is \<Rightarrow> is);
            reported = hm_insert (or_node_tag r) (hm_insert (or_user_id r) (hm_insert (or_ip r) now ips) users)
                         (ds_reported ds);
            prefix = or_node_tag r @ ''|'';
            pending = map (\<lambda>(key, p).
                        (key, if starts_with prefix key \<and> hm_get p (or_ip r) = Some (or_user_id r)
                              then hm_remove (or_ip r) p else p)) (ds_pending ds);
            empty_keys = map fst (filter (\<lambda>(key, p). starts_with prefix key \<and> p = []) pending)
        in ds\<lparr>ds_reported := reported, ds_pending := fold hm_remove empty_keys pending\<rparr>)"

definition commit_device_limit_report :: "instant \<Rightarrow> online_record list \<Rightarrow> session_tracker \<Rightarrow> session_tracker" where
  "commit_device_limit_report now records tr =
     tr\<lparr>tr_devices := fold (commit_one now) records (prune_reported now (tr_devices tr))\<rparr>"

definition revoke_users :: "(string \<Rightarrow> u64) \<Rightarrow> string list \<Rightarrow> session_tracker \<Rightarrow> session_tracker" where
  "revoke_users hash user_uuids tr =
     (let active = fold (\<lambda>uuid. at_shard (user_limit_shard_index hash) uuid (hm_remove uuid)) user_uuids (tr_active tr);
          ds = tr_devices tr
      in \<lparr>tr_active = active,
          tr_devices = (if user_uuids = [] then ds
            else ds\<lparr>ds_pending := hm_retain (\<lambda>key _.
                   \<not> (\<exists>uuid \<in> set user_uuids. key = uuid \<or> ends_with (''|'' @ uuid) key)) (ds_pending ds)\<rparr>)\<rparr>)"

definition sync_users :: "core_user list \<Rightarrow> session_tracker \<Rightarrow> session_tracker" where
  "sync_users users tr =
     (let uuids = set (map cu_uuid users); ds = tr_devices tr
      in \<lparr>tr_active = map (hm_retain (\<lambda>uuid _. uuid \<in> uuids)) (tr_active tr),
          tr_devices = ds\<lparr>ds_pending := hm_retain (\<lambda>key _.
            case rsplit_once CHR ''|'' key of Some (_, uuid) \<Rightarrow> uuid \<in> uuids | None \<Rightarrow> key \<in> uuids) (ds_pending ds)\<rparr>\<rparr>)"

section \<open>What the tracker counts\<close>

interpretation session_map: shard_family "user_limit_shard_index hash" user_limit_shards for hash
  by unfold_locales (simp add: user_limit_shard_index_def user_limit_shards_def)

definition session_of :: "session_tracker \<Rightarrow> string \<Rightarrow> session_state" where
  "session_of tr uuid = (case shard_view (tr_active tr) uuid of None \<Rightarrow> default_session | Some st \<Rightarrow> st)"

definition guards_on :: "session_guard list \<Rightarrow> string \<Rightarrow> session_key \<Rightarrow> nat" where
  "guards_on gs uuid key = length (filter (\<lambda>g. g_user_uuid g = uuid \<and> g_key g = key) gs)"

definition counts :: "session_guard list \<Rightarrow> string \<Rightarrow> session_state \<Rightarrow> bool" where
  "counts gs uuid st \<longleftrightarrow>
     hm_wf (ss_ips st) \<and> ss_anonymous st = guards_on gs uuid Key_Anonymous \<and>
     (\<forall>ip. hm_get (ss_ips st) ip =
        (if guards_on gs uuid (Key_Ip ip) = 0 then None else Some (guards_on gs uuid (Key_Ip ip))))"

abbreviation sessions_wf :: "(string \<Rightarrow> u64) \<Rightarrow> session_tracker \<Rightarrow> bool" where
  "sessions_wf hash tr \<equiv> shards_inv (user_limit_shard_index hash) user_limit_shards (tr_active tr)"

lemma guards_on_Cons:
  "guards_on (g # gs) uuid key = (if g_user_uuid g = uuid \<and> g_key g = key then 1 else 0) + guards_on gs uuid key"
  by (simp add: guards_on_def)

lemma guards_on_append: "guards_on (xs @ ys) uuid key = guards_on xs uuid key + guards_on ys uuid key"
  by (simp add: guards_on_def)

lemma session_at_eq:
  "sessions_wf hash tr \<Longrightarrow> session_at (tr_active tr ! user_limit_shard_index hash uuid) uuid = session_of tr uuid"
  by (simp add: session_at_def session_of_def session_map.lookup)

lemma active_count_eq:
  "sessions_wf hash tr \<Longrightarrow> active_count hash tr uuid = device_count (session_of tr uuid)"
  by (simp add: active_count_def session_of_def session_map.lookup default_session_def device_count_def
      split: option.split)

lemma admit_counts:
  assumes "counts gs uuid st" "admit limit client_ip policy st = Some (key, st')"
    and "g_user_uuid g = uuid" "g_key g = key"
  shows "counts (g # gs) uuid st'"
    and "\<not> udp_rebind_tolerant policy \<Longrightarrow> device_count st' \<le> max (device_count st) limit"
proof -
  have c: "hm_wf (ss_ips st)" "ss_anonymous st = guards_on gs uuid Key_Anonymous"
    "\<And>ip. hm_get (ss_ips st) ip = (if guards_on gs uuid (Key_Ip ip) = 0 then None else Some (guards_on gs uuid (Key_Ip ip)))"
    using assms(1) by (simp_all add: counts_def)
  show "counts (g # gs) uuid st'"
    using assms(2-4) c
    by (auto simp: admit_def counts_def guards_on_Cons split: option.splits if_splits)
  show "device_count st' \<le> max (device_count st) limit" if "\<not> udp_rebind_tolerant policy"
    using assms(2) that c(1)
    by (auto simp: admit_def device_count_def length_hm_insert hm_contains_def split: option.splits if_splits)
qed

lemma release_counts:
  assumes "counts (gs1 @ g # gs2) uuid st" "g_user_uuid g = uuid"
  shows "counts (gs1 @ gs2) uuid (snd (release (g_key g) st))"
    and "device_count (snd (release (g_key g) st)) \<le> device_count st"
proof -
  have c: "hm_wf (ss_ips st)" "ss_anonymous st = guards_on (gs1 @ g # gs2) uuid Key_Anonymous"
    "\<And>ip. hm_get (ss_ips st) ip = (if guards_on (gs1 @ g # gs2) uuid (Key_Ip ip) = 0 then None
        else Some (guards_on (gs1 @ g # gs2) uuid (Key_Ip ip)))"
    using assms(1) by (simp_all add: counts_def)
  show "counts (gs1 @ gs2) uuid (snd (release (g_key g) st))"
    using c assms(2)
    by (cases "g_key g") (auto simp: release_def counts_def guards_on_append guards_on_Cons split: option.splits if_splits)
  show "device_count (snd (release (g_key g) st)) \<le> device_count st"
    using c(1) by (cases "g_key g")
      (auto simp: release_def device_count_def length_hm_insert length_hm_remove hm_contains_def split: option.split)
qed

section \<open>Runs of the tracker\<close>

text \<open>
  A state is the tracker with the guards alive. A run acquires sessions under the default policy for
  users whose device limit is at most \<open>L\<close> of their uuid, drops guards in any order and takes panel
  snapshots and reports.
\<close>

type_synonym session_world = "session_tracker \<times> session_guard list"

definition with_guard :: "device_limit_exceeded + session_guard option \<Rightarrow> session_guard list \<Rightarrow> session_guard list" where
  "with_guard r gs = (case r of Inr (Some g) \<Rightarrow> g # gs | _ \<Rightarrow> gs)"

inductive session_step :: "(string \<Rightarrow> u64) \<Rightarrow> (string \<Rightarrow> nat) \<Rightarrow> session_world \<Rightarrow> session_world \<Rightarrow> bool"
  for hash L where
  acquire: "unat (cu_device_limit user) \<le> L (cu_uuid user) \<Longrightarrow>
     try_acquire_for_node_ip hash now node_tag (Some user) client_ip tr = (r, tr') \<Longrightarrow>
     session_step hash L (tr, gs) (tr', with_guard r gs)"
| dropped: "session_step hash L (tr, gs1 @ g # gs2) (drop_guard hash g tr, gs1 @ gs2)"
| snapshot: "session_step hash L (tr, gs) (apply_device_limit_snapshot now sn tr, gs)"
| report: "session_step hash L (tr, gs) (commit_device_limit_report now records tr, gs)"

inductive session_reach :: "(string \<Rightarrow> u64) \<Rightarrow> (string \<Rightarrow> nat) \<Rightarrow> session_world \<Rightarrow> bool" for hash L where
  start: "session_reach hash L (default_tracker, [])"
| step: "session_reach hash L s \<Longrightarrow> session_step hash L s s' \<Longrightarrow> session_reach hash L s'"

definition sess_inv :: "(string \<Rightarrow> u64) \<Rightarrow> (string \<Rightarrow> nat) \<Rightarrow> session_world \<Rightarrow> bool" where
  "sess_inv hash L = (\<lambda>(tr, gs).
     sessions_wf hash tr \<and>
     (\<forall>uuid. counts gs uuid (session_of tr uuid) \<and> device_count (session_of tr uuid) \<le> L uuid))"

lemma sess_inv_default: "sess_inv hash L (default_tracker, [])"
  by (simp add: sess_inv_def default_tracker_def shards_inv_empty session_of_def counts_def
      default_session_def guards_on_def device_count_def hm_wf_def)

lemma session_of_at:
  assumes "sessions_wf hash tr" "key_local uuid f"
  shows "session_of \<lparr>tr_active = at_shard (user_limit_shard_index hash) uuid f (tr_active tr), tr_devices = ds\<rparr> uuid' =
           (if uuid' = uuid
            then session_at (f (tr_active tr ! user_limit_shard_index hash uuid)) uuid else session_of tr uuid')"
  using session_map.view_at [OF assms] by (simp add: session_of_def session_at_def)

lemma counts_other:
  "g_user_uuid g \<noteq> uuid \<Longrightarrow> counts (gs1 @ g # gs2) uuid st = counts (gs1 @ gs2) uuid st"
  by (simp add: counts_def guards_on_append guards_on_Cons)

lemma session_at_insert [simp]: "session_at (hm_insert uuid st shard) uuid = st"
  by (simp add: session_at_def)

lemma check_error: "check_device_limit_ip now node_tag user ip policy ds = (Inl e, ds') \<Longrightarrow> e = exceeded user"
  by (auto simp: check_device_limit_ip_def Let_def split: if_splits prod.splits)

lemma acquire_cases:
  assumes "try_acquire_for_node_ip_with_policy hash now node_tag (Some user) client_ip policy tr = (r, tr')"
  obtains (admitted) key st ds where
      "admit (unat (cu_device_limit user)) client_ip policy
         (session_at (tr_active tr ! user_limit_shard_index hash (cu_uuid user)) (cu_uuid user)) = Some (key, st)"
      "r = Inr (Some \<lparr>g_user_uuid = cu_uuid user, g_node_tag = node_tag, g_user_id = cu_id user, g_key = key\<rparr>)"
      "tr' = \<lparr>tr_active = at_shard (user_limit_shard_index hash) (cu_uuid user) (hm_insert (cu_uuid user) st) (tr_active tr),
              tr_devices = ds\<rparr>"
    | (refused) ds where "r = Inl (exceeded user)"
      "tr' = \<lparr>tr_active = at_shard (user_limit_shard_index hash) (cu_uuid user)
                (\<lambda>shard. hm_insert (cu_uuid user) (session_at shard (cu_uuid user)) shard) (tr_active tr),
              tr_devices = ds\<rparr>"
    | (unchanged) ds where "r = Inr None \<or> r = Inl (exceeded user)" "tr' = tr\<lparr>tr_devices := ds\<rparr>"
proof (cases "cu_device_limit user = 0")
  case True
  with assms have "r = Inr None" "tr' = tr\<lparr>tr_devices := tr_devices tr\<rparr>"
    by (simp_all add: try_acquire_for_node_ip_with_policy_def)
  then show ?thesis using unchanged by blast
next
  case False
  define check where "check = (case client_ip of None \<Rightarrow> (Inr (), tr_devices tr)
    | Some ip \<Rightarrow> check_device_limit_ip now node_tag user ip policy (tr_devices tr))"
  obtain c ds where c: "check = (c, ds)" by force
  show ?thesis
  proof (cases c)
    case (Inl e)
    with c have "e = exceeded user" by (auto simp: check_def check_error split: option.splits)
    with assms False c Inl have "r = Inl (exceeded user)" "tr' = tr\<lparr>tr_devices := ds\<rparr>"
      by (simp_all add: try_acquire_for_node_ip_with_policy_def check_def [symmetric])
    then show ?thesis using unchanged by blast
  next
    case (Inr x)
    note eqs = assms [unfolded try_acquire_for_node_ip_with_policy_def Let_def option.case check_def [symmetric]]
    show ?thesis
    proof (cases "admit (unat (cu_device_limit user)) client_ip policy
        (session_at (tr_active tr ! user_limit_shard_index hash (cu_uuid user)) (cu_uuid user))")
      case None
      with eqs False c Inr show ?thesis by (intro refused) auto
    next
      case (Some a)
      obtain key st where a: "a = (key, st)" by force
      with eqs False c Inr Some show ?thesis by (intro admitted [of key st ds]) auto
    qed
  qed
qed

lemma acquire_step_inv:
  assumes "sess_inv hash L (tr, gs)" "unat (cu_device_limit user) \<le> L (cu_uuid user)"
    and "try_acquire_for_node_ip hash now node_tag (Some user) client_ip tr = (r, tr')"
  shows "sess_inv hash L (tr', with_guard r gs)"
proof -
  have wf: "sessions_wf hash tr" and c: "\<And>uuid. counts gs uuid (session_of tr uuid)"
    and L: "\<And>uuid. device_count (session_of tr uuid) \<le> L uuid"
    using assms(1) by (simp_all add: sess_inv_def)
  from assms(3) have "try_acquire_for_node_ip_with_policy hash now node_tag (Some user) client_ip default_policy tr = (r, tr')"
    by (simp add: try_acquire_for_node_ip_def)
  then show ?thesis
  proof (cases rule: acquire_cases)
    case (admitted key st ds)
    let ?g = "\<lparr>g_user_uuid = cu_uuid user, g_node_tag = node_tag, g_user_id = cu_id user, g_key = key\<rparr>"
    note a = admitted(1) [unfolded session_at_eq [OF wf]]
    have "counts (?g # gs) (cu_uuid user) st" by (rule admit_counts(1) [OF c a]) simp_all
    moreover have "device_count st \<le> L (cu_uuid user)"
      using admit_counts(2) [OF c a, of ?g] L [of "cu_uuid user"] assms(2) by (simp add: default_policy_def)
    moreover have "counts (?g # gs) uuid (session_of tr uuid)" if "uuid \<noteq> cu_uuid user" for uuid
      using c [of uuid] counts_other [of ?g uuid "[]" gs "session_of tr uuid"] that by simp
    ultimately show ?thesis
      using wf L key_local_insert [of "cu_uuid user" "\<lambda>_. st"]
      by (auto simp: sess_inv_def with_guard_def admitted(2,3) session_of_at session_map.inv_at)
  next
    case (refused ds)
    let ?f = "\<lambda>shard. hm_insert (cu_uuid user) (session_at shard (cu_uuid user)) shard"
    have "key_local (cu_uuid user) ?f" by (rule key_local_insert)
    with wf c L show ?thesis
      by (auto simp: sess_inv_def with_guard_def refused session_of_at session_map.inv_at session_at_eq)
  next
    case (unchanged ds)
    then have "with_guard r gs = gs" by (auto simp: with_guard_def)
    with wf c L unchanged(2) show ?thesis by (simp add: sess_inv_def session_of_def)
  qed
qed

lemma drop_step_inv:
  assumes "sess_inv hash L (tr, gs1 @ g # gs2)"
  shows "sess_inv hash L (drop_guard hash g tr, gs1 @ gs2)"
proof -
  let ?u = "g_user_uuid g" and ?st = "session_of tr (g_user_uuid g)"
  have wf: "sessions_wf hash tr" and c: "\<And>uuid. counts (gs1 @ g # gs2) uuid (session_of tr uuid)"
    and L: "\<And>uuid. device_count (session_of tr uuid) \<le> L uuid"
    using assms by (simp_all add: sess_inv_def)
  obtain ip st' where rel: "release (g_key g) ?st = (ip, st')" by force
  have st': "counts (gs1 @ gs2) ?u st'" "device_count st' \<le> L ?u"
    using release_counts [OF c refl] L [of ?u] rel by (simp_all add: le_trans)
  have other: "counts (gs1 @ gs2) uuid (session_of tr uuid)" if "uuid \<noteq> ?u" for uuid
    using c [of uuid] counts_other [of g uuid gs1 gs2 "session_of tr uuid"] that by simp
  have some: "shard_view (tr_active tr) ?u = Some ?st"
  proof (cases "shard_view (tr_active tr) ?u")
    case None
    then have "guards_on (gs1 @ g # gs2) ?u (g_key g) = 0"
      using c [of ?u] by (cases "g_key g") (auto simp: session_of_def counts_def default_session_def split: if_splits)
    then show ?thesis by (simp add: guards_on_append guards_on_Cons)
  qed (simp add: session_of_def)
  let ?f = "\<lambda>shard. if device_count st' = 0 then hm_remove ?u shard else hm_insert ?u st' shard"
  have f: "key_local ?u ?f" by (intro key_local_If key_local_remove key_local_insert)
  have zero: "device_count st' = 0 \<Longrightarrow> st' = default_session"
    by (cases st') (simp add: device_count_def default_session_def)
  have "session_at (?f shard) ?u = st'" for shard
    using zero by (auto simp: session_at_def)
  then show ?thesis
    using wf other st' L f some
    by (auto simp: sess_inv_def drop_guard_def session_map.lookup [symmetric] rel session_of_at session_map.inv_at Let_def)
qed

lemma sess_inv_devices: "sess_inv hash L (tr\<lparr>tr_devices := ds\<rparr>, gs) = sess_inv hash L (tr, gs)"
  by (simp add: sess_inv_def session_of_def)

lemma session_step_inv: "session_step hash L s s' \<Longrightarrow> sess_inv hash L s \<Longrightarrow> sess_inv hash L s'"
proof (induction rule: session_step.induct)
  case (acquire user now node_tag client_ip tr r tr' gs)
  then show ?case by (intro acquire_step_inv)
next
  case (dropped tr gs1 g gs2)
  then show ?case by (rule drop_step_inv)
qed (simp_all add: apply_device_limit_snapshot_def commit_device_limit_report_def Let_def sess_inv_devices)

lemma session_reach_inv: "session_reach hash L s \<Longrightarrow> sess_inv hash L s"
  by (induction rule: session_reach.induct) (auto intro: sess_inv_default session_step_inv)

lemma hm_insert_nonempty: "hm_insert k v m \<noteq> []"
  by (cases m) (auto simp: hm_insert_def)

lemma admit_positive: "admit limit client_ip policy st = Some (key, st') \<Longrightarrow> 0 < device_count st'"
  by (auto simp: admit_def device_count_def hm_insert_nonempty split: option.splits if_splits)

lemma counts_devices:
  assumes "counts gs uuid st"
  shows "device_count st = card {ip. \<exists>g \<in> set gs. g_user_uuid g = uuid \<and> g_key g = Key_Ip ip}
           + length (filter (\<lambda>g. g_user_uuid g = uuid \<and> g_key g = Key_Anonymous) gs)"
proof -
  have "dom (map_of (ss_ips st)) = {ip. guards_on gs uuid (Key_Ip ip) \<noteq> 0}"
    using assms by (auto simp: counts_def dom_def split: if_splits)
  also have "\<dots> = {ip. \<exists>g \<in> set gs. g_user_uuid g = uuid \<and> g_key g = Key_Ip ip}"
    by (auto simp: guards_on_def filter_empty_conv)
  finally have dom: "dom (map_of (ss_ips st)) = {ip. \<exists>g \<in> set gs. g_user_uuid g = uuid \<and> g_key g = Key_Ip ip}" .
  have "hm_wf (ss_ips st)" using assms by (simp add: counts_def)
  from hm_len_card [OF this] assms show ?thesis by (simp add: device_count_def counts_def guards_on_def dom)
qed

section \<open>Properties of the session tracker\<close>


definition limited_user :: "string \<Rightarrow> core_user" where
  "limited_user uuid =
     \<lparr>cu_id = 1, cu_uuid = uuid, cu_password = None, cu_email = None, cu_speed_limit = 0, cu_device_limit = 1\<rparr>"

lemma first_acquire:
  "session_step (\<lambda>_. 0) (\<lambda>_. 1) (default_tracker, [])
     (snd (try_acquire_for_node_ip (\<lambda>_. 0) 0 ''n'' (Some (limited_user ''u'')) None default_tracker),
      [\<lparr>g_user_uuid = ''u'', g_node_tag = ''n'', g_user_id = 1, g_key = Key_Anonymous\<rparr>])"
proof -
  let ?r = "try_acquire_for_node_ip (\<lambda>_. 0) 0 ''n'' (Some (limited_user ''u'')) None default_tracker"
  have "fst ?r = Inr (Some \<lparr>g_user_uuid = ''u'', g_node_tag = ''n'', g_user_id = 1, g_key = Key_Anonymous\<rparr>)"
    by (simp add: try_acquire_for_node_ip_def try_acquire_for_node_ip_with_policy_def limited_user_def
        default_tracker_def user_limit_shard_index_def user_limit_shards_def empty_shards_def session_at_def
        default_session_def admit_def device_count_def Let_def)
  then have "with_guard (fst ?r) [] = [\<lparr>g_user_uuid = ''u'', g_node_tag = ''n'', g_user_id = 1, g_key = Key_Anonymous\<rparr>]"
    by (simp add: with_guard_def)
  moreover have "session_step (\<lambda>_. 0) (\<lambda>_. 1) (default_tracker, []) (snd ?r, with_guard (fst ?r) [])"
    by (rule session_step.acquire [where user = "limited_user ''u''"]) (simp_all add: limited_user_def)
  ultimately show ?thesis by simp
qed


text \<open>
  A refused acquisition reports the user and their limit and changes no session count; an accepted
  one for a user with a limit returns a guard for that user.
\<close>

theorem refused_acquire_changes_nothing:
  assumes "sessions_wf hash tr"
    and "try_acquire_for_node_ip_with_policy hash now node_tag (Some user) client_ip policy tr = (r, tr')"
  shows "case r of
           Inl e \<Rightarrow> e = exceeded user \<and> (\<forall>uuid. active_count hash tr' uuid = active_count hash tr uuid)
         | Inr None \<Rightarrow> cu_device_limit user = 0 \<and> tr' = tr
         | Inr (Some g) \<Rightarrow> g_user_uuid g = cu_uuid user \<and> 0 < active_count hash tr' (cu_uuid user)"
proof (cases "cu_device_limit user = 0")
  case True
  with assms(2) show ?thesis by (auto simp: try_acquire_for_node_ip_with_policy_def)
next
  case False
  then have "r \<noteq> Inr None"
    using assms(2) by (auto simp: try_acquire_for_node_ip_with_policy_def Let_def split: sum.splits option.splits prod.splits)
  with assms(2) show ?thesis
  proof (cases rule: acquire_cases)
    case (admitted key st ds)
    have "0 < device_count st"
      by (rule admit_positive [OF admitted(1)])
    with assms(1) show ?thesis
      using key_local_insert [of "cu_uuid user" "\<lambda>_. st"]
      by (simp add: admitted(2,3) active_count_eq session_map.inv_at session_of_at)
  next
    case (refused ds)
    let ?f = "\<lambda>shard. hm_insert (cu_uuid user) (session_at shard (cu_uuid user)) shard"
    have "key_local (cu_uuid user) ?f" by (rule key_local_insert)
    with assms(1) show ?thesis
      by (simp add: refused active_count_eq session_map.inv_at session_of_at session_at_eq)
  next
    case (unchanged ds)
    with \<open>r \<noteq> Inr None\<close> show ?thesis by (auto simp: active_count_def)
  qed
qed

lemma default_tracker_wf: "sessions_wf hash default_tracker"
  by (simp add: default_tracker_def shards_inv_empty)

theorem refused_acquire_changes_nothing_witness:
  "case fst (try_acquire (\<lambda>_. 0) 0 (Some (limited_user ''u'')) default_tracker) of
     Inl e \<Rightarrow> e = exceeded (limited_user ''u'') \<and>
       (\<forall>uuid. active_count (\<lambda>_. 0) (snd (try_acquire (\<lambda>_. 0) 0 (Some (limited_user ''u'')) default_tracker)) uuid
          = active_count (\<lambda>_. 0) default_tracker uuid)
   | Inr None \<Rightarrow> cu_device_limit (limited_user ''u'') = 0 \<and>
       snd (try_acquire (\<lambda>_. 0) 0 (Some (limited_user ''u'')) default_tracker) = default_tracker
   | Inr (Some g) \<Rightarrow> g_user_uuid g = cu_uuid (limited_user ''u'') \<and>
       0 < active_count (\<lambda>_. 0) (snd (try_acquire (\<lambda>_. 0) 0 (Some (limited_user ''u'')) default_tracker)) (cu_uuid (limited_user ''u''))"
  unfolding try_acquire_def try_acquire_for_ip_def try_acquire_for_node_ip_def
  by (rule refused_acquire_changes_nothing [OF default_tracker_wf]) (rule surjective_pairing)

lemma is_known_pending [simp]:
  "is_known_alive_ip (ds\<lparr>ds_pending := p\<rparr>) node_tag user_id ip = is_known_alive_ip ds node_tag user_id ip"
  by (simp add: is_known_alive_ip_def)

lemma known_count_pending [simp]:
  "known_device_count (ds\<lparr>ds_pending := p\<rparr>) node_tag user_id = known_device_count ds node_tag user_id"
  by (simp add: known_device_count_def snapshot_alive_count_def recent_reported_local_count_def)

lemma length_filter_insert:
  "length (filter P (hm_insert k v m)) \<le> Suc (length (filter P m))"
  by (induction m) (auto simp: hm_insert_def)

lemma pending_of_insert [simp]: "pending_of (ds\<lparr>ds_pending := hm_insert key p (ds_pending ds)\<rparr>) key = p"
  by (simp add: pending_of_def)

lemma pending_new_insert:
  "pending_new_ip_count (ds\<lparr>ds_pending := hm_insert key (hm_insert ip uid (pending_of ds key)) (ds_pending ds)\<rparr>)
       key node_tag user_id \<le> Suc (pending_new_ip_count ds key node_tag user_id)"
  by (simp add: pending_new_ip_count_def length_filter_insert)

lemma usize_saturating_add_less:
  "usize_saturating_add a b < n \<Longrightarrow> b' \<le> Suc b \<Longrightarrow> usize_saturating_add a b' \<le> n"
  by (auto simp: usize_saturating_add_def)

text \<open>
  Across the nodes of a panel: under the default policy an address that is neither known alive nor
  pending is admitted only if, afterwards, the devices already known plus those pending are at most
  the user's limit; otherwise the check refuses with that limit and admits nothing.
\<close>

theorem new_address_within_limit:
  assumes "ds' = prune_reported now ds"
    and "check_device_limit_ip now node_tag user ip default_policy ds = (r, ds'')"
    and "\<not> is_known_alive_ip ds' node_tag (cu_id user) ip"
    and "hm_get (pending_of ds' (device_limit_user_key node_tag (cu_uuid user))) ip \<noteq> Some (cu_id user)"
  shows "case r of
      Inr _ \<Rightarrow> usize_saturating_add (known_device_count ds'' node_tag (cu_id user))
                 (pending_new_ip_count ds'' (device_limit_user_key node_tag (cu_uuid user)) node_tag (cu_id user))
               \<le> unat (cu_device_limit user)
    | Inl e \<Rightarrow> e = exceeded user \<and> ds'' = ds' \<and>
               unat (cu_device_limit user) \<le> usize_saturating_add (known_device_count ds' node_tag (cu_id user))
                 (pending_new_ip_count ds' (device_limit_user_key node_tag (cu_uuid user)) node_tag (cu_id user))"
  using assms(2-4) pending_new_insert usize_saturating_add_less
  by (auto simp: check_device_limit_ip_def assms(1) [symmetric] default_policy_def Let_def not_le split: if_splits)

theorem new_address_within_limit_witness:
  "usize_saturating_add
     (known_device_count (snd (check_device_limit_ip 0 ''n'' (limited_user ''u'') (V4 1) default_policy default_devices)) ''n'' 1)
     (pending_new_ip_count (snd (check_device_limit_ip 0 ''n'' (limited_user ''u'') (V4 1) default_policy default_devices))
        (device_limit_user_key ''n'' ''u'') ''n'' 1) \<le> 1"
proof -
  let ?c = "check_device_limit_ip 0 ''n'' (limited_user ''u'') (V4 1) default_policy default_devices"
  have c: "?c = (Inr (), snd ?c)"
  proof (rule prod_eqI)
    show "fst ?c = fst (Inr (), snd ?c)" by code_simp
  qed simp
  have p: "default_devices = prune_reported 0 default_devices" by code_simp
  have "\<not> is_known_alive_ip default_devices ''n'' (cu_id (limited_user ''u'')) (V4 1)"
    "hm_get (pending_of default_devices (device_limit_user_key ''n'' (cu_uuid (limited_user ''u'')))) (V4 1)
       \<noteq> Some (cu_id (limited_user ''u''))"
    by (simp_all add: is_known_alive_ip_def pending_of_def default_devices_def)
  from new_address_within_limit [OF p c this] show ?thesis by (simp add: limited_user_def)
qed

definition reported_at :: "device_state \<Rightarrow> string \<Rightarrow> u64 \<Rightarrow> ip_addr \<Rightarrow> instant option" where
  "reported_at ds node_tag user_id ip =
     Option.bind (hm_get (ds_reported ds) node_tag) (\<lambda>users. Option.bind (hm_get users user_id) (\<lambda>ips. hm_get ips ip))"

definition reported_wf :: "device_state \<Rightarrow> bool" where
  "reported_wf ds \<longleftrightarrow> hm_wf (ds_reported ds) \<and>
     (\<forall>(_, users) \<in> set (ds_reported ds). hm_wf users \<and> (\<forall>(_, ips) \<in> set users. hm_wf ips))"

lemma map_of_apsnd: "map_of (map (apsnd f) m) k = map_option f (map_of m k)"
  by (induction m) auto

lemma hm_wf_apsnd: "hm_wf (map (apsnd f) m) = hm_wf m"
  by (simp add: hm_wf_def)

lemma hm_get_retain_apsnd:
  assumes "hm_wf m"
  shows "hm_get (hm_retain (\<lambda>_. P) (map (apsnd f) m)) k =
           (case hm_get m k of None \<Rightarrow> None | Some v \<Rightarrow> if P (f v) then Some (f v) else None)"
  using assms by (simp add: hm_get_retain hm_wf_apsnd map_of_apsnd split: option.split)

lemma bind_retain_nonempty:
  assumes "hm_wf m" "F [] = None"
  shows "Option.bind (hm_get (hm_retain (\<lambda>_ v. v \<noteq> []) (map (apsnd f) m)) k) F = Option.bind (hm_get m k) (\<lambda>v. F (f v))"
  using assms by (auto simp: hm_get_retain_apsnd split: option.split)

lemma bind_cong_Some: "(\<And>v. x = Some v \<Longrightarrow> f v = g v) \<Longrightarrow> Option.bind x f = Option.bind x g"
  by (cases x) simp_all

text \<open>
  Pruning forgets exactly the reported addresses older than the bridge interval of 120 seconds and
  leaves no empty entry behind.
\<close>

theorem prune_reported_exact:
  assumes "reported_wf ds"
  shows "(\<forall>node_tag user_id ip. reported_at (prune_reported now ds) node_tag user_id ip =
            Option.bind (reported_at ds node_tag user_id ip)
              (\<lambda>t. if now - t \<le> reported_alive_bridge_ttl then Some t else None)) \<and>
         (\<forall>(_, users) \<in> set (ds_reported (prune_reported now ds)). users \<noteq> [] \<and> (\<forall>(_, ips) \<in> set users. ips \<noteq> []))"
proof -
  let ?young = "\<lambda>_ t. now - t \<le> reported_alive_bridge_ttl"
  have "reported_at (prune_reported now ds) node_tag user_id ip =
      Option.bind (reported_at ds node_tag user_id ip) (\<lambda>t. if ?young ip t then Some t else None)" for node_tag user_id ip
  proof -
    have "reported_at (prune_reported now ds) node_tag user_id ip =
        Option.bind (hm_get (ds_reported ds) node_tag) (\<lambda>users.
          Option.bind (hm_get (hm_retain (\<lambda>_ ips. ips \<noteq> []) (map (apsnd (hm_retain ?young)) users)) user_id)
            (\<lambda>ips. hm_get ips ip))"
      unfolding reported_at_def prune_reported_def
      using assms by (simp add: reported_wf_def bind_retain_nonempty)
    also have "\<dots> = Option.bind (hm_get (ds_reported ds) node_tag) (\<lambda>users.
        Option.bind (hm_get users user_id) (\<lambda>ips. Option.bind (hm_get ips ip) (\<lambda>t. if ?young ip t then Some t else None)))"
    proof (rule bind_cong_Some)
      fix users assume "hm_get (ds_reported ds) node_tag = Some users"
      from map_of_SomeD [OF this] have u: "hm_wf users" "\<forall>(_, ips) \<in> set users. hm_wf ips"
        using assms by (auto simp: reported_wf_def)
      show "Option.bind (hm_get (hm_retain (\<lambda>_ ips. ips \<noteq> []) (map (apsnd (hm_retain ?young)) users)) user_id)
          (\<lambda>ips. hm_get ips ip)
        = Option.bind (hm_get users user_id) (\<lambda>ips. Option.bind (hm_get ips ip) (\<lambda>t. if ?young ip t then Some t else None))"
        unfolding bind_retain_nonempty [OF u(1), of "\<lambda>ips. hm_get ips ip", simplified]
      proof (rule bind_cong_Some)
        fix ips assume "hm_get users user_id = Some ips"
        from map_of_SomeD [OF this] u(2) have "hm_wf ips" by auto
        then show "hm_get (hm_retain ?young ips) ip = Option.bind (hm_get ips ip) (\<lambda>t. if ?young ip t then Some t else None)"
          by (auto simp: hm_get_retain split: option.split)
      qed
    qed
    finally show ?thesis by (simp add: reported_at_def)
  qed
  moreover have "\<forall>(_, users) \<in> set (ds_reported (prune_reported now ds)). users \<noteq> [] \<and> (\<forall>(_, ips) \<in> set users. ips \<noteq> [])"
    by (auto simp: prune_reported_def hm_retain_def)
  ultimately show ?thesis by simp
qed

theorem prune_reported_exact_witness:
  "reported_at (prune_reported (secs 121) (default_devices\<lparr>ds_reported := [(''n'', [(1, [(V4 1, 0)])])]\<rparr>)) ''n'' 1 (V4 1) = None"
  using prune_reported_exact [of "default_devices\<lparr>ds_reported := [(''n'', [(1, [(V4 1, 0)])])]\<rparr>" "secs 121"]
  by (simp add: reported_wf_def hm_wf_def reported_at_def reported_alive_bridge_ttl_def secs_def)

lemma hm_get_retain_None: "(\<And>v. \<not> P k v) \<Longrightarrow> hm_get (hm_retain P m) k = None"
  by (auto simp: hm_retain_def map_of_eq_None_iff)

lemma user_key_ends: "device_limit_user_key node_tag uuid = uuid \<or> ends_with (''|'' @ uuid) (device_limit_user_key node_tag uuid)"
  by (auto simp: device_limit_user_key_def ends_with_iff)

lemma revoke_fold:
  assumes "shards_inv (user_limit_shard_index hash) user_limit_shards ss"
  shows "shards_inv (user_limit_shard_index hash) user_limit_shards
           (fold (\<lambda>uuid. at_shard (user_limit_shard_index hash) uuid (hm_remove uuid)) uuids ss) \<and>
         shard_view (fold (\<lambda>uuid. at_shard (user_limit_shard_index hash) uuid (hm_remove uuid)) uuids ss) uuid' =
           (if uuid' \<in> set uuids then None else shard_view ss uuid')"
  using assms
proof (induction uuids arbitrary: ss)
  case (Cons u uuids)
  note v = session_map.view_at [OF Cons.prems key_local_remove, of u]
  note i = session_map.inv_at [OF Cons.prems key_local_remove, of u]
  show ?case using Cons.IH [OF i] by (simp add: v)
qed simp

text \<open>
  Revoking users ends their sessions: their session count becomes zero and no address of theirs
  stays pending under any node, and the counts of all other users are unchanged.
\<close>

theorem revoke_users_clears:
  assumes "sessions_wf hash tr"
  shows "active_count hash (revoke_users hash uuids tr) uuid =
           (if uuid \<in> set uuids then 0 else active_count hash tr uuid) \<and>
         (uuid \<in> set uuids \<longrightarrow>
            pending_of (tr_devices (revoke_users hash uuids tr)) (device_limit_user_key node_tag uuid) = [])"
proof -
  note f = revoke_fold [OF assms, of uuids]
  have "sessions_wf hash (revoke_users hash uuids tr)"
    using f by (simp add: revoke_users_def Let_def)
  moreover have "session_of (revoke_users hash uuids tr) uuid =
      (if uuid \<in> set uuids then default_session else session_of tr uuid)"
    using f [of uuid] by (simp add: session_of_def revoke_users_def Let_def)
  moreover have "hm_get (ds_pending (tr_devices (revoke_users hash uuids tr))) (device_limit_user_key node_tag uuid) = None"
    if "uuid \<in> set uuids"
    using that user_key_ends [of node_tag uuid]
    by (auto simp: revoke_users_def Let_def intro!: hm_get_retain_None)
  ultimately show ?thesis
    using assms by (simp add: active_count_eq pending_of_def default_session_def device_count_def)
qed

theorem revoke_users_clears_witness:
  "active_count (\<lambda>_. 0) (revoke_users (\<lambda>_. 0) [''u''] default_tracker) ''u'' = 0"
  using revoke_users_clears [OF default_tracker_wf, of "\<lambda>_. 0" "[''u'']" "''u''"] by simp

definition stale_guard_run :: "(device_limit_exceeded + session_guard option) \<times> (device_limit_exceeded + session_guard option)" where
  "stale_guard_run =
     (let user = Some (limited_user ''u''); h = (\<lambda>_. 0);
          (g1, t1) = try_acquire_for_node_ip h 0 ''n'' user (Some (V4 1)) default_tracker;
          t2 = revoke_users h [''u''] t1;
          (g2, t3) = try_acquire_for_node_ip h 0 ''n'' user (Some (V4 1)) t2;
          t4 = (case g1 of Inr (Some g) \<Rightarrow> drop_guard h g t3 | _ \<Rightarrow> t3);
          (g3, t5) = try_acquire_for_node_ip h 0 ''n'' user (Some (V4 2)) t4
      in (g2, g3))"


end
