(* ===== verification/Connections.thy ===== *)
theory Connections
  imports Sessions Rust_Text
begin

text \<open>
  The registry of active connections of \<^verbatim>\<open>src/limits.rs\<close> (\<^verbatim>\<open>ActiveConnectionRegistry\<close>). A registered
  connection is a handle that owns clones of its sockets. The guard given to the caller holds the only
  lasting reference to the handle and the registry a weak one, so a handle is alive as long as its guard
  is; \<open>cr_sockets\<close> holds the sockets of the handles alive. Sockets are identified by the operating system
  object, which a clone shares, and \<open>cr_closed\<close> lists the ones shut down so far. The properties are about
  every sequence of registrations, drops, counts and closes.
\<close>

section \<open>State\<close>

type_synonym socket = nat
type_synonym handle = nat

record conn_registry =
  cr_active :: "(string, handle list) shards"
  cr_sockets :: "(handle, socket list) hmap"
  cr_next :: handle
  cr_closed :: "socket list"

record conn_guard =
  cg_user_uuid :: string
  cg_handle :: handle

definition default_registry :: conn_registry where
  "default_registry = \<lparr>cr_active = empty_shards user_limit_shards, cr_sockets = [], cr_next = 0, cr_closed = []\<rparr>"

abbreviation alive :: "conn_registry \<Rightarrow> handle \<Rightarrow> bool" where
  "alive reg h \<equiv> hm_contains (cr_sockets reg) h"

definition sockets_of :: "conn_registry \<Rightarrow> handle \<Rightarrow> socket list" where
  "sockets_of reg h = (case hm_get (cr_sockets reg) h of Some ss \<Rightarrow> ss | None \<Rightarrow> [])"

section \<open>Operations\<close>

definition trimmed_uuid :: "string option \<Rightarrow> string option" where
  "trimmed_uuid user_uuid =
     (case user_uuid of None \<Rightarrow> None | Some uuid \<Rightarrow> if trim uuid = [] then None else Some (trim uuid))"

definition register_owned_tcp_connections ::
    "(string \<Rightarrow> u64) \<Rightarrow> string option \<Rightarrow> socket list \<Rightarrow> conn_registry \<Rightarrow> conn_guard option \<times> conn_registry" where
  "register_owned_tcp_connections hash user_uuid sockets reg =
     (case trimmed_uuid user_uuid of
        None \<Rightarrow> (None, reg)
      | Some uuid \<Rightarrow>
          if sockets = [] then (None, reg)
          else
            let h = cr_next reg;
                push = (\<lambda>shard. hm_insert uuid
                  (filter (alive reg) (case hm_get shard uuid of Some hs \<Rightarrow> hs | None \<Rightarrow> []) @ [h]) shard)
            in (Some \<lparr>cg_user_uuid = uuid, cg_handle = h\<rparr>,
                reg\<lparr>cr_active := at_shard (user_limit_shard_index hash) uuid push (cr_active reg),
                    cr_sockets := hm_insert h sockets (cr_sockets reg), cr_next := Suc h\<rparr>))"

text \<open>Cloning a socket may fail; the first failure is returned and nothing is registered.\<close>

fun clone_all :: "(socket \<Rightarrow> string + socket) \<Rightarrow> socket list \<Rightarrow> string + socket list" where
  "clone_all try_clone [] = Inr []"
| "clone_all try_clone (s # ss) =
     and_then (try_clone s) (\<lambda>s'. and_then (clone_all try_clone ss) (\<lambda>ss'. Inr (s' # ss')))"

definition register_tcp_connection ::
    "(string \<Rightarrow> u64) \<Rightarrow> (socket \<Rightarrow> string + socket) \<Rightarrow> string option \<Rightarrow> socket list \<Rightarrow> conn_registry
      \<Rightarrow> (string + conn_guard option) \<times> conn_registry" where
  "register_tcp_connection hash try_clone user_uuid sockets reg =
     (case trimmed_uuid user_uuid of
        None \<Rightarrow> (Inr None, reg)
      | Some uuid \<Rightarrow>
          if sockets = [] then (Inr None, reg)
          else case clone_all try_clone sockets of
                 Inl e \<Rightarrow> (Inl e, reg)
               | Inr cloned \<Rightarrow>
                   (case register_owned_tcp_connections hash (Some uuid) cloned reg of
                      (g, reg') \<Rightarrow> (Inr g, reg')))"

definition register_tokio_tcp_connection ::
    "(string \<Rightarrow> u64) \<Rightarrow> (socket \<Rightarrow> string + socket) \<Rightarrow> string option \<Rightarrow> socket list \<Rightarrow> conn_registry
      \<Rightarrow> (string + conn_guard option) \<times> conn_registry" where
  "register_tokio_tcp_connection = register_tcp_connection"

definition close_handle :: "handle \<Rightarrow> conn_registry \<Rightarrow> conn_registry" where
  "close_handle h reg = reg\<lparr>cr_closed := cr_closed reg @ sockets_of reg h\<rparr>"

definition close_all :: "conn_registry \<Rightarrow> conn_registry" where
  "close_all reg =
     (let handles = concat (map (\<lambda>shard. concat (map (\<lambda>(uuid, hs). filter (alive reg) hs) shard)) (cr_active reg))
      in fold close_handle handles reg)"

text \<open>Keeping some handles of a user, and dropping the user when none is left.\<close>

definition retain_handles :: "(handle \<Rightarrow> bool) \<Rightarrow> string \<Rightarrow> (string, handle list) hmap \<Rightarrow> (string, handle list) hmap" where
  "retain_handles P uuid shard =
     (case hm_get shard uuid of
        None \<Rightarrow> shard
      | Some hs \<Rightarrow>
          (let hs' = filter P hs
           in if hs' = [] then hm_remove uuid shard else hm_insert uuid hs' shard))"

definition active_handles :: "(string \<Rightarrow> u64) \<Rightarrow> conn_registry \<Rightarrow> string \<Rightarrow> handle list" where
  "active_handles hash reg uuid =
     (case hm_get (cr_active reg ! user_limit_shard_index hash uuid) uuid of
        None \<Rightarrow> [] | Some hs \<Rightarrow> filter (alive reg) hs)"

definition prune_user :: "(string \<Rightarrow> u64) \<Rightarrow> string \<Rightarrow> conn_registry \<Rightarrow> conn_registry" where
  "prune_user hash uuid reg =
     reg\<lparr>cr_active := at_shard (user_limit_shard_index hash) uuid (retain_handles (alive reg) uuid) (cr_active reg)\<rparr>"

definition active_connection_count :: "(string \<Rightarrow> u64) \<Rightarrow> string \<Rightarrow> conn_registry \<Rightarrow> nat \<times> conn_registry" where
  "active_connection_count hash uuid reg = (length (active_handles hash reg uuid), prune_user hash uuid reg)"

definition connection_handles :: "(string \<Rightarrow> u64) \<Rightarrow> string \<Rightarrow> conn_registry \<Rightarrow> handle list \<times> conn_registry" where
  "connection_handles hash uuid reg = (active_handles hash reg uuid, prune_user hash uuid reg)"

definition close_user :: "(string \<Rightarrow> u64) \<Rightarrow> string \<Rightarrow> conn_registry \<Rightarrow> conn_registry" where
  "close_user hash uuid reg = (case connection_handles hash uuid reg of (hs, reg') \<Rightarrow> fold close_handle hs reg')"

definition close_users :: "(string \<Rightarrow> u64) \<Rightarrow> string list \<Rightarrow> conn_registry \<Rightarrow> conn_registry" where
  "close_users hash uuids reg = fold (close_user hash) uuids reg"

definition close_except :: "(string \<Rightarrow> u64) \<Rightarrow> string list \<Rightarrow> conn_registry \<Rightarrow> conn_registry" where
  "close_except hash active_uuids reg =
     close_users hash
       (concat (map (\<lambda>shard. filter (\<lambda>uuid. uuid \<notin> set active_uuids) (map fst shard)) (cr_active reg))) reg"

definition drop_conn_guard :: "(string \<Rightarrow> u64) \<Rightarrow> conn_guard \<Rightarrow> conn_registry \<Rightarrow> conn_registry" where
  "drop_conn_guard hash g reg =
     reg\<lparr>cr_active := at_shard (user_limit_shard_index hash) (cg_user_uuid g)
            (retain_handles (\<lambda>h. alive reg h \<and> h \<noteq> cg_handle g) (cg_user_uuid g)) (cr_active reg),
         cr_sockets := hm_remove (cg_handle g) (cr_sockets reg)\<rparr>"

section \<open>Sequences of operations\<close>

type_synonym conn_world = "conn_registry \<times> conn_guard list"

inductive conn_step :: "(string \<Rightarrow> u64) \<Rightarrow> conn_world \<Rightarrow> conn_world \<Rightarrow> bool" for hash where
  register: "register_tcp_connection hash try_clone user_uuid sockets reg = (r, reg') \<Longrightarrow>
    conn_step hash (reg, gs) (reg', (case r of Inr (Some g) \<Rightarrow> g # gs | _ \<Rightarrow> gs))"
| drop: "g \<in> set gs \<Longrightarrow> conn_step hash (reg, gs) (drop_conn_guard hash g reg, remove1 g gs)"
| count: "conn_step hash (reg, gs) (snd (active_connection_count hash uuid reg), gs)"
| close: "conn_step hash (reg, gs) (close_users hash uuids reg, gs)"
| close_except: "conn_step hash (reg, gs) (close_except hash uuids reg, gs)"
| close_all: "conn_step hash (reg, gs) (close_all reg, gs)"

inductive conn_reach :: "(string \<Rightarrow> u64) \<Rightarrow> conn_world \<Rightarrow> bool" for hash where
  start: "conn_reach hash (default_registry, [])"
| step: "conn_reach hash s \<Longrightarrow> conn_step hash s s' \<Longrightarrow> conn_reach hash s'"

text \<open>The handles ever stored for a user, and the ones of the guards held.\<close>

definition stored :: "conn_registry \<Rightarrow> string \<Rightarrow> handle list" where
  "stored reg uuid = (case shard_view (cr_active reg) uuid of None \<Rightarrow> [] | Some hs \<Rightarrow> hs)"

definition held :: "conn_guard list \<Rightarrow> string \<Rightarrow> handle set" where
  "held gs uuid = {h. \<exists>g \<in> set gs. cg_user_uuid g = uuid \<and> cg_handle g = h}"

definition conn_inv :: "(string \<Rightarrow> u64) \<Rightarrow> conn_world \<Rightarrow> bool" where
  "conn_inv hash = (\<lambda>(reg, gs).
     shards_inv (user_limit_shard_index hash) user_limit_shards (cr_active reg) \<and>
     distinct (map cg_handle gs) \<and>
     (\<forall>h. alive reg h \<longleftrightarrow> h \<in> cg_handle ` set gs) \<and>
     (\<forall>h. alive reg h \<longrightarrow> h < cr_next reg) \<and>
     (\<forall>uuid. distinct (stored reg uuid) \<and> (\<forall>h \<in> set (stored reg uuid). h < cr_next reg) \<and>
        {h \<in> set (stored reg uuid). alive reg h} = held gs uuid))"

lemma active_handles_stored:
  "conn_inv hash (reg, gs) \<Longrightarrow> active_handles hash reg uuid = filter (alive reg) (stored reg uuid)"
  using session_map.lookup [of hash "cr_active reg" uuid]
  by (simp add: conn_inv_def active_handles_def stored_def split: option.split)

lemma key_local_retain: "key_local uuid (retain_handles P uuid)"
  by (auto simp: key_local_def retain_handles_def Let_def set_hm_insert set_hm_remove split: option.split)

lemma key_local_push: "key_local uuid (\<lambda>shard. hm_insert uuid (f shard) shard)"
  by (rule key_local_insert)

lemma stored_retain:
  assumes "shards_inv (user_limit_shard_index hash) user_limit_shards (cr_active reg)"
    and "cr_active reg' = at_shard (user_limit_shard_index hash) uuid (retain_handles P uuid) (cr_active reg)"
  shows "stored reg' u = (if u = uuid then filter P (stored reg u) else stored reg u)"
proof -
  have "hm_wf (cr_active reg ! user_limit_shard_index hash uuid)"
    using shards_inv_nth(1) [OF assms(1) session_map.idx_less] .
  then show ?thesis
    using session_map.view_at [OF assms(1) key_local_retain, of uuid P] session_map.lookup [OF assms(1), of uuid]
    by (auto simp: stored_def assms(2) retain_handles_def Let_def split: option.split)
qed

lemma stored_push:
  assumes "shards_inv (user_limit_shard_index hash) user_limit_shards (cr_active reg)"
    and "cr_active reg' = at_shard (user_limit_shard_index hash) uuid
      (\<lambda>shard. hm_insert uuid (filter P (case hm_get shard uuid of Some hs \<Rightarrow> hs | None \<Rightarrow> []) @ [h]) shard) (cr_active reg)"
  shows "stored reg' u = (if u = uuid then filter P (stored reg u) @ [h] else stored reg u)"
  using session_map.view_at [OF assms(1) key_local_push] session_map.lookup [OF assms(1), of uuid]
  by (auto simp: stored_def assms(2) split: option.split)

lemma conn_inv_start: "conn_inv hash (default_registry, [])"
  by (simp add: conn_inv_def default_registry_def shards_inv_empty stored_def held_def hm_contains_def)

lemma conn_invD:
  assumes "conn_inv hash (reg, gs)"
  shows "shards_inv (user_limit_shard_index hash) user_limit_shards (cr_active reg)" "distinct (map cg_handle gs)"
    and "\<And>h. alive reg h \<longleftrightarrow> h \<in> cg_handle ` set gs" "\<And>h. alive reg h \<Longrightarrow> h < cr_next reg"
    and "\<And>uuid. distinct (stored reg uuid)" "\<And>uuid h. h \<in> set (stored reg uuid) \<Longrightarrow> h < cr_next reg"
    and "\<And>uuid. {h \<in> set (stored reg uuid). alive reg h} = held gs uuid"
  using assms unfolding conn_inv_def prod.case by blast+

lemma conn_invI:
  assumes "shards_inv (user_limit_shard_index hash) user_limit_shards (cr_active reg)" "distinct (map cg_handle gs)"
    and "\<And>h. alive reg h \<longleftrightarrow> h \<in> cg_handle ` set gs" "\<And>h. alive reg h \<Longrightarrow> h < cr_next reg"
    and "\<And>uuid. distinct (stored reg uuid)" "\<And>uuid h. h \<in> set (stored reg uuid) \<Longrightarrow> h < cr_next reg"
    and "\<And>uuid. {h \<in> set (stored reg uuid). alive reg h} = held gs uuid"
  shows "conn_inv hash (reg, gs)"
  using assms unfolding conn_inv_def prod.case by blast

text \<open>Pruning a user and logging closed sockets keep the invariant.\<close>

lemma conn_inv_retain:
  assumes "conn_inv hash (reg, gs)" "cr_sockets reg' = cr_sockets reg" "cr_next reg' = cr_next reg"
    and "cr_active reg' = at_shard (user_limit_shard_index hash) uuid (retain_handles (alive reg) uuid) (cr_active reg)"
  shows "conn_inv hash (reg', gs)"
proof -
  note inv = conn_invD [OF assms(1)]
  have sh: "shards_inv (user_limit_shard_index hash) user_limit_shards (cr_active reg')"
    unfolding assms(4) by (rule session_map.inv_at [OF inv(1) key_local_retain])
  have "stored reg' u = (if u = uuid then filter (alive reg) (stored reg u) else stored reg u)" for u
    by (rule stored_retain [OF inv(1) assms(4)])
  then have st: "{h \<in> set (stored reg' u). alive reg h} = {h \<in> set (stored reg u). alive reg h}"
    "distinct (stored reg' u)" "set (stored reg' u) \<subseteq> set (stored reg u)" for u
    using inv(5) [of u] by auto
  show ?thesis
  proof (rule conn_invI [OF sh inv(2)], unfold assms(2,3))
    show "alive reg h \<longleftrightarrow> h \<in> cg_handle ` set gs" "alive reg h \<Longrightarrow> h < cr_next reg" for h by (rule inv(3), rule inv(4))
    show "h \<in> set (stored reg' u) \<Longrightarrow> h < cr_next reg" for u h using st(3) inv(6) by blast
    show "{h \<in> set (stored reg' u). alive reg h} = held gs u" for u using st(1) inv(7) by simp
  qed (rule st(2))
qed

lemma conn_inv_closed: "conn_inv hash (reg\<lparr>cr_closed := c\<rparr>, gs) = conn_inv hash (reg, gs)"
  by (simp add: conn_inv_def stored_def)

lemma sockets_of_updates [simp]:
  "sockets_of (reg\<lparr>cr_closed := c\<rparr>) = sockets_of reg" "sockets_of (reg\<lparr>cr_active := a\<rparr>) = sockets_of reg"
  by (simp_all add: fun_eq_iff sockets_of_def)

lemma fold_close_handle:
  "fold close_handle hs reg = reg\<lparr>cr_closed := cr_closed reg @ concat (map (sockets_of reg) hs)\<rparr>"
  by (induction hs arbitrary: reg) (simp_all add: close_handle_def)

lemma close_user_eq:
  "close_user hash uuid reg =
     (prune_user hash uuid reg)\<lparr>cr_closed := cr_closed reg @ concat (map (sockets_of reg) (active_handles hash reg uuid))\<rparr>"
  by (simp add: close_user_def connection_handles_def fold_close_handle prune_user_def)

lemma close_user_inv: "conn_inv hash (reg, gs) \<Longrightarrow> conn_inv hash (close_user hash uuid reg, gs)"
  using conn_inv_retain [of hash reg gs "prune_user hash uuid reg" uuid]
  by (simp add: close_user_eq conn_inv_closed prune_user_def)

lemma close_users_inv: "conn_inv hash (reg, gs) \<Longrightarrow> conn_inv hash (close_users hash uuids reg, gs)"
  unfolding close_users_def by (induction uuids arbitrary: reg) (simp_all add: close_user_inv)

lemma conn_inv_register:
  assumes "conn_inv hash (reg, gs)" "register_owned_tcp_connections hash user_uuid sockets reg = (Some g, reg')"
  shows "conn_inv hash (reg', g # gs)"
proof -
  note inv = conn_invD [OF assms(1)]
  let ?h = "cr_next reg" and ?uuid = "cg_user_uuid g"
  let ?push = "\<lambda>shard. hm_insert ?uuid (filter (alive reg) (case hm_get shard ?uuid of Some hs \<Rightarrow> hs | None \<Rightarrow> []) @ [?h]) shard"
  have g: "cg_handle g = ?h" and reg': "cr_next reg' = Suc ?h" "cr_sockets reg' = hm_insert ?h sockets (cr_sockets reg)"
    "cr_active reg' = at_shard (user_limit_shard_index hash) ?uuid ?push (cr_active reg)"
    using assms(2) by (auto simp: register_owned_tcp_connections_def Let_def split: option.splits if_splits)
  have st: "stored reg' u = (if u = ?uuid then filter (alive reg) (stored reg u) @ [?h] else stored reg u)" for u
    by (rule stored_push [OF inv(1) reg'(3)])
  have al: "alive reg' h \<longleftrightarrow> h = ?h \<or> alive reg h" for h by (simp add: reg'(2) hm_contains_def)
  have sh: "shards_inv (user_limit_shard_index hash) user_limit_shards (cr_active reg')"
    unfolding reg'(3) by (rule session_map.inv_at [OF inv(1) key_local_push])
  have fresh: "\<not> alive reg ?h" "?h \<notin> set (stored reg u)" for u using inv(4,6) by blast+
  have "{h \<in> set (stored reg' u). alive reg' h} = held (g # gs) u" for u
    using inv(7) [of u] fresh by (auto simp: st al held_def g)
  moreover have "distinct (stored reg' u) \<and> (\<forall>h \<in> set (stored reg' u). h < cr_next reg')" for u
    using inv(5) [of u] inv(6) [of _ u] fresh by (auto simp: st reg'(1) less_Suc_eq)
  moreover have "distinct (map cg_handle (g # gs))" using inv(2,3) fresh(1) by (auto simp: g)
  moreover have "alive reg' h \<longleftrightarrow> h \<in> cg_handle ` set (g # gs)" "alive reg' h \<longrightarrow> h < cr_next reg'" for h
    using inv(3,4) [of h] by (auto simp: al g reg'(1))
  ultimately show ?thesis using sh by (simp add: conn_inv_def)
qed

lemma conn_inv_drop:
  assumes "conn_inv hash (reg, gs)" "g \<in> set gs"
  shows "conn_inv hash (drop_conn_guard hash g reg, remove1 g gs)"
proof -
  note inv = conn_invD [OF assms(1)]
  let ?reg = "drop_conn_guard hash g reg" and ?P = "\<lambda>h. alive reg h \<and> h \<noteq> cg_handle g"
  have act: "cr_active ?reg = at_shard (user_limit_shard_index hash) (cg_user_uuid g) (retain_handles ?P (cg_user_uuid g)) (cr_active reg)"
    by (simp add: drop_conn_guard_def)
  have st: "stored ?reg u = (if u = cg_user_uuid g then filter ?P (stored reg u) else stored reg u)" for u
    by (rule stored_retain [OF inv(1) act])
  have nx: "cr_next ?reg = cr_next reg" by (simp add: drop_conn_guard_def)
  have al: "alive ?reg h \<longleftrightarrow> alive reg h \<and> h \<noteq> cg_handle g" for h
    by (auto simp: drop_conn_guard_def hm_contains_def)
  have sh: "shards_inv (user_limit_shard_index hash) user_limit_shards (cr_active ?reg)"
    unfolding act by (rule session_map.inv_at [OF inv(1) key_local_retain])
  have gs: "distinct gs" "set (remove1 g gs) = set gs - {g}"
    using inv(2) by (auto simp: distinct_map)
  have other: "cg_handle g' = cg_handle g \<longleftrightarrow> g' = g" if "g' \<in> set gs" for g'
    using inv(2) that assms(2) by (auto simp: distinct_map inj_on_def)
  have held': "held (remove1 g gs) u = held gs u - {cg_handle g}" for u
    using other by (auto simp: held_def gs(2))
  have "{h \<in> set (stored ?reg u). alive ?reg h} = held (remove1 g gs) u" for u
    using inv(7) [of u] by (auto simp: st al held')
  moreover have "distinct (map cg_handle (remove1 g gs))"
    using inv(2) by (simp add: distinct_map gs inj_on_def)
  moreover have "alive ?reg h \<longleftrightarrow> h \<in> cg_handle ` set (remove1 g gs)" for h
    by (auto simp: al inv(3) gs(2) other)
  moreover have "distinct (stored ?reg u) \<and> (\<forall>h \<in> set (stored ?reg u). h < cr_next ?reg)" for u
    using inv(5) [of u] inv(6) [of _ u] by (auto simp: st nx)
  moreover have "alive ?reg h \<longrightarrow> h < cr_next ?reg" for h
    using inv(4) [of h] by (simp add: al nx)
  ultimately show ?thesis using sh by (simp add: conn_inv_def)
qed

lemma register_tcp_cases:
  assumes "register_tcp_connection hash try_clone user_uuid sockets reg = (r, reg')"
  shows "reg' = reg \<and> (\<forall>g. r \<noteq> Inr (Some g)) \<or>
    (\<exists>g uuid cloned. r = Inr (Some g) \<and> register_owned_tcp_connections hash (Some uuid) cloned reg = (Some g, reg'))"
proof -
  have none: "reg'' = reg" if "register_owned_tcp_connections hash u ss reg = (None, reg'')" for u ss reg''
    using that by (auto simp: register_owned_tcp_connections_def Let_def split: option.splits if_splits)
  have "reg' = reg \<and> (\<forall>g. r \<noteq> Inr (Some g)) \<or>
      (\<exists>x uuid cloned. r = Inr x \<and> register_owned_tcp_connections hash (Some uuid) cloned reg = (x, reg'))"
    using assms by (auto simp: register_tcp_connection_def split: option.splits if_splits sum.splits prod.splits)
  then show ?thesis using none by (metis not_None_eq sum.inject(2))
qed

lemma conn_step_inv: "conn_step hash s s' \<Longrightarrow> conn_inv hash s \<Longrightarrow> conn_inv hash s'"
proof (induction rule: conn_step.induct)
  case (register try_clone user_uuid sockets reg r reg' gs)
  then show ?case using register_tcp_cases [OF register(1)] conn_inv_register
    by (auto split: sum.split option.split)
next
  case (count reg gs uuid)
  then show ?case
    using conn_inv_retain [of hash reg gs "prune_user hash uuid reg" uuid]
    by (simp add: active_connection_count_def prune_user_def)
qed (simp_all add: conn_inv_drop close_users_inv close_except_def close_all_def fold_close_handle conn_inv_closed)

lemma conn_reach_inv: "conn_reach hash s \<Longrightarrow> conn_inv hash s"
  by (induction rule: conn_reach.induct) (auto intro: conn_inv_start conn_step_inv)

lemma active_handles_held: "conn_inv hash (reg, gs) \<Longrightarrow> set (active_handles hash reg uuid) = held gs uuid"
  using conn_invD(7) by (simp add: active_handles_stored)

lemma close_user_closed:
  "conn_inv hash (reg, gs) \<Longrightarrow>
   set (cr_closed (close_user hash uuid reg)) = set (cr_closed reg) \<union> (\<Union>h \<in> held gs uuid. set (sockets_of reg h))"
  by (simp add: close_user_eq active_handles_held)

lemma sockets_of_close_user [simp]: "sockets_of (close_user hash uuid reg) = sockets_of reg"
  by (simp add: close_user_eq prune_user_def)

lemma close_users_closed:
  "conn_inv hash (reg, gs) \<Longrightarrow>
   set (cr_closed (close_users hash uuids reg)) =
     set (cr_closed reg) \<union> (\<Union>uuid \<in> set uuids. \<Union>h \<in> held gs uuid. set (sockets_of reg h))"
proof (induction uuids arbitrary: reg)
  case (Cons uuid uuids)
  from Cons.IH [OF close_user_inv [OF Cons.prems]] close_user_closed [OF Cons.prems] show ?case
    by (auto simp: close_users_def)
qed (simp add: close_users_def)

lemma close_users_held:
  assumes "conn_inv hash (reg, gs)"
  shows "set (cr_closed (close_users hash uuids reg)) =
           set (cr_closed reg) \<union> (\<Union>g \<in> {g \<in> set gs. cg_user_uuid g \<in> set uuids}. set (sockets_of reg (cg_handle g)))"
    and "set (cr_closed (close_except hash uuids reg)) =
           set (cr_closed reg) \<union> (\<Union>g \<in> {g \<in> set gs. cg_user_uuid g \<notin> set uuids}. set (sockets_of reg (cg_handle g)))"
proof -
  note inv = assms
  have "uuid \<in> fst ` set (concat (cr_active reg))" if "held gs uuid \<noteq> {}" for uuid
  proof -
    have "stored reg uuid \<noteq> []" using that conn_invD(7) [OF inv, of uuid] by auto
    then show ?thesis by (force simp: stored_def shard_view_def dest: map_of_SomeD split: option.splits)
  qed
  then have keys: "cg_user_uuid g \<in> fst ` set (concat (cr_active reg))" if "g \<in> set gs" for g
    using that by (fastforce simp: held_def)
  have held: "(\<Union>u \<in> U. \<Union>h \<in> held gs u. set (sockets_of reg h)) =
      (\<Union>g \<in> {g \<in> set gs. cg_user_uuid g \<in> U}. set (sockets_of reg (cg_handle g)))" for U
    by (auto simp: held_def)
  have "set (concat (map (\<lambda>shard. filter (\<lambda>uuid. uuid \<notin> set uuids) (map fst shard)) (cr_active reg))) =
      fst ` set (concat (cr_active reg)) - set uuids" by auto
  moreover have "{g \<in> set gs. cg_user_uuid g \<in> fst ` set (concat (cr_active reg)) - set uuids} =
      {g \<in> set gs. cg_user_uuid g \<notin> set uuids}" using keys by blast
  ultimately show "set (cr_closed (close_except hash uuids reg)) =
      set (cr_closed reg) \<union> (\<Union>g \<in> {g \<in> set gs. cg_user_uuid g \<notin> set uuids}. set (sockets_of reg (cg_handle g)))"
    unfolding close_except_def close_users_closed [OF inv] held by simp
  show "set (cr_closed (close_users hash uuids reg)) =
      set (cr_closed reg) \<union> (\<Union>g \<in> {g \<in> set gs. cg_user_uuid g \<in> set uuids}. set (sockets_of reg (cg_handle g)))"
    unfolding close_users_closed [OF inv] held by simp
qed

lemma close_conns:
  assumes "conn_reach hash (reg, gs)" "g \<in> set gs"
  shows "cg_user_uuid g \<in> set uuids \<Longrightarrow> set (sockets_of reg (cg_handle g)) \<subseteq> set (cr_closed (close_users hash uuids reg))"
    and "cg_user_uuid g \<notin> set uuids \<Longrightarrow> set (sockets_of reg (cg_handle g)) \<subseteq> set (cr_closed (close_except hash uuids reg))"
  using close_users_held [OF conn_reach_inv [OF assms(1)], of uuids] assms(2) by auto

lemma closed_grows: "set (cr_closed reg) \<subseteq> set (cr_closed (close_users hash uuids reg))"
proof (induction uuids arbitrary: reg)
  case (Cons u uuids)
  have "set (cr_closed reg) \<subseteq> set (cr_closed (close_user hash u reg))" by (simp add: close_user_eq)
  then show ?case using Cons.IH [of "close_user hash u reg"] by (simp add: close_users_def)
qed (simp add: close_users_def)

section \<open>Properties\<close>

text \<open>
  After every sequence of registrations, drops, counts and closes, the number of active connections
  of a user is the number of guards of that user still held.
\<close>

lemma connection_count_exact:
  assumes "conn_reach hash (reg, gs)"
  shows "fst (active_connection_count hash uuid reg) = length (filter (\<lambda>g. cg_user_uuid g = uuid) gs)"
proof -
  note inv = conn_reach_inv [OF assms]
  let ?gs = "filter (\<lambda>g. cg_user_uuid g = uuid) gs"
  have "distinct (active_handles hash reg uuid)"
    using conn_invD(5) [OF inv] by (simp add: active_handles_stored [OF inv])
  moreover have "set (active_handles hash reg uuid) = set (map cg_handle ?gs)"
    using active_handles_held [OF inv] by (auto simp: held_def)
  moreover have "distinct (map cg_handle ?gs)"
    using conn_invD(2) [OF inv] by (simp add: distinct_map inj_on_def)
  ultimately have "length (active_handles hash reg uuid) = length (map cg_handle ?gs)"
    using distinct_card [of "active_handles hash reg uuid"] distinct_card [of "map cg_handle ?gs"] by simp
  then show ?thesis by (simp add: active_connection_count_def)
qed

text \<open>
  C5. Closing the connections of some users shuts down exactly the sockets of the connections these users
  hold, and closing all but the active users shuts down every connection of every other user.
\<close>

theorem close_users_exact:
  assumes "conn_reach hash (reg, gs)"
  shows "set (cr_closed (close_users hash uuids reg)) =
           set (cr_closed reg) \<union> (\<Union>g \<in> {g \<in> set gs. cg_user_uuid g \<in> set uuids}. set (sockets_of reg (cg_handle g))) \<and>
         set (cr_closed (close_except hash uuids reg)) =
           set (cr_closed reg) \<union> (\<Union>g \<in> {g \<in> set gs. cg_user_uuid g \<notin> set uuids}. set (sockets_of reg (cg_handle g)))"
  using close_users_held [OF conn_reach_inv [OF assms], of uuids] by blast

definition one_connection :: "(string + conn_guard option) \<times> conn_registry" where
  "one_connection = register_tcp_connection (\<lambda>_. 0) Inr (Some ''u'') [7] default_registry"

lemma one_connection_reach: "conn_reach (\<lambda>_. 0) (snd one_connection, [\<lparr>cg_user_uuid = ''u'', cg_handle = 0\<rparr>])"
proof -
  have "fst one_connection = Inr (Some \<lparr>cg_user_uuid = ''u'', cg_handle = 0\<rparr>)" by code_simp
  then have "register_tcp_connection (\<lambda>_. 0) Inr (Some ''u'') [7] default_registry =
      (Inr (Some \<lparr>cg_user_uuid = ''u'', cg_handle = 0\<rparr>), snd one_connection)"
    unfolding one_connection_def by (metis prod.collapse)
  from conn_step.register [OF this, of "[]"] show ?thesis
    using conn_reach.step [OF conn_reach.start] by simp
qed

theorem close_users_exact_witness:
  "set (cr_closed (close_users (\<lambda>_. 0) [''u''] (snd one_connection))) = {7} \<and>
   set (cr_closed (close_except (\<lambda>_. 0) [''u''] (snd one_connection))) = {}"
proof -
  have "cr_closed (snd one_connection) = []" "sockets_of (snd one_connection) 0 = [7]" by code_simp+
  then show ?thesis using close_users_exact [OF one_connection_reach, of "[''u'']"] by simp
qed

end
