(* ===== verification/Bandwidth.thy ===== *)
theory Bandwidth
  imports Complex_Main Connections
begin

text \<open>
  The bandwidth limiters of \<^verbatim>\<open>src/limits.rs\<close>: the token bucket of one user, the waiting loop around it, the
  sharded map of the limiters of all users with the connection registry, and the effect of a user delta
  on the limiters, the connections and the sessions together. Tokens are rational numbers where the code
  has \<^verbatim>\<open>f64\<close>; durations and instants are whole nanoseconds, and \<^verbatim>\<open>Duration::from_secs_f64\<close> rounds to the
  nearest one. A limiter is never removed from the map, so the shared \<^verbatim>\<open>Arc\<close> the code hands out is
  represented by the user's key. What other threads do to a limiter while one sleeps, and how late the
  sleeper wakes, are arguments.
\<close>

section \<open>Token bucket\<close>

record bandwidth_limiter =
  bl_bytes_per_second :: u64
  bl_revoked :: bool
  bl_tokens :: rat
  bl_last_refill :: instant

definition new_limiter :: "instant \<Rightarrow> u64 \<Rightarrow> bandwidth_limiter" where
  "new_limiter now bps = \<lparr>bl_bytes_per_second = max bps 1, bl_revoked = False, bl_tokens = 0, bl_last_refill = now\<rparr>"

definition unlimited :: "instant \<Rightarrow> bandwidth_limiter" where
  "unlimited now = \<lparr>bl_bytes_per_second = 0, bl_revoked = False, bl_tokens = 0, bl_last_refill = now\<rparr>"

definition set_bytes_per_second :: "u64 \<Rightarrow> bandwidth_limiter \<Rightarrow> bandwidth_limiter" where
  "set_bytes_per_second bps l = l\<lparr>bl_revoked := False, bl_bytes_per_second := max bps 1\<rparr>"

definition set_unlimited :: "bandwidth_limiter \<Rightarrow> bandwidth_limiter" where
  "set_unlimited l = l\<lparr>bl_revoked := False, bl_bytes_per_second := 0\<rparr>"

definition revoke :: "bandwidth_limiter \<Rightarrow> bandwidth_limiter" where
  "revoke l = l\<lparr>bl_revoked := True\<rparr>"

definition is_revoked :: "bandwidth_limiter \<Rightarrow> bool" where
  "is_revoked l = bl_revoked l"

definition as_secs :: "duration \<Rightarrow> rat" where
  "as_secs d = of_nat d / 10 ^ 9"

definition from_secs :: "rat \<Rightarrow> duration" where
  "from_secs s = nat (round (s * 10 ^ 9))"

definition rate_of :: "bandwidth_limiter \<Rightarrow> rat" where
  "rate_of l = of_nat (unat (bl_bytes_per_second l))"

definition refilled :: "instant \<Rightarrow> nat \<Rightarrow> bandwidth_limiter \<Rightarrow> rat" where
  "refilled now bytes l =
     min (bl_tokens l + as_secs (now - bl_last_refill l) * rate_of l) (max (rate_of l) (of_nat bytes))"

definition reserve_wait_duration :: "instant \<Rightarrow> nat \<Rightarrow> bandwidth_limiter \<Rightarrow> duration option \<times> bandwidth_limiter" where
  "reserve_wait_duration now bytes l =
     (if bl_bytes_per_second l = 0 then (None, l)
      else
        let tokens = refilled now bytes l; l' = l\<lparr>bl_last_refill := now\<rparr>
        in if of_nat bytes \<le> tokens then (None, l'\<lparr>bl_tokens := tokens - of_nat bytes\<rparr>)
           else (Some (from_secs ((of_nat bytes - tokens) / rate_of l)), l'\<lparr>bl_tokens := 0\<rparr>))"

section \<open>Waiting\<close>

text \<open>
  The loop with a bound on its rounds; \<open>None\<close> is a bound reached. After a sleep of \<open>d\<close> that began at
  \<open>now\<close> the thread runs again at \<open>now + d + late now\<close>, and \<open>others t\<close> is what other threads did to the
  limiter by then.
\<close>

fun wait_loop ::
  "nat \<Rightarrow> (instant \<Rightarrow> duration) \<Rightarrow> (instant \<Rightarrow> bandwidth_limiter \<Rightarrow> bandwidth_limiter) \<Rightarrow> instant \<Rightarrow> nat
    \<Rightarrow> bandwidth_limiter \<Rightarrow> (bool \<times> instant \<times> bandwidth_limiter) option" where
  "wait_loop 0 late others now bytes l = None"
| "wait_loop (Suc n) late others now bytes l =
     (if is_revoked l then Some (False, now, l)
      else case reserve_wait_duration now bytes l of
             (None, l') \<Rightarrow> Some (\<not> is_revoked l', now, l')
           | (Some d, l') \<Rightarrow>
               (let t = now + d + late now in wait_loop n late others t bytes (others t l')))"

definition wait_for where
  "wait_for n late others now bytes l =
     (if bytes = 0 then Some (\<not> is_revoked l, now, l) else wait_loop n late others now bytes l)"

definition wait_for_async where
  "wait_for_async = wait_for"

section \<open>Limiters of all users\<close>

definition speed_limit_mbps_to_bytes_per_second :: "u64 \<Rightarrow> u64 option" where
  "speed_limit_mbps_to_bytes_per_second mbps =
     (if mbps = 0 then None else Some (max (saturating_mul mbps (1024 * 1024) div 8) 1))"

record user_bandwidth_limiters =
  ub_limiters :: "(string, bandwidth_limiter) shards"
  ub_connections :: conn_registry

definition default_limiters :: user_bandwidth_limiters where
  "default_limiters = \<lparr>ub_limiters = empty_shards user_limit_shards, ub_connections = default_registry\<rparr>"

definition limiter_of :: "(string \<Rightarrow> u64) \<Rightarrow> user_bandwidth_limiters \<Rightarrow> string \<Rightarrow> bandwidth_limiter option" where
  "limiter_of hash ub uuid = hm_get (ub_limiters ub ! user_limit_shard_index hash uuid) uuid"

definition put_limiter :: "(string \<Rightarrow> u64) \<Rightarrow> string \<Rightarrow> bandwidth_limiter \<Rightarrow> user_bandwidth_limiters \<Rightarrow> user_bandwidth_limiters" where
  "put_limiter hash uuid l ub =
     ub\<lparr>ub_limiters := at_shard (user_limit_shard_index hash) uuid (hm_insert uuid l) (ub_limiters ub)\<rparr>"

definition configure :: "u64 option \<Rightarrow> bandwidth_limiter \<Rightarrow> bandwidth_limiter" where
  "configure bps l = (case bps of Some b \<Rightarrow> set_bytes_per_second b l | None \<Rightarrow> set_unlimited l)"

definition limiter_for ::
    "(string \<Rightarrow> u64) \<Rightarrow> instant \<Rightarrow> core_user option \<Rightarrow> user_bandwidth_limiters \<Rightarrow> string option \<times> user_bandwidth_limiters" where
  "limiter_for hash now user_opt ub =
     (case user_opt of
        None \<Rightarrow> (None, ub)
      | Some user \<Rightarrow>
          (let bps = speed_limit_mbps_to_bytes_per_second (cu_speed_limit user);
               l = (case limiter_of hash ub (cu_uuid user) of
                      Some l \<Rightarrow> configure bps l
                    | None \<Rightarrow> (case bps of Some b \<Rightarrow> new_limiter now b | None \<Rightarrow> unlimited now))
           in (Some (cu_uuid user), put_limiter hash (cu_uuid user) l ub)))"

definition limiter_for_limited ::
    "(string \<Rightarrow> u64) \<Rightarrow> instant \<Rightarrow> core_user option \<Rightarrow> user_bandwidth_limiters \<Rightarrow> string option \<times> user_bandwidth_limiters" where
  "limiter_for_limited hash now user_opt ub =
     (case user_opt of
        None \<Rightarrow> (None, ub)
      | Some user \<Rightarrow>
          (case speed_limit_mbps_to_bytes_per_second (cu_speed_limit user) of
             None \<Rightarrow>
               (None, case limiter_of hash ub (cu_uuid user) of
                        Some l \<Rightarrow> put_limiter hash (cu_uuid user) (set_unlimited l) ub
                      | None \<Rightarrow> ub)
           | Some bps \<Rightarrow>
               (let l = (case limiter_of hash ub (cu_uuid user) of
                           Some l \<Rightarrow> set_bytes_per_second bps l | None \<Rightarrow> new_limiter now bps)
                in (Some (cu_uuid user), put_limiter hash (cu_uuid user) l ub))))"

definition sync_limiter :: "(string \<Rightarrow> u64) \<Rightarrow> core_user \<Rightarrow> user_bandwidth_limiters \<Rightarrow> user_bandwidth_limiters" where
  "sync_limiter hash user ub =
     (case limiter_of hash ub (cu_uuid user) of
        None \<Rightarrow> ub
      | Some l \<Rightarrow>
          put_limiter hash (cu_uuid user)
            (configure (speed_limit_mbps_to_bytes_per_second (cu_speed_limit user)) l) ub)"

definition bw_sync_users :: "(string \<Rightarrow> u64) \<Rightarrow> core_user list \<Rightarrow> user_bandwidth_limiters \<Rightarrow> user_bandwidth_limiters" where
  "bw_sync_users hash users ub = fold (sync_limiter hash) users ub"

definition sync_full_users :: "(string \<Rightarrow> u64) \<Rightarrow> core_user list \<Rightarrow> user_bandwidth_limiters \<Rightarrow> user_bandwidth_limiters" where
  "sync_full_users hash users ub =
     (let active_uuids = map cu_uuid users;
          ub1 = ub\<lparr>ub_limiters :=
                  map (map (\<lambda>(uuid, l). (uuid, if uuid \<in> set active_uuids then l else revoke l))) (ub_limiters ub)\<rparr>;
          ub2 = ub1\<lparr>ub_connections := close_except hash active_uuids (ub_connections ub1)\<rparr>
      in bw_sync_users hash users ub2)"

definition close_user_connections :: "(string \<Rightarrow> u64) \<Rightarrow> string list \<Rightarrow> user_bandwidth_limiters \<Rightarrow> user_bandwidth_limiters" where
  "close_user_connections hash uuids ub = ub\<lparr>ub_connections := close_users hash uuids (ub_connections ub)\<rparr>"

definition revoke_limiter :: "(string \<Rightarrow> u64) \<Rightarrow> string \<Rightarrow> user_bandwidth_limiters \<Rightarrow> user_bandwidth_limiters" where
  "revoke_limiter hash uuid ub =
     (case limiter_of hash ub uuid of None \<Rightarrow> ub | Some l \<Rightarrow> put_limiter hash uuid (revoke l) ub)"

definition bw_revoke_users :: "(string \<Rightarrow> u64) \<Rightarrow> string list \<Rightarrow> user_bandwidth_limiters \<Rightarrow> user_bandwidth_limiters" where
  "bw_revoke_users hash uuids ub = fold (revoke_limiter hash) uuids (close_user_connections hash uuids ub)"

definition has_limiter_for :: "(string \<Rightarrow> u64) \<Rightarrow> user_bandwidth_limiters \<Rightarrow> string \<Rightarrow> bool" where
  "has_limiter_for hash ub uuid = (limiter_of hash ub uuid \<noteq> None)"

definition close_all_connections :: "user_bandwidth_limiters \<Rightarrow> user_bandwidth_limiters" where
  "close_all_connections ub = ub\<lparr>ub_connections := close_all (ub_connections ub)\<rparr>"

section \<open>A user delta\<close>

definition sync_user_limit_delta ::
    "(string \<Rightarrow> u64) \<Rightarrow> core_user_delta \<Rightarrow> user_bandwidth_limiters \<times> session_tracker \<Rightarrow> user_bandwidth_limiters \<times> session_tracker" where
  "sync_user_limit_delta hash delta = (\<lambda>(bw, sess).
     case d_full delta of
       Some full \<Rightarrow> (sync_full_users hash full bw, sync_users full sess)
     | None \<Rightarrow>
         (let bw1 = bw_revoke_users hash (d_deleted delta) bw;
              sess1 = revoke_users hash (d_deleted delta) sess;
              bw2 = bw_sync_users hash (d_updated delta) (bw_sync_users hash (d_added delta) bw1);
              updated = map cu_uuid (d_updated delta)
          in if updated = [] then (bw2, sess1)
             else (close_user_connections hash updated bw2, revoke_users hash updated sess1)))"

section \<open>The rate is never exceeded\<close>

datatype limiter_op = Reserve instant nat | Set_Rate u64

fun limiter_step :: "limiter_op \<Rightarrow> bandwidth_limiter \<Rightarrow> nat \<times> bandwidth_limiter" where
  "limiter_step (Reserve now bytes) l =
     (case reserve_wait_duration now bytes l of (None, l') \<Rightarrow> (bytes, l') | (Some _, l') \<Rightarrow> (0, l'))"
| "limiter_step (Set_Rate bps) l = (0, set_bytes_per_second bps l)"

fun limiter_run :: "limiter_op list \<Rightarrow> bandwidth_limiter \<Rightarrow> nat \<times> bandwidth_limiter" where
  "limiter_run [] l = (0, l)"
| "limiter_run (x # xs) l =
     (let (granted, l') = limiter_step x l; (rest, l'') = limiter_run xs l' in (granted + rest, l''))"

text \<open>Instants do not decrease, and no rate above \<open>R\<close> is set.\<close>

fun ops_within :: "nat \<Rightarrow> instant \<Rightarrow> limiter_op list \<Rightarrow> bool" where
  "ops_within R t [] \<longleftrightarrow> True"
| "ops_within R t (Reserve now bytes # xs) \<longleftrightarrow> t \<le> now \<and> ops_within R now xs"
| "ops_within R t (Set_Rate bps # xs) \<longleftrightarrow> unat bps \<le> R \<and> ops_within R t xs"

definition limiter_ok :: "nat \<Rightarrow> bandwidth_limiter \<Rightarrow> bool" where
  "limiter_ok R l \<longleftrightarrow> bl_bytes_per_second l \<noteq> 0 \<and> unat (bl_bytes_per_second l) \<le> R \<and> 0 \<le> bl_tokens l"

lemma as_secs_nonneg [simp]: "0 \<le> as_secs d"
  by (simp add: as_secs_def)

lemma rate_pos: "limiter_ok R l \<Longrightarrow> 0 < rate_of l"
  unfolding limiter_ok_def rate_of_def by (simp only: of_nat_0_less_iff unat_gt_0 not_False_eq_True)

lemma reserve_step:
  assumes "limiter_ok R l" "limiter_step (Reserve now bytes) l = (granted, l')"
  shows "limiter_ok R l' \<and> bl_last_refill l' = now \<and> bl_bytes_per_second l' = bl_bytes_per_second l \<and>
    of_nat granted + bl_tokens l' \<le> bl_tokens l + as_secs (now - bl_last_refill l) * of_nat R"
proof -
  have rate: "rate_of l \<le> of_nat R" "bl_bytes_per_second l \<noteq> 0" "0 \<le> bl_tokens l"
    using assms(1) unfolding limiter_ok_def rate_of_def by (simp_all only: of_nat_le_iff not_False_eq_True)
  have le: "refilled now bytes l \<le> bl_tokens l + as_secs (now - bl_last_refill l) * of_nat R"
    using mult_left_mono [OF rate(1) as_secs_nonneg [of "now - bl_last_refill l"]] by (simp add: refilled_def)
  have nonneg: "0 \<le> bl_tokens l + as_secs (now - bl_last_refill l) * of_nat R" using rate(3) by simp
  show ?thesis
    using assms le nonneg by (auto simp: reserve_wait_duration_def Let_def limiter_ok_def split: if_splits)
qed

lemma limiter_run_bound:
  assumes "limiter_ok R l" "1 \<le> R" "ops_within R (bl_last_refill l) xs" "limiter_run xs l = (granted, l')"
  shows "limiter_ok R l' \<and> bl_last_refill l \<le> bl_last_refill l' \<and>
    of_nat granted + bl_tokens l' \<le> bl_tokens l + as_secs (bl_last_refill l' - bl_last_refill l) * of_nat R"
  using assms
proof (induction xs arbitrary: l granted)
  case Nil
  then show ?case by (simp add: as_secs_def)
next
  case (Cons x xs)
  obtain g m where m: "limiter_step x l = (g, m)" by fastforce
  obtain r where r: "limiter_run xs m = (r, l')" and g: "granted = g + r"
    using Cons.prems(4) m by (auto split: prod.splits)
  show ?case
  proof (cases x)
    case (Reserve now bytes)
    then have st: "limiter_ok R m" "bl_last_refill m = now"
      "of_nat g + bl_tokens m \<le> bl_tokens l + as_secs (now - bl_last_refill l) * of_nat R"
      using reserve_step [OF Cons.prems(1)] m by blast+
    have t: "bl_last_refill l \<le> now" "ops_within R now xs" using Cons.prems(3) Reserve by auto
    have ih: "limiter_ok R l' \<and> now \<le> bl_last_refill l' \<and>
        of_nat r + bl_tokens l' \<le> bl_tokens m + as_secs (bl_last_refill l' - now) * of_nat R"
      using Cons.IH [OF st(1) Cons.prems(2) _ r] st(2) t(2) by simp
    have "as_secs (bl_last_refill l' - bl_last_refill l) = as_secs (bl_last_refill l' - now) + as_secs (now - bl_last_refill l)"
      using ih t(1) by (simp add: as_secs_def of_nat_diff add_divide_distrib [symmetric])
    then show ?thesis using ih st t(1) by (simp add: g algebra_simps)
  next
    case (Set_Rate bps)
    have "unat (max bps 1) \<le> R" "max bps 1 \<noteq> 0"
      using Cons.prems(2,3) Set_Rate by (auto simp: max_def)
    then have "limiter_ok R m" "bl_tokens m = bl_tokens l" "bl_last_refill m = bl_last_refill l" "g = 0"
      using m Set_Rate Cons.prems(1) by (auto simp: set_bytes_per_second_def limiter_ok_def)
    then show ?thesis using Cons.IH [OF _ Cons.prems(2) _ r] Cons.prems(3) Set_Rate g by simp
  qed
qed

text \<open>
  C3. A limiter that never runs at more than \<open>R\<close> bytes per second grants, over any sequence of requests
  and rate changes, at most the tokens it held plus \<open>R\<close> times the seconds passed.
\<close>

theorem rate_never_exceeded:
  assumes "limiter_ok R l" "1 \<le> R" "ops_within R (bl_last_refill l) xs" "limiter_run xs l = (granted, l')"
  shows "of_nat granted \<le> bl_tokens l + as_secs (bl_last_refill l' - bl_last_refill l) * of_nat R"
  using limiter_run_bound [OF assms] by (auto simp: limiter_ok_def)

theorem rate_never_exceeded_witness:
  "of_nat (fst (limiter_run [Reserve (10 ^ 9) 300, Set_Rate 500, Reserve (2 * 10 ^ 9) 800] (new_limiter 0 1000)))
     \<le> (0 :: rat) + as_secs (2 * 10 ^ 9 - 0) * of_nat 1000"
proof -
  let ?xs = "[Reserve (10 ^ 9) 300, Set_Rate 500, Reserve (2 * 10 ^ 9) 800]"
  have l: "bl_tokens (new_limiter 0 1000) = 0" "bl_last_refill (new_limiter 0 1000) = 0" "limiter_ok 1000 (new_limiter 0 1000)"
    by (simp_all add: new_limiter_def limiter_ok_def max_def)
  have "bl_last_refill (snd (limiter_run ?xs (new_limiter 0 1000))) = 2 * 10 ^ 9" by code_simp
  then show ?thesis
    using rate_never_exceeded [OF l(3), of ?xs "fst (limiter_run ?xs (new_limiter 0 1000))" "snd (limiter_run ?xs (new_limiter 0 1000))"]
    unfolding l by simp
qed

section \<open>Waiting ends, or does not\<close>

lemma rate_nonzero: "bl_bytes_per_second l \<noteq> 0 \<Longrightarrow> 0 < rate_of l"
  unfolding rate_of_def by (simp only: of_nat_0_less_iff unat_gt_0 not_False_eq_True)

lemma reserve_refused:
  assumes "bl_bytes_per_second l \<noteq> 0" "refilled now bytes l < of_nat bytes"
  shows "reserve_wait_duration now bytes l =
    (Some (from_secs ((of_nat bytes - refilled now bytes l) / rate_of l)), l\<lparr>bl_last_refill := now, bl_tokens := 0\<rparr>)"
  using assms by (simp add: reserve_wait_duration_def Let_def)

text \<open>A refusal empties the bucket, so the next attempt finds only what the sleep brought in.\<close>

lemma refilled_after_refusal:
  "refilled (now + d) bytes (l\<lparr>bl_last_refill := now, bl_tokens := 0\<rparr>) = min (as_secs d * rate_of l) (max (rate_of l) (of_nat bytes))"
  by (simp add: refilled_def rate_of_def)

lemma exact_sleep:
  assumes "of_nat d * r = x * 10 ^ 9" "0 < r"
  shows "from_secs (x / r) = d" "as_secs d * r = x"
proof -
  have "x / r * 10 ^ 9 = of_nat d" using assms by (simp add: field_simps)
  then show "from_secs (x / r) = d" by (simp add: from_secs_def round_of_nat)
  show "as_secs d * r = x" using assms(1) by (simp add: as_secs_def field_simps)
qed

lemma punctual_wait_loop:
  assumes "bl_bytes_per_second l \<noteq> 0" "\<not> is_revoked l" "refilled now bytes l = m" "0 < m" "m < of_nat bytes"
    and "of_nat da * rate_of l = (of_nat bytes - m) * 10 ^ 9" "of_nat db * rate_of l = m * 10 ^ 9"
  shows "wait_loop n (\<lambda>_. 0) (\<lambda>_ l. l) now bytes l = None"
  using assms
proof (induction n arbitrary: now l m da db)
  case (Suc n)
  note r = rate_nonzero [OF Suc.prems(1)]
  let ?l = "l\<lparr>bl_last_refill := now, bl_tokens := 0\<rparr>"
  have m: "refilled (now + da) bytes ?l = of_nat bytes - m"
    using exact_sleep(2) [OF Suc.prems(6) r] Suc.prems(4) unfolding refilled_after_refusal by simp
  have rate: "rate_of ?l = rate_of l" by (simp add: rate_of_def)
  have "wait_loop n (\<lambda>_. 0) (\<lambda>_ l. l) (now + da) bytes ?l = None"
    using Suc.prems by (intro Suc.IH [OF _ _ m, of db da]) (simp_all add: rate is_revoked_def)
  moreover have "reserve_wait_duration now bytes l = (Some da, ?l)"
    using reserve_refused [OF Suc.prems(1), of now bytes] Suc.prems(3,5) exact_sleep(1) [OF Suc.prems(6) r] by simp
  ultimately show ?case using Suc.prems(2) by simp
qed simp



text \<open>
  A request on a limiter that is not revoked and not changed meanwhile is granted after at most one
  sleep, if the sleeper wakes late enough to make up for the tokens thrown away and for the rounding of
  the duration.
\<close>

theorem late_waiter_is_served:
  assumes "bl_bytes_per_second l \<noteq> 0" "\<not> is_revoked l" "0 < bytes"
    and "max 0 (refilled now bytes l) * 10 ^ 9 + rate_of l / 2 \<le> of_nat (late now) * rate_of l"
  shows "\<exists>t l'. wait_for (Suc (Suc n)) late (\<lambda>_ l. l) now bytes l = Some (True, t, l')"
proof (cases "of_nat bytes \<le> refilled now bytes l")
  case True
  then show ?thesis using assms(1-3) by (simp add: wait_for_def reserve_wait_duration_def Let_def is_revoked_def)
next
  case False
  note r = rate_nonzero [OF assms(1)]
  let ?x = "(of_nat bytes - refilled now bytes l) / rate_of l" and ?l = "l\<lparr>bl_last_refill := now, bl_tokens := 0\<rparr>"
  let ?d = "from_secs ?x + late now"
  have "?x * 10 ^ 9 - 1 / 2 \<le> of_int (round (?x * 10 ^ 9))" using of_int_round_ge [of "?x * 10 ^ 9"] by simp
  moreover have "of_int z \<le> (of_nat (nat z) :: rat)" for z by (cases "0 \<le> z") simp_all
  ultimately have "?x * 10 ^ 9 - 1 / 2 \<le> of_nat (from_secs ?x)" unfolding from_secs_def using order_trans by blast
  then have "(?x * 10 ^ 9 - 1 / 2) * rate_of l \<le> of_nat (from_secs ?x) * rate_of l" using r by (intro mult_right_mono) simp_all
  moreover have "(?x * 10 ^ 9 - 1 / 2) * rate_of l = (of_nat bytes - refilled now bytes l) * 10 ^ 9 - rate_of l / 2"
    using r by (simp add: field_simps)
  ultimately have "of_nat bytes * 10 ^ 9 \<le> of_nat ?d * rate_of l" using assms(4) by (simp add: algebra_simps)
  then have "of_nat bytes \<le> as_secs ?d * rate_of l" by (simp add: as_secs_def field_simps)
  then have "of_nat bytes \<le> refilled (now + ?d) bytes ?l" unfolding refilled_after_refusal by simp
  then have "reserve_wait_duration (now + ?d) bytes ?l \<in> {None} \<times> {m. \<not> is_revoked m}"
    using assms(1,2) by (simp add: reserve_wait_duration_def Let_def is_revoked_def)
  moreover have "reserve_wait_duration now bytes l = (Some (from_secs ?x), ?l)"
    using reserve_refused [OF assms(1)] False by simp
  ultimately show ?thesis using assms(2,3) by (auto simp: wait_for_def is_revoked_def add.assoc)
qed

theorem late_waiter_is_served_witness:
  "\<exists>t l'. wait_for (Suc (Suc 0)) (\<lambda>_. 6 * 10 ^ 8) (\<lambda>_ l. l) (5 * 10 ^ 8) 1000 (new_limiter 0 1000) = Some (True, t, l')"
proof (rule late_waiter_is_served)
  have "refilled (5 * 10 ^ 8) 1000 (new_limiter 0 1000) = 500" "rate_of (new_limiter 0 1000) = 1000" by code_simp+
  then show "max 0 (refilled (5 * 10 ^ 8) 1000 (new_limiter 0 1000)) * 10 ^ 9 + rate_of (new_limiter 0 1000) / 2
      \<le> of_nat (6 * 10 ^ 8) * rate_of (new_limiter 0 1000)" by simp
  show "bl_bytes_per_second (new_limiter 0 1000) \<noteq> 0" "\<not> is_revoked (new_limiter 0 1000)" by code_simp+
qed simp

section \<open>Users that are cut off\<close>

abbreviation limiters_wf :: "(string \<Rightarrow> u64) \<Rightarrow> user_bandwidth_limiters \<Rightarrow> bool" where
  "limiters_wf hash ub \<equiv> shards_inv (user_limit_shard_index hash) user_limit_shards (ub_limiters ub)"

lemma limiter_of_view: "limiters_wf hash ub \<Longrightarrow> limiter_of hash ub uuid = shard_view (ub_limiters ub) uuid"
  by (simp add: limiter_of_def session_map.lookup)

lemma put_limiter_wf: "limiters_wf hash ub \<Longrightarrow> limiters_wf hash (put_limiter hash uuid l ub)"
  unfolding put_limiter_def using session_map.inv_at [OF _ key_local_insert] by simp

lemma limiter_of_put:
  "limiters_wf hash ub \<Longrightarrow> limiter_of hash (put_limiter hash u l ub) uuid = (if uuid = u then Some l else limiter_of hash ub uuid)"
  using put_limiter_wf [of hash ub u l] session_map.view_at [OF _ key_local_insert, of hash "ub_limiters ub" u "\<lambda>_. l"]
  by (simp add: limiter_of_view) (simp add: put_limiter_def)

definition cut_off :: "(string \<Rightarrow> u64) \<Rightarrow> user_bandwidth_limiters \<Rightarrow> string \<Rightarrow> bool" where
  "cut_off hash ub uuid \<longleftrightarrow> (case limiter_of hash ub uuid of None \<Rightarrow> True | Some l \<Rightarrow> is_revoked l)"

lemma revoke_limiter_step:
  assumes "limiters_wf hash ub"
  shows "limiters_wf hash (revoke_limiter hash u ub)" "cut_off hash (revoke_limiter hash u ub) u"
    and "cut_off hash ub uuid \<Longrightarrow> cut_off hash (revoke_limiter hash u ub) uuid"
  using assms
  by (auto simp: revoke_limiter_def put_limiter_wf cut_off_def limiter_of_put revoke_def is_revoked_def split: option.split)

lemma revoke_limiters:
  "limiters_wf hash ub \<Longrightarrow>
   limiters_wf hash (fold (revoke_limiter hash) us ub) \<and>
   (uuid \<in> set us \<or> cut_off hash ub uuid \<longrightarrow> cut_off hash (fold (revoke_limiter hash) us ub) uuid)"
proof (induction us arbitrary: ub)
  case (Cons u us)
  from Cons.IH [OF revoke_limiter_step(1) [OF Cons.prems]] revoke_limiter_step(2,3) [OF Cons.prems]
  show ?case by auto
qed simp

lemma revoke_limiters_conns: "ub_connections (fold (revoke_limiter hash) us ub) = ub_connections ub"
  by (induction us arbitrary: ub) (simp_all add: revoke_limiter_def put_limiter_def split: option.split)

lemma sync_limiter_step:
  assumes "limiters_wf hash ub"
  shows "limiters_wf hash (sync_limiter hash user ub) \<and> ub_connections (sync_limiter hash user ub) = ub_connections ub \<and>
    (uuid \<noteq> cu_uuid user \<longrightarrow> limiter_of hash (sync_limiter hash user ub) uuid = limiter_of hash ub uuid)"
  using assms put_limiter_wf limiter_of_put by (simp add: sync_limiter_def put_limiter_def split: option.split)

lemma sync_limiters:
  "limiters_wf hash ub \<Longrightarrow>
   limiters_wf hash (bw_sync_users hash users ub) \<and> ub_connections (bw_sync_users hash users ub) = ub_connections ub \<and>
   (uuid \<notin> cu_uuid ` set users \<longrightarrow> cut_off hash (bw_sync_users hash users ub) uuid = cut_off hash ub uuid)"
proof (induction users arbitrary: ub)
  case (Cons user users)
  have "limiters_wf hash (sync_limiter hash user ub)" using sync_limiter_step [OF Cons.prems] by blast
  from Cons.IH [OF this] sync_limiter_step [OF Cons.prems, of user uuid] show ?case
    by (auto simp: bw_sync_users_def cut_off_def)
qed (simp add: bw_sync_users_def)

lemma cut_off_conns [simp]: "cut_off hash (ub\<lparr>ub_connections := c\<rparr>) = cut_off hash ub"
  by (simp add: fun_eq_iff cut_off_def limiter_of_def)

lemma map_shards_wf:
  assumes "shards_inv idx n ss"
  shows "shards_inv idx n (map (map (\<lambda>(k, v). (k, f k v))) ss)"
proof -
  let ?h = "\<lambda>(k, v). (k, f k v)"
  have keys: "map fst (map ?h m) = map fst m" for m by (induction m) auto
  have "fst ` set (map ?h m) = fst ` set m" for m using arg_cong [OF keys [of m], of set] by (simp only: set_map)
  then have "hm_wf (map ?h (ss ! i)) \<and> (\<forall>k \<in> fst ` set (map ?h (ss ! i)). idx k = i)" if "i < n" for i
    using assms that unfolding shards_inv_def hm_wf_def keys by metis
  moreover have len: "length ss = n" by (rule shards_inv_nth(3) [OF assms])
  then have "map (map ?h) ss ! i = map ?h (ss ! i)" if "i < n" for i using that by simp
  ultimately have "\<forall>i < n. hm_wf (map (map ?h) ss ! i) \<and> (\<forall>k \<in> fst ` set (map (map ?h) ss ! i). idx k = i)" by presburger
  then show ?thesis unfolding shards_inv_def length_map using len by blast
qed

lemma hm_get_map: "hm_get (map (\<lambda>(k, v). (k, f k v)) m) k = map_option (f k) (hm_get m k)"
  by (induction m) auto

lemma revoke_absent:
  assumes "limiters_wf hash ub" "uuid \<notin> set us"
    and "ub' = ub\<lparr>ub_limiters := map (map (\<lambda>(uuid, l). (uuid, if uuid \<in> set us then l else revoke l))) (ub_limiters ub)\<rparr>"
  shows "limiters_wf hash ub' \<and> cut_off hash ub' uuid"
proof
  show "limiters_wf hash ub'" using map_shards_wf [OF assms(1)] by (simp add: assms(3))
  have "user_limit_shard_index hash uuid < length (ub_limiters ub)"
    using session_map.idx_less shards_inv_nth(3) [OF assms(1)] by simp
  then show "cut_off hash ub' uuid"
    using assms(2) hm_get_map [of "\<lambda>uuid l. if uuid \<in> set us then l else revoke l"]
    by (simp add: assms(3) cut_off_def limiter_of_def revoke_def is_revoked_def split: option.split)
qed

text \<open>The users a delta leaves without access.\<close>

definition cut_by :: "core_user_delta \<Rightarrow> string \<Rightarrow> bool" where
  "cut_by delta uuid \<longleftrightarrow>
     (case d_full delta of
        Some full \<Rightarrow> uuid \<notin> cu_uuid ` set full
      | None \<Rightarrow> uuid \<in> set (d_deleted delta) \<and> uuid \<notin> cu_uuid ` set (d_added delta @ d_updated delta))"

lemma limiters_cut:
  assumes "limiters_wf hash bw" "cut_by delta uuid"
  shows "cut_off hash (fst (sync_user_limit_delta hash delta (bw, sess))) uuid"
proof (cases "d_full delta")
  case (Some full)
  then have "uuid \<notin> set (map cu_uuid full)" using assms(2) by (simp add: cut_by_def)
  from revoke_absent [OF assms(1) this refl] sync_limiters [of hash _ full uuid] Some this show ?thesis
    by (simp add: sync_user_limit_delta_def sync_full_users_def Let_def)
next
  case None
  let ?b1 = "bw_revoke_users hash (d_deleted delta) bw"
  have "limiters_wf hash (close_user_connections hash (d_deleted delta) bw)" using assms(1) by (simp add: close_user_connections_def)
  from revoke_limiters [OF this] None assms(2) have "limiters_wf hash ?b1" "cut_off hash ?b1 uuid"
    by (auto simp: bw_revoke_users_def cut_by_def)
  moreover have "uuid \<notin> cu_uuid ` set (d_added delta)" "uuid \<notin> cu_uuid ` set (d_updated delta)"
    using None assms(2) by (auto simp: cut_by_def)
  ultimately have "cut_off hash (bw_sync_users hash (d_updated delta) (bw_sync_users hash (d_added delta) ?b1)) uuid"
    by (meson sync_limiters)
  then show ?thesis using None by (auto simp: sync_user_limit_delta_def Let_def close_user_connections_def)
qed

lemma connections_cut:
  assumes "conn_reach hash (ub_connections bw, gs)" "limiters_wf hash bw" "g \<in> set gs" "cut_by delta (cg_user_uuid g)"
  shows "set (sockets_of (ub_connections bw) (cg_handle g))
    \<subseteq> set (cr_closed (ub_connections (fst (sync_user_limit_delta hash delta (bw, sess)))))"
proof (cases "d_full delta")
  case (Some full)
  let ?b1 = "bw\<lparr>ub_limiters := map (map (\<lambda>(uuid, l). (uuid, if uuid \<in> set (map cu_uuid full) then l else revoke l))) (ub_limiters bw)\<rparr>"
  let ?b2 = "?b1\<lparr>ub_connections := close_except hash (map cu_uuid full) (ub_connections bw)\<rparr>"
  have "limiters_wf hash ?b2" using map_shards_wf [OF assms(2)] by simp
  then have "ub_connections (bw_sync_users hash full ?b2) = close_except hash (map cu_uuid full) (ub_connections bw)"
    using sync_limiters [of hash ?b2 full] by simp
  then have "ub_connections (fst (sync_user_limit_delta hash delta (bw, sess))) = close_except hash (map cu_uuid full) (ub_connections bw)"
    using Some by (simp add: sync_user_limit_delta_def sync_full_users_def Let_def)
  then show ?thesis
    using close_conns(2) [OF assms(1,3)] assms(4) Some by (simp add: cut_by_def)
next
  case None
  let ?b0 = "close_user_connections hash (d_deleted delta) bw" and ?b1 = "bw_revoke_users hash (d_deleted delta) bw"
  let ?b2 = "bw_sync_users hash (d_updated delta) (bw_sync_users hash (d_added delta) ?b1)"
  have wf: "limiters_wf hash ?b0" using assms(2) by (simp add: close_user_connections_def)
  then have "limiters_wf hash ?b1" using revoke_limiters by (simp add: bw_revoke_users_def)
  then have b2: "ub_connections ?b2 = ub_connections ?b1" using sync_limiters by metis
  have b1: "ub_connections ?b1 = close_users hash (d_deleted delta) (ub_connections bw)"
    by (simp add: bw_revoke_users_def revoke_limiters_conns close_user_connections_def)
  have sub: "set (sockets_of (ub_connections bw) (cg_handle g)) \<subseteq> set (cr_closed (ub_connections ?b2))"
    using close_conns(1) [OF assms(1,3)] assms(4) None unfolding b2 b1 by (simp add: cut_by_def)
  have eq: "ub_connections (fst (sync_user_limit_delta hash delta (bw, sess))) =
      (if d_updated delta = [] then ub_connections ?b2 else close_users hash (map cu_uuid (d_updated delta)) (ub_connections ?b2))"
    using None by (simp add: sync_user_limit_delta_def Let_def close_user_connections_def)
  show ?thesis unfolding eq using sub order_trans [OF sub closed_grows] by presburger
qed

lemma sessions_cut:
  assumes "sessions_wf hash sess" "cut_by delta uuid"
  shows "active_count hash (snd (sync_user_limit_delta hash delta (bw, sess))) uuid = 0"
proof (cases "d_full delta")
  case (Some full)
  then have "hm_get (hm_retain (\<lambda>uuid _. uuid \<in> set (map cu_uuid full)) m) uuid = None" for m :: "(string, session_state) hmap"
    using assms(2) by (intro hm_get_retain_None) (simp add: cut_by_def)
  moreover have "user_limit_shard_index hash uuid < length (tr_active sess)"
    using session_map.idx_less shards_inv_nth(3) [OF assms(1)] by simp
  ultimately show ?thesis
    using Some by (simp add: sync_user_limit_delta_def active_count_def sync_users_def Let_def)
next
  case None
  have zero: "sessions_wf hash (revoke_users hash us tr) \<and>
      shard_view (tr_active (revoke_users hash us tr)) uuid = (if uuid \<in> set us then None else shard_view (tr_active tr) uuid)"
    if "sessions_wf hash tr" for us tr
    using revoke_fold [OF that, of us uuid] by (simp add: revoke_users_def Let_def)
  let ?s1 = "revoke_users hash (d_deleted delta) sess"
  have s1: "sessions_wf hash ?s1" "shard_view (tr_active ?s1) uuid = None"
    using zero [OF assms(1), of "d_deleted delta"] None assms(2) by (auto simp: cut_by_def)
  have "sessions_wf hash (snd (sync_user_limit_delta hash delta (bw, sess))) \<and>
      shard_view (tr_active (snd (sync_user_limit_delta hash delta (bw, sess)))) uuid = None"
    using None s1 zero [OF s1(1)] by (simp add: sync_user_limit_delta_def Let_def)
  then show ?thesis by (simp add: active_count_eq session_of_def default_session_def device_count_def)
qed

text \<open>
  C4. After a user delta every user it deletes, and with a full list every user not on it, is cut off:
  their limiter, if any, is revoked, every connection they held is shut down, and they have no session.
\<close>

theorem delta_cuts_users_off:
  assumes "cut_by delta uuid" "limiters_wf hash bw" "conn_reach hash (ub_connections bw, gs)" "sessions_wf hash sess"
    and "sync_user_limit_delta hash delta (bw, sess) = (bw', sess')"
  shows "cut_off hash bw' uuid \<and> active_count hash sess' uuid = 0 \<and>
    (\<forall>g \<in> set gs. cg_user_uuid g = uuid \<longrightarrow>
       set (sockets_of (ub_connections bw) (cg_handle g)) \<subseteq> set (cr_closed (ub_connections bw')))"
  using limiters_cut [OF assms(2,1), of sess] connections_cut [OF assms(3,2), of _ delta sess]
    sessions_cut [OF assms(4,1), of bw] assms(1,5) by auto

definition one_user_online :: user_bandwidth_limiters where
  "one_user_online = snd (limiter_for (\<lambda>_. 0) 0 (Some (limited_user ''u'')) (default_limiters\<lparr>ub_connections := snd one_connection\<rparr>))"

definition delete_u :: core_user_delta where
  "delete_u = \<lparr>d_added = [], d_updated = [], d_deleted = [''u''], d_full = None, d_base_revision = None, d_revision = None\<rparr>"

theorem delta_cuts_users_off_witness:
  "has_limiter_for (\<lambda>_. 0) one_user_online ''u'' \<and>
   cut_off (\<lambda>_. 0) (fst (sync_user_limit_delta (\<lambda>_. 0) delete_u (one_user_online, default_tracker))) ''u'' \<and>
   7 \<in> set (cr_closed (ub_connections (fst (sync_user_limit_delta (\<lambda>_. 0) delete_u (one_user_online, default_tracker)))))"
proof -
  have conns: "ub_connections one_user_online = snd one_connection"
    by (simp add: one_user_online_def limiter_for_def Let_def put_limiter_def)
  have "limiters_wf (\<lambda>_. 0) (default_limiters\<lparr>ub_connections := snd one_connection\<rparr>)"
    by (simp add: default_limiters_def shards_inv_empty)
  then have wf: "limiters_wf (\<lambda>_. 0) one_user_online"
    unfolding one_user_online_def limiter_for_def by (simp add: Let_def put_limiter_wf)
  have cut: "cut_by delete_u ''u''" by code_simp
  have "sockets_of (snd one_connection) 0 = [7]" "has_limiter_for (\<lambda>_. 0) one_user_online ''u''" by code_simp+
  then show ?thesis
    using delta_cuts_users_off [OF cut wf, unfolded conns, OF one_connection_reach default_tracker_wf prod.collapse [symmetric]]
    by simp
qed

end
