(* ===== verification/Config_Data.thy ===== *)
theory Config_Data
  imports Users NetAddr
begin

text \<open>
  The normalized configuration of \<^verbatim>\<open>src/config.rs\<close> as records, its defaults, and the small decoders of
  other files that validation calls (REALITY keys and short ids, the Shadowsocks cipher names, the QUIC
  congestion names). Third-party code is the record \<open>externals\<close>: the regular expression compiler, the
  two HTTP header parsers and the two base64 decoders.
\<close>

section \<open>Data\<close>

datatype protocol =
  Shadowsocks | Vmess | Vless | Trojan | Hysteria2 | Tuic | AnyTls | Socks | Http | Naive | Mieru

record dns_server_config =
  sv_address :: string
  sv_domains :: "string list"

record dns_config =
  dc_servers :: "dns_server_config list"
  dc_query_strategy :: string
  dc_block_private_ips :: bool
  dc_private_ip_allowlist :: "string list"

record outbound_tls_config =
  ot_server_name :: string
  ot_allow_insecure :: bool
  ot_alpn :: "string list"

record outbound_transport_config =
  ox_network :: string
  ox_path :: "string option"
  ox_host :: "string option"
  ox_service_name :: "string option"
  ox_method :: "string option"
  ox_headers :: "(string \<times> string) list"
  ox_quic_security :: "string option"
  ox_quic_key :: "string option"
  ox_quic_header_type :: "string option"

record outbound_config =
  ob_tag :: string
  ob_protocol :: string
  ob_method :: "string option"
  ob_alter_id :: "u16 option"
  ob_address :: "string option"
  ob_port :: "u16 option"
  ob_username :: "string option"
  ob_password :: "string option"
  ob_tls :: "outbound_tls_config option"
  ob_transport :: "outbound_transport_config option"

datatype route_action = Direct | Block | Outbound string

record route_rule =
  rr_targets :: "string list"
  rr_action :: route_action
  rr_outbound :: "outbound_config option"

record transport_config =
  tp_network :: string
  tp_path :: "string option"
  tp_host :: "string option"
  tp_service_name :: "string option"
  tp_proxy_protocol :: bool
  tp_up_mbps :: u32
  tp_down_mbps :: u32
  tp_ignore_client_bandwidth :: bool
  tp_obfs :: "string option"
  tp_obfs_password :: "string option"
  tp_congestion_control :: string
  tp_zero_rtt_handshake :: bool

record reality_config =
  re_dest :: string
  re_server_port :: "u16 option"
  re_private_key :: string
  re_short_id :: string
  re_xver :: u32
  re_mldsa65_seed :: "string option"

record tls_config =
  tl_server_name :: string
  tl_cert_file :: "string option"
  tl_key_file :: "string option"
  tl_alpn :: "string list"
  tl_reject_unknown_sni :: bool
  tl_reality :: "reality_config option"

record sniffing_config =
  sf_enabled :: bool
  sf_dest_override :: "string list"

record policy_config =
  po_handshake_secs :: u64
  po_connection_idle_secs :: u64
  po_uplink_only_secs :: u64
  po_downlink_only_secs :: u64
  po_buffer_size_kib :: nat
  po_sniffing_cache_millis :: u64
  po_connect_timeout_secs :: u64

record stats_config =
  st_enabled :: bool
  st_per_user :: bool

record inbound_config =
  ib_tag :: string
  ib_protocol :: protocol
  ib_listen :: string
  ib_port :: u16
  ib_users :: "core_user list"
  ib_cipher :: "string option"
  ib_flow :: string
  ib_padding_scheme :: "string list"
  ib_transport :: transport_config
  ib_tls :: "tls_config option"
  ib_sniffing :: sniffing_config
  ib_routes :: "route_rule list"

record core_config =
  cc_instance_id :: string
  cc_log_level :: string
  cc_dns :: dns_config
  cc_policy :: policy_config
  cc_inbounds :: "inbound_config list"
  cc_outbounds :: "outbound_config list"
  cc_routes :: "route_rule list"
  cc_stats :: stats_config

section \<open>Defaults\<close>

definition default_transport :: transport_config where
  "default_transport =
     \<lparr>tp_network = ''tcp'', tp_path = None, tp_host = None, tp_service_name = None, tp_proxy_protocol = False,
      tp_up_mbps = 0, tp_down_mbps = 0, tp_ignore_client_bandwidth = False, tp_obfs = None,
      tp_obfs_password = None, tp_congestion_control = [], tp_zero_rtt_handshake = False\<rparr>"

definition default_sniffing :: sniffing_config where
  "default_sniffing = \<lparr>sf_enabled = True, sf_dest_override = [''http'', ''tls'']\<rparr>"

definition default_policy_config :: policy_config where
  "default_policy_config =
     \<lparr>po_handshake_secs = 60, po_connection_idle_secs = 300, po_uplink_only_secs = 1,
      po_downlink_only_secs = 1, po_buffer_size_kib = 128, po_sniffing_cache_millis = 200,
      po_connect_timeout_secs = 15\<rparr>"

definition default_stats :: stats_config where
  "default_stats = \<lparr>st_enabled = True, st_per_user = True\<rparr>"

section \<open>Outcomes\<close>

text \<open>
  A validation ends with \<^verbatim>\<open>Ok(())\<close>, with a message, or with a panic of the code it calls. A sequence of
  early returns is a list of checks whose first failure is the result.
\<close>

datatype verr = Err string | Panic

type_synonym 'a vresult = "verr + 'a"

definition checks :: "unit vresult list \<Rightarrow> unit vresult" where
  "checks cs = for_each (\<lambda>c. c) cs"

definition fail_if :: "bool \<Rightarrow> string list \<Rightarrow> unit vresult" where
  "fail_if bad msg = ensure (\<not> bad) (Err (concat msg))"

definition given :: "bool \<Rightarrow> unit vresult \<Rightarrow> unit vresult" where
  "given b c = (if b then c else Inr ())"

definition opt_str :: "string option \<Rightarrow> string" where
  "opt_str v = (case v of None \<Rightarrow> [] | Some s \<Rightarrow> s)"

text \<open>\<^verbatim>\<open>v.as_deref().map(str::trim).filter(|v| !v.is_empty()).unwrap_or(d)\<close>\<close>

definition opt_trim_or :: "string \<Rightarrow> string option \<Rightarrow> string" where
  "opt_trim_or d v = (if trim (opt_str v) = [] then d else trim (opt_str v))"

lemma checks_ok [result_simps]: "checks cs = Inr u \<longleftrightarrow> (\<forall>c \<in> set cs. c = Inr ())"
  by (simp add: checks_def for_each_Inr_iff)

lemma fail_if_ok [result_simps]: "fail_if bad msg = Inr u \<longleftrightarrow> \<not> bad"
  by (simp add: fail_if_def ensure_def)

lemma given_ok [result_simps]: "given b c = Inr u \<longleftrightarrow> (b \<longrightarrow> c = Inr ())"
  by (simp add: given_def)

record externals =
  regex_ok :: "string \<Rightarrow> bool"
  header_name_ok :: "string \<Rightarrow> bool"
  header_value_ok :: "string \<Rightarrow> bool"
  base64_url_safe_no_pad :: "string \<Rightarrow> u8 list option"
  base64_standard :: "string \<Rightarrow> u8 list option"

section \<open>Decoders of other files\<close>

definition replace_chars :: "char list \<Rightarrow> char \<Rightarrow> string \<Rightarrow> string" where
  "replace_chars olds new s = map (\<lambda>c. if c \<in> set olds then new else c) s"

definition normalize_quic_congestion_control :: "string \<Rightarrow> string" where
  "normalize_quic_congestion_control value = replace_chars ''- '' CHR ''_'' (to_ascii_lowercase (trim value))"

definition is_supported_quic_congestion_control :: "string \<Rightarrow> bool" where
  "is_supported_quic_congestion_control value \<longleftrightarrow>
     normalize_quic_congestion_control value
       \<in> set [[], ''cubic'', ''bbr'', ''new_reno'', ''newreno'', ''reno'']"

definition select_quic_congestion_control :: "string \<Rightarrow> string \<Rightarrow> string" where
  "select_quic_congestion_control value default_value =
     (let normalized = normalize_quic_congestion_control value
      in if normalized = [] then normalize_quic_congestion_control default_value else normalized)"

text \<open>
  \<^verbatim>\<open>&value[i..j]\<close> panics unless both ends are character boundaries: the start of the string, its end, or
  a byte that does not continue a UTF-8 sequence.
\<close>

definition is_char_boundary :: "string \<Rightarrow> nat \<Rightarrow> bool" where
  "is_char_boundary s i \<longleftrightarrow>
     i = 0 \<or> i = length s \<or> (i < length s \<and> \<not> (128 \<le> (of_char (s ! i) :: nat) \<and> (of_char (s ! i) :: nat) < 192))"

definition str_slice :: "string \<Rightarrow> nat \<Rightarrow> nat \<Rightarrow> string vresult" where
  "str_slice s i j =
     (if i \<le> j \<and> is_char_boundary s i \<and> is_char_boundary s j then Inr (take (j - i) (drop i s)) else Inl Panic)"

fun decode_hex_from :: "string \<Rightarrow> nat list \<Rightarrow> nat list vresult" where
  "decode_hex_from value [] = Inr []"
| "decode_hex_from value (i # is) =
     and_then (str_slice value i (i + 2)) (\<lambda>pair.
       case parse_radix 16 255 pair of
         None \<Rightarrow> Inl (Err ''hex string contains invalid characters'')
       | Some b \<Rightarrow> and_then (decode_hex_from value is) (\<lambda>bs. Inr (b # bs)))"

definition decode_hex :: "string \<Rightarrow> nat list vresult" where
  "decode_hex value0 =
     (let value = trim value0 in
      if length value mod 2 \<noteq> 0 then Inl (Err ''hex string must have an even length'')
      else decode_hex_from value (map (\<lambda>k. 2 * k) [0..<length value div 2]))"

definition invalid_client_hello :: "'a vresult \<Rightarrow> 'a vresult" where
  "invalid_client_hello r =
     (case r of Inl (Err m) \<Rightarrow> Inl (Err (''invalid reality client hello: '' @ m)) | _ \<Rightarrow> r)"

definition invalid_private_key :: verr where
  "invalid_private_key = Err ''reality private key is invalid''"

definition decode_reality_private_key :: "externals \<Rightarrow> string \<Rightarrow> nat list vresult" where
  "decode_reality_private_key ext value0 =
     (let value = trim value0;
          sized = (\<lambda>bytes. if length bytes = 32 then Inr bytes else Inl invalid_private_key)
      in if length value = 64 \<and> list_all (\<lambda>c. to_digit 16 c \<noteq> None) value
         then and_then (invalid_client_hello (decode_hex value)) sized
         else case (case base64_url_safe_no_pad ext value of
                      Some bytes \<Rightarrow> Some bytes | None \<Rightarrow> base64_standard ext value) of
                None \<Rightarrow> Inl invalid_private_key
              | Some bytes \<Rightarrow> sized (map unat bytes))"

definition decode_short_id :: "string \<Rightarrow> nat list vresult" where
  "decode_short_id value0 =
     (let value = trim value0 in
      if 16 < length value \<or> length value mod 2 \<noteq> 0
      then invalid_client_hello (Inl (Err ''short_id must be 0 to 8 bytes of hex''))
      else and_then (invalid_client_hello (decode_hex value)) (\<lambda>bytes. Inr (bytes @ replicate (8 - length bytes) 0)))"

datatype shadowsocks_method = Aes128Gcm | Aes256Gcm | ChaCha20IetfPoly1305

definition normalize_method :: "string \<Rightarrow> string" where
  "normalize_method method = replace_chars ''_'' CHR ''-'' (to_ascii_lowercase (trim method))"

definition shadowsocks_method_parse :: "string \<Rightarrow> string + shadowsocks_method" where
  "shadowsocks_method_parse method =
     (let value = normalize_method method in
      if value = ''aes-128-gcm'' then Inr Aes128Gcm
      else if value = ''aes-256-gcm'' then Inr Aes256Gcm
      else if value = ''chacha20-ietf-poly1305'' then Inr ChaCha20IetfPoly1305
      else Inl (''shadowsocks cipher '' @ value @ '' is not supported''))"

definition key_len :: "shadowsocks_method \<Rightarrow> nat" where
  "key_len method = (case method of Aes128Gcm \<Rightarrow> 16 | _ \<Rightarrow> 32)"

definition salt_len :: "shadowsocks_method \<Rightarrow> nat" where
  "salt_len method = key_len method"

definition is_supported_shadowsocks_cipher :: "string \<Rightarrow> bool" where
  "is_supported_shadowsocks_cipher method \<longleftrightarrow>
     (case shadowsocks_method_parse method of Inl _ \<Rightarrow> False | Inr _ \<Rightarrow> True)"

fun chunks_exact2 :: "string \<Rightarrow> string list" where
  "chunks_exact2 (a # b # cs) = [a, b] # chunks_exact2 cs"
| "chunks_exact2 _ = []"

fun parse_hex_chunks :: "string list \<Rightarrow> nat list option" where
  "parse_hex_chunks [] = Some []"
| "parse_hex_chunks (c # cs) =
     (case parse_radix 16 255 c of
        None \<Rightarrow> None
      | Some b \<Rightarrow> map_option (Cons b) (parse_hex_chunks cs))"

text \<open>
  A uuid without its dashes. Characters outside ASCII never lowercase to a hexadecimal digit or a sign,
  so lowering the ASCII letters of the bytes decides the same strings.
\<close>

definition parse_vless_outbound_uuid :: "string \<Rightarrow> nat list option" where
  "parse_vless_outbound_uuid value0 =
     (let value = to_ascii_lowercase (filter (\<lambda>c. c \<noteq> CHR ''-'') value0) in
      if length value \<noteq> 32 then None else parse_hex_chunks (chunks_exact2 value))"

definition protocol_label :: "protocol \<Rightarrow> string" where
  "protocol_label p = (case p of
       Shadowsocks \<Rightarrow> ''shadowsocks'' | Vmess \<Rightarrow> ''vmess'' | Vless \<Rightarrow> ''vless'' | Trojan \<Rightarrow> ''trojan''
     | Hysteria2 \<Rightarrow> ''hysteria2'' | Tuic \<Rightarrow> ''tuic'' | AnyTls \<Rightarrow> ''anytls'' | Socks \<Rightarrow> ''socks''
     | Http \<Rightarrow> ''http'' | Naive \<Rightarrow> ''naive'' | Mieru \<Rightarrow> ''mieru'')"

end
