(* ===== verification/Config.thy ===== *)
theory Config
  imports Config_Data
begin

text \<open>
  Validation of a configuration, \<^verbatim>\<open>CoreConfig::validate\<close> of \<^verbatim>\<open>src/config.rs\<close>, with its messages in the
  order the source tests its conditions, and the resolution of routes to outbounds.
\<close>

section \<open>Outbounds\<close>

definition outbound_transport_network :: "outbound_config \<Rightarrow> string" where
  "outbound_transport_network ob =
     opt_trim_or ''tcp'' (map_option ox_network (ob_transport ob))"

definition validate_header :: "externals \<Rightarrow> string \<Rightarrow> string \<times> string \<Rightarrow> unit vresult" where
  "validate_header ext tag = (\<lambda>(name, value). checks
     [fail_if (trim name = []) [''outbound '', tag, '' h2 header name must not be empty''],
      fail_if (\<not> header_name_ok ext name) [''outbound '', tag, '' h2 header '', name, '' is invalid''],
      fail_if (\<not> header_value_ok ext value) [''outbound '', tag, '' h2 header '', name, '' value is invalid'']])"

definition validate_outbound_transport :: "externals \<Rightarrow> outbound_config \<Rightarrow> string \<Rightarrow> unit vresult" where
  "validate_outbound_transport ext ob protocol =
     (case ob_transport ob of
        None \<Rightarrow> Inr ()
      | Some t \<Rightarrow>
          (let tag = ob_tag ob;
               network = to_ascii_lowercase (outbound_transport_network ob);
               path = trim (opt_str (ox_path t));
               host = trim (opt_str (ox_host t));
               service_name = trim (opt_str (ox_service_name t));
               method = trim (opt_str (ox_method t));
               quic_security = opt_trim_or ''none'' (ox_quic_security t);
               quic_key = trim (opt_str (ox_quic_key t));
               quic_header_type = opt_trim_or ''none'' (ox_quic_header_type t);
               quic_security_lc = to_ascii_lowercase quic_security
           in checks
             [fail_if (protocol \<notin> set [''vless'', ''trojan'', ''vmess''])
                [''outbound '', tag, '' transport is supported only for vless, trojan, and vmess today''],
              fail_if (network \<notin> set [''tcp'', ''ws'', ''httpupgrade'', ''grpc'', ''h2'', ''http'', ''quic''])
                [''outbound '', tag, '' '', ob_protocol ob, '' transport '', network, '' is not supported yet''],
              fail_if (network \<notin> set [''ws'', ''httpupgrade'', ''h2'', ''http''] \<and> (path \<noteq> [] \<or> host \<noteq> []))
                [''outbound '', tag, '' transport path/host is supported only for ws/httpupgrade/h2 today''],
              fail_if (network \<noteq> ''grpc'' \<and> service_name \<noteq> [])
                [''outbound '', tag, '' grpc service_name is supported only for grpc transport''],
              fail_if (network \<notin> set [''h2'', ''http''] \<and> method \<noteq> [])
                [''outbound '', tag, '' h2 method is supported only for h2 transport''],
              fail_if (network \<notin> set [''h2'', ''http''] \<and> ox_headers t \<noteq> [])
                [''outbound '', tag, '' h2 headers are supported only for h2 transport''],
              fail_if (network \<noteq> ''quic'' \<and>
                       (\<not> eq_ignore_ascii_case quic_security ''none'' \<or> quic_key \<noteq> [] \<or>
                        \<not> eq_ignore_ascii_case quic_header_type ''none''))
                [''outbound '', tag, '' quic settings are supported only for quic transport''],
              given (network = ''quic'') (checks
                [fail_if (quic_security_lc \<notin> set [''none'', ''aes-128-gcm'', ''aes128-gcm'',
                            ''chacha20-poly1305'', ''chacha20-ietf-poly1305''])
                   [''outbound '', tag, '' quic security '', quic_security, '' is not supported''],
                 fail_if (quic_security_lc = ''none'' \<and> quic_key \<noteq> [])
                   [''outbound '', tag, '' quic key is supported only with encrypted quic security''],
                 fail_if (\<not> eq_ignore_ascii_case quic_header_type ''none'')
                   [''outbound '', tag, '' quic header '', quic_header_type, '' is not supported yet'']]),
              for_each (validate_header ext tag) (ox_headers t)]))"

definition proxy_protocols :: "string list" where
  "proxy_protocols = [''socks'', ''socks5'', ''http'', ''shadowsocks'', ''trojan'', ''vless'', ''vmess'']"

definition validate_shadowsocks_outbound :: "outbound_config \<Rightarrow> unit vresult" where
  "validate_shadowsocks_outbound ob =
     (let tag = ob_tag ob; method = trim (opt_str (ob_method ob)) in checks
       [fail_if (method = []) [''outbound '', tag, '' method is required for shadowsocks''],
        fail_if (\<not> is_supported_shadowsocks_cipher method)
          [''outbound '', tag, '' shadowsocks cipher '', method, '' is not supported''],
        fail_if (trim (opt_str (ob_password ob)) = []) [''outbound '', tag, '' password is required for shadowsocks'']])"

definition validate_vless_outbound :: "outbound_config \<Rightarrow> unit vresult" where
  "validate_vless_outbound ob =
     (let tag = ob_tag ob; flow = trim (opt_str (ob_method ob)) in checks
       [fail_if (parse_vless_outbound_uuid (trim (opt_str (ob_username ob))) = None)
          [''outbound '', tag, '' username must be a vless uuid''],
        given (flow \<noteq> []) (checks
          [fail_if (flow \<noteq> ''xtls-rprx-vision'') [''outbound '', tag, '' vless flow '', flow, '' is not supported''],
           fail_if (outbound_transport_network ob \<noteq> ''tcp'' \<or> ob_tls ob = None)
             [''outbound '', tag, '' vless flow is supported only for tcp tls outbound'']])])"

definition validate_vmess_outbound :: "outbound_config \<Rightarrow> unit vresult" where
  "validate_vmess_outbound ob =
     (let tag = ob_tag ob; security = to_ascii_lowercase (opt_trim_or ''auto'' (ob_method ob)) in checks
       [fail_if (parse_vless_outbound_uuid (trim (opt_str (ob_username ob))) = None)
          [''outbound '', tag, '' username must be a vmess uuid''],
        fail_if (security \<notin> set [''auto'', ''aes-128-gcm'', ''aes128-gcm'', ''chacha20-poly1305'',
                   ''chacha20-ietf-poly1305'', ''none''])
          [''outbound '', tag, '' vmess security '', security, '' is not supported'']])"

definition validate_outbound_endpoint :: "externals \<Rightarrow> outbound_config \<Rightarrow> unit vresult" where
  "validate_outbound_endpoint ext ob =
     (let tag = ob_tag ob; protocol = to_ascii_lowercase (trim (ob_protocol ob)) in checks
       [validate_outbound_transport ext ob protocol,
        fail_if (case ob_address ob of None \<Rightarrow> False | Some a \<Rightarrow> trim a = [])
          [''outbound '', tag, '' address must not be empty''],
        given (protocol \<in> set proxy_protocols) (checks
          [fail_if (trim (opt_str (ob_address ob)) = [])
             [''outbound '', tag, '' address is required for '', ob_protocol ob],
           fail_if (ob_port ob = None) [''outbound '', tag, '' port is required for '', ob_protocol ob]]),
        given (protocol = ''shadowsocks'') (validate_shadowsocks_outbound ob),
        fail_if (protocol = ''trojan'' \<and> trim (opt_str (ob_password ob)) = [])
          [''outbound '', tag, '' password is required for trojan''],
        given (protocol = ''vless'') (validate_vless_outbound ob),
        given (protocol = ''vmess'') (validate_vmess_outbound ob),
        fail_if (ob_tls ob \<noteq> None \<and> protocol \<notin> set [''trojan'', ''vless'', ''vmess''])
          [''outbound '', tag, '' tls is supported only for trojan, vless, and vmess today'']])"

definition validate_outbound :: "externals \<Rightarrow> outbound_config \<Rightarrow> unit vresult" where
  "validate_outbound ext ob = checks
     [fail_if (trim (ob_tag ob) = []) [''outbound tag is required''],
      fail_if (to_ascii_lowercase (trim (ob_protocol ob)) \<notin> set (''freedom'' # proxy_protocols))
        [''outbound '', ob_tag ob, '' protocol '', ob_protocol ob, '' is not implemented in keli-core-rs yet''],
      validate_outbound_endpoint ext ob]"

section \<open>Route targets\<close>

definition is_supported_ip_route_rule :: "string \<Rightarrow> bool" where
  "is_supported_ip_route_rule rule0 \<longleftrightarrow>
     (let rule = trim_brackets (trim rule0) in
      case strip_prefix ''geoip:'' rule of
        Some r \<Rightarrow> trim r \<noteq> []
      | None \<Rightarrow>
          (if parse_ip rule \<noteq> None then True
           else case split_once ''/'' rule of
                  None \<Rightarrow> False
                | Some (ip, prefix) \<Rightarrow>
                    (case (parse_ip (trim ip), parse_u8 (trim prefix)) of
                       (Some (V4 _), Some n) \<Rightarrow> n \<le> 32
                     | (Some (V6 _), Some n) \<Rightarrow> n \<le> 128
                     | _ \<Rightarrow> False)))"

definition is_supported_source_ip_route_rule :: "string \<Rightarrow> bool" where
  "is_supported_source_ip_route_rule rule0 \<longleftrightarrow>
     (let rule = trim rule0 in
      is_supported_ip_route_rule (case strip_prefix ''ip:'' rule of Some r \<Rightarrow> r | None \<Rightarrow> rule))"

definition is_supported_port_item :: "string \<Rightarrow> bool" where
  "is_supported_port_item item0 \<longleftrightarrow>
     (let item = trim item0 in
      if item = [] then False
      else case split_once ''-'' item of
             Some (start, end_) \<Rightarrow>
               (case (parse_u16 (trim start), parse_u16 (trim end_)) of
                  (Some a, Some b) \<Rightarrow> a \<le> b | _ \<Rightarrow> False)
           | None \<Rightarrow> parse_u16 item \<noteq> None)"

definition is_supported_port_route_rule :: "string \<Rightarrow> bool" where
  "is_supported_port_route_rule rule \<longleftrightarrow> list_all is_supported_port_item (split_on CHR '','' rule)"

text \<open>
  The tests of one target are tried in order; the first prefix that fits decides. The last branch of
  the source, on prefixes already handled above it, is never reached.
\<close>

definition target_tests :: "externals \<Rightarrow> route_action \<Rightarrow> (string \<times> (string \<Rightarrow> bool)) list" where
  "target_tests ext action =
     [(''ip:'', is_supported_ip_route_rule),
      (''port:'', is_supported_port_route_rule),
      (''network:'', \<lambda>rule. trim rule \<in> set [''tcp'', ''udp'']),
      (''domain:'', \<lambda>rule. trim_start_matches CHR ''.'' (trim rule) \<noteq> []),
      (''full:'', \<lambda>rule. trim_brackets (trim rule) \<noteq> []),
      (''keyword:'', \<lambda>rule. trim rule \<noteq> []),
      (''geoip:'', \<lambda>rule. trim rule \<noteq> []),
      (''geosite:'', \<lambda>rule. trim rule \<noteq> []),
      (''regexp:'', \<lambda>rule. regex_ok ext rule),
      (''protocol:'', \<lambda>rule. \<not> list_all (\<lambda>p. trim p = []) (split_on CHR '','' rule)),
      (''source_ip:'', \<lambda>rule. action = Block \<and> is_supported_source_ip_route_rule rule)]"

definition validate_route_target :: "externals \<Rightarrow> route_action \<Rightarrow> string \<Rightarrow> unit vresult" where
  "validate_route_target ext action target0 =
     (let target = trim target0; normalized = to_ascii_lowercase target in
      if target = [] then Inl (Err ''route target must not be empty'')
      else case find (\<lambda>(p, _). starts_with p normalized) (target_tests ext action) of
             None \<Rightarrow> Inr ()
           | Some (p, ok) \<Rightarrow>
               fail_if (\<not> ok (drop (length p) normalized))
                 (if p = ''regexp:'' then [''route target '', target, '' has invalid regexp'']
                  else [''route target '', target, '' is not supported in keli-core-rs yet'']))"

definition validate_route_targets :: "externals \<Rightarrow> route_action \<Rightarrow> string list \<Rightarrow> unit vresult" where
  "validate_route_targets ext action targets = for_each (validate_route_target ext action) targets"

section \<open>TLS\<close>

definition dest_has_explicit_port :: "string \<Rightarrow> bool" where
  "dest_has_explicit_port dest0 \<longleftrightarrow>
     (let dest = trim dest0 in
      case strip_prefix ''['' dest of
        Some rest \<Rightarrow>
          (case split_once '']:'' rest of Some (_, port) \<Rightarrow> parse_u16 port \<noteq> None | None \<Rightarrow> False)
      | None \<Rightarrow>
          (if 1 < length (filter (\<lambda>c. c = CHR '':'') dest) then False
           else case rsplit_once CHR '':'' dest of
                  Some (_, port) \<Rightarrow> parse_u16 port \<noteq> None | None \<Rightarrow> False))"

definition map_invalid :: "string list \<Rightarrow> 'a vresult \<Rightarrow> unit vresult" where
  "map_invalid msg r = (case r of Inr _ \<Rightarrow> Inr () | Inl (Err e) \<Rightarrow> Inl (Err (concat msg @ e)) | Inl Panic \<Rightarrow> Inl Panic)"

definition validate_reality_tls_config ::
    "externals \<Rightarrow> string \<Rightarrow> string \<Rightarrow> string \<Rightarrow> tls_config \<Rightarrow> reality_config \<Rightarrow> unit vresult" where
  "validate_reality_tls_config ext protocol tag network tls reality = checks
     [fail_if (protocol \<noteq> ''vless'') [tag, '' '', protocol, '' reality currently supports only vless''],
      fail_if (network \<noteq> ''tcp'') [tag, '' vless reality currently requires tcp transport''],
      fail_if (trim (tl_server_name tls) = []) [tag, '' vless reality requires server_name''],
      fail_if (trim (re_dest reality) = []) [tag, '' vless reality requires dest''],
      fail_if (\<not> dest_has_explicit_port (re_dest reality) \<and>
               (case re_server_port reality of None \<Rightarrow> True | Some p \<Rightarrow> p = 0))
        [tag, '' vless reality requires server_port when dest has no port''],
      map_invalid [tag, '' vless reality private_key is invalid: ''] (decode_reality_private_key ext (re_private_key reality)),
      map_invalid [tag, '' vless reality short_id is invalid: ''] (decode_short_id (re_short_id reality)),
      fail_if (2 < re_xver reality) [tag, '' vless reality xver must be 0, 1 or 2''],
      fail_if (trim (opt_str (re_mldsa65_seed reality)) \<noteq> [])
        [tag, '' vless reality mldsa65_seed is not implemented in keli-core-rs yet'']]"

definition missing_cert_files :: "tls_config \<Rightarrow> bool" where
  "missing_cert_files tls \<longleftrightarrow> trim (opt_str (tl_cert_file tls)) = [] \<or> trim (opt_str (tl_key_file tls)) = []"

definition validate_tls_config ::
    "externals \<Rightarrow> string \<Rightarrow> string \<Rightarrow> string \<Rightarrow> tls_config option \<Rightarrow> unit vresult" where
  "validate_tls_config ext protocol tag network tls_opt =
     (case tls_opt of
        None \<Rightarrow> Inr ()
      | Some tls \<Rightarrow> and_then
          (fail_if (network \<notin> set [''tcp'', ''ws'', ''httpupgrade'', ''grpc''])
             [tag, '' '', protocol, '' tls currently supports only tcp/ws/httpupgrade/grpc transport''])
          (\<lambda>_. case tl_reality tls of
             Some reality \<Rightarrow> validate_reality_tls_config ext protocol tag network tls reality
           | None \<Rightarrow> checks
               [fail_if (missing_cert_files tls) [tag, '' '', protocol, '' tls requires cert_file and key_file''],
                fail_if (tl_reject_unknown_sni tls \<and> trim (tl_server_name tls) = [])
                  [tag, '' '', protocol, '' reject_unknown_sni requires server_name'']]))"

definition validate_quic_tls_config :: "string \<Rightarrow> string \<Rightarrow> tls_config option \<Rightarrow> unit vresult" where
  "validate_quic_tls_config protocol tag tls_opt =
     (case tls_opt of
        None \<Rightarrow> Inl (Err (concat [tag, '' '', protocol, '' requires tls certificate files'']))
      | Some tls \<Rightarrow> checks
          [fail_if (tl_reality tls \<noteq> None) [tag, '' '', protocol, '' reality is not implemented in keli-core-rs yet''],
           fail_if (missing_cert_files tls) [tag, '' '', protocol, '' requires cert_file and key_file''],
           fail_if (tl_reject_unknown_sni tls \<and> trim (tl_server_name tls) = [])
             [tag, '' '', protocol, '' reject_unknown_sni requires server_name'']])"

section \<open>Inbounds\<close>

definition validate_tuic_transport_options :: "string \<Rightarrow> transport_config \<Rightarrow> unit vresult" where
  "validate_tuic_transport_options tag t =
     (let congestion = trim (tp_congestion_control t) in checks
       [fail_if (congestion \<noteq> [] \<and> \<not> is_supported_quic_congestion_control congestion)
          [tag, '' tuic congestion_control '', congestion, '' is not supported''],
        fail_if (tp_zero_rtt_handshake t) [tag, '' tuic zero_rtt_handshake is not supported yet'']])"

definition validate_hysteria2_transport_options :: "string \<Rightarrow> transport_config \<Rightarrow> unit vresult" where
  "validate_hysteria2_transport_options tag t =
     (let congestion = trim (tp_congestion_control t);
          obfs = trim (opt_str (tp_obfs t));
          password = trim (opt_str (tp_obfs_password t))
      in checks
       [fail_if (congestion \<noteq> [] \<and> \<not> is_supported_quic_congestion_control congestion)
          [tag, '' hysteria2 congestion_control '', congestion, '' is not supported''],
        given (\<not> (obfs = [] \<and> password = [])) (checks
          [fail_if (\<not> eq_ignore_ascii_case obfs ''salamander'') [tag, '' hysteria2 only supports salamander obfs''],
           fail_if (length password < 4) [tag, '' hysteria2 salamander obfs password must be at least 4 bytes'']])])"

definition validate_protocol_transport_fields :: "inbound_config \<Rightarrow> unit vresult" where
  "validate_protocol_transport_fields ib =
     (let tag = ib_tag ib; protocol = protocol_label (ib_protocol ib); t = ib_transport ib;
          network = trim (tp_network t);
          has_bandwidth_options = (0 < tp_up_mbps t \<or> 0 < tp_down_mbps t \<or> tp_ignore_client_bandwidth t);
          has_obfs_options = (trim (opt_str (tp_obfs t)) \<noteq> [] \<or> trim (opt_str (tp_obfs_password t)) \<noteq> []);
          has_congestion = (trim (tp_congestion_control t) \<noteq> []);
          stream_protocol = (ib_protocol ib \<in> set [Vless, Vmess, Trojan]);
          supports_http_transport_fields = (stream_protocol \<and> network \<in> set [''ws'', ''httpupgrade'']);
          supports_grpc_service_name = (stream_protocol \<and> network = ''grpc'')
      in checks
       [fail_if (tp_proxy_protocol t) [tag, '' '', protocol, '' proxy_protocol is not implemented in keli-core-rs yet''],
        fail_if (ib_protocol ib \<noteq> Hysteria2 \<and> (has_bandwidth_options \<or> has_obfs_options))
          [tag, '' '', protocol, '' does not support hysteria2 bandwidth/obfs transport options''],
        fail_if (has_congestion \<and> ib_protocol ib \<notin> set [Tuic, Hysteria2])
          [tag, '' '', protocol, '' does not support quic congestion_control''],
        fail_if (ib_protocol ib \<noteq> Tuic \<and> tp_zero_rtt_handshake t)
          [tag, '' '', protocol, '' does not support tuic transport options''],
        fail_if (trim (opt_str (tp_path t)) \<noteq> [] \<and> \<not> supports_http_transport_fields)
          [tag, '' '', protocol, '' transport path is supported only for ws/httpupgrade''],
        fail_if (trim (opt_str (tp_host t)) \<noteq> [] \<and> \<not> supports_http_transport_fields)
          [tag, '' '', protocol, '' transport host is supported only for ws/httpupgrade''],
        fail_if (trim (opt_str (tp_service_name t)) \<noteq> [] \<and> \<not> supports_grpc_service_name)
          [tag, '' '', protocol, '' transport service_name is supported only for grpc'']])"

definition validate_protocol_scoped_fields :: "inbound_config \<Rightarrow> unit vresult" where
  "validate_protocol_scoped_fields ib =
     (let tag = ib_tag ib; protocol = protocol_label (ib_protocol ib) in checks
       [fail_if (ib_protocol ib \<noteq> Shadowsocks \<and> trim (opt_str (ib_cipher ib)) \<noteq> [])
          [tag, '' '', protocol, '' does not support cipher''],
        fail_if (ib_protocol ib \<noteq> AnyTls \<and> ib_padding_scheme ib \<noteq> [])
          [tag, '' '', protocol, '' does not support padding_scheme''],
        validate_protocol_transport_fields ib])"

definition validate_flow :: "inbound_config \<Rightarrow> unit vresult" where
  "validate_flow ib =
     (let tag = ib_tag ib; flow = trim (ib_flow ib) in given (flow \<noteq> []) (checks
       [fail_if (ib_protocol ib \<noteq> Vless) [tag, '' flow '', flow, '' is supported only for vless''],
        fail_if (flow \<noteq> ''xtls-rprx-vision'') [tag, '' vless flow '', flow, '' is not supported''],
        fail_if (trim (tp_network (ib_transport ib)) \<noteq> ''tcp'')
          [tag, '' vless vision currently requires tcp transport''],
        fail_if (ib_tls ib = None) [tag, '' vless vision requires tls'']]))"

definition validate_plain_inbound :: "inbound_config \<Rightarrow> unit vresult" where
  "validate_plain_inbound ib =
     (let tag = ib_tag ib; protocol = protocol_label (ib_protocol ib) in checks
       [fail_if (trim (tp_network (ib_transport ib)) \<noteq> ''tcp'')
          [tag, '' '', protocol, '' currently supports only tcp transport''],
        fail_if (ib_tls ib \<noteq> None) [tag, '' '', protocol, '' currently supports only plain tcp'']])"

definition validate_stream_inbound :: "externals \<Rightarrow> inbound_config \<Rightarrow> unit vresult" where
  "validate_stream_inbound ext ib =
     (let tag = ib_tag ib; protocol = protocol_label (ib_protocol ib); network = trim (tp_network (ib_transport ib)) in checks
       [fail_if (network \<notin> set [''tcp'', ''ws'', ''httpupgrade'', ''grpc''])
          [tag, '' '', protocol, '' currently supports only tcp/ws/httpupgrade/grpc transport''],
        validate_tls_config ext protocol tag network (ib_tls ib),
        given (ib_protocol ib = Vmess) (fail_if (ib_users ib = []) [tag, '' vmess requires at least one user''])])"

definition validate_shadowsocks_inbound :: "inbound_config \<Rightarrow> unit vresult" where
  "validate_shadowsocks_inbound ib =
     (let tag = ib_tag ib; network = to_ascii_lowercase (trim (tp_network (ib_transport ib)));
          cipher = opt_str (ib_cipher ib) in checks
       [fail_if (network \<notin> set [''tcp'', ''tcp,udp''] \<or> ib_tls ib \<noteq> None)
          [tag, '' shadowsocks currently supports only plain tcp or tcp,udp''],
        fail_if (ib_users ib = []) [tag, '' shadowsocks requires at least one user''],
        fail_if (trim cipher = []) [tag, '' shadowsocks cipher is required''],
        fail_if (\<not> is_supported_shadowsocks_cipher cipher)
          [tag, '' shadowsocks cipher '', cipher, '' is not supported'']])"

definition validate_anytls_inbound :: "externals \<Rightarrow> inbound_config \<Rightarrow> unit vresult" where
  "validate_anytls_inbound ext ib =
     (let tag = ib_tag ib; network = trim (tp_network (ib_transport ib)) in checks
       [fail_if (network \<noteq> ''tcp'') [tag, '' anytls currently supports only tcp transport''],
        validate_tls_config ext ''anytls'' tag network (ib_tls ib),
        fail_if (ib_users ib = []) [tag, '' anytls requires at least one user'']])"

definition validate_mieru_inbound :: "inbound_config \<Rightarrow> unit vresult" where
  "validate_mieru_inbound ib =
     (let tag = ib_tag ib; network = to_ascii_lowercase (trim (tp_network (ib_transport ib))) in checks
       [fail_if (network \<noteq> ''tcp'' \<or> ib_tls ib \<noteq> None)
          [tag, '' mieru currently supports only plain tcp transport''],
        fail_if (ib_users ib = []) [tag, '' mieru requires at least one user'']])"

definition naive_h3 :: "inbound_config \<Rightarrow> bool" where
  "naive_h3 ib \<longleftrightarrow>
     to_ascii_lowercase (trim (tp_network (ib_transport ib))) = ''quic'' \<or>
     (case ib_tls ib of None \<Rightarrow> False
      | Some tls \<Rightarrow> list_ex (\<lambda>v. eq_ignore_ascii_case (trim v) ''h3'') (tl_alpn tls))"

definition validate_naive_inbound :: "externals \<Rightarrow> inbound_config \<Rightarrow> unit vresult" where
  "validate_naive_inbound ext ib =
     (let tag = ib_tag ib; network = trim (tp_network (ib_transport ib)) in checks
       [fail_if (to_ascii_lowercase network \<notin> set [''tcp'', ''quic''])
          [tag, '' naive currently supports only tcp or quic transport''],
        fail_if (ib_tls ib = None) [tag, '' naive requires tls config''],
        if naive_h3 ib then validate_quic_tls_config ''naive'' tag (ib_tls ib)
        else validate_tls_config ext ''naive'' tag network (ib_tls ib),
        fail_if (ib_users ib = []) [tag, '' naive requires at least one user'']])"

definition validate_tuic_inbound :: "inbound_config \<Rightarrow> unit vresult" where
  "validate_tuic_inbound ib =
     (let tag = ib_tag ib in checks
       [fail_if (trim (tp_network (ib_transport ib)) \<noteq> ''tuic'') [tag, '' tuic currently requires tuic transport''],
        validate_quic_tls_config ''tuic'' tag (ib_tls ib),
        validate_tuic_transport_options tag (ib_transport ib)])"

definition validate_hysteria2_inbound :: "inbound_config \<Rightarrow> unit vresult" where
  "validate_hysteria2_inbound ib =
     (let tag = ib_tag ib; t = ib_transport ib in checks
       [fail_if (trim (tp_network t) \<notin> set [''hysteria'', ''hysteria2''])
          [tag, '' hysteria2 currently requires hysteria transport''],
        validate_quic_tls_config ''hysteria2'' tag (ib_tls ib),
        fail_if (tp_ignore_client_bandwidth t \<and> (0 < tp_up_mbps t \<or> 0 < tp_down_mbps t))
          [tag, '' hysteria2 ignore_client_bandwidth conflicts with up_mbps/down_mbps''],
        validate_hysteria2_transport_options tag t])"

definition validate_inbound_protocol :: "externals \<Rightarrow> inbound_config \<Rightarrow> unit vresult" where
  "validate_inbound_protocol ext ib =
     (case ib_protocol ib of
        Socks \<Rightarrow> validate_plain_inbound ib
      | Http \<Rightarrow> validate_plain_inbound ib
      | Vless \<Rightarrow> validate_stream_inbound ext ib
      | Vmess \<Rightarrow> validate_stream_inbound ext ib
      | Trojan \<Rightarrow> validate_stream_inbound ext ib
      | Shadowsocks \<Rightarrow> validate_shadowsocks_inbound ib
      | AnyTls \<Rightarrow> validate_anytls_inbound ext ib
      | Mieru \<Rightarrow> validate_mieru_inbound ib
      | Naive \<Rightarrow> validate_naive_inbound ext ib
      | Tuic \<Rightarrow> validate_tuic_inbound ib
      | Hysteria2 \<Rightarrow> validate_hysteria2_inbound ib)"

definition validate_inbound :: "externals \<Rightarrow> inbound_config \<Rightarrow> unit vresult" where
  "validate_inbound ext ib =
     (let tag = ib_tag ib in checks
       [fail_if (trim tag = []) [''inbound tag is required''],
        fail_if (trim (ib_listen ib) = []) [tag, '' listen address is required''],
        fail_if (ib_port ib = 0) [tag, '' port is required''],
        fail_if (list_ex user_is_empty (ib_users ib)) [tag, '' contains an empty user uuid''],
        validate_protocol_scoped_fields ib,
        validate_flow ib,
        validate_inbound_protocol ext ib])"

section \<open>The whole configuration\<close>

fun validate_inbounds :: "externals \<Rightarrow> string list \<Rightarrow> inbound_config list \<Rightarrow> unit vresult" where
  "validate_inbounds ext tags [] = Inr ()"
| "validate_inbounds ext tags (ib # ibs) = checks
     [validate_inbound ext ib,
      fail_if (ib_tag ib \<in> set tags) [''duplicate inbound tag: '', ib_tag ib],
      validate_inbounds ext (ib_tag ib # tags) ibs]"

fun validate_outbounds_from :: "externals \<Rightarrow> string list \<Rightarrow> outbound_config list \<Rightarrow> unit vresult" where
  "validate_outbounds_from ext tags [] = Inr ()"
| "validate_outbounds_from ext tags (ob # obs) = checks
     [fail_if (ob_tag ob \<in> set tags) [''duplicate outbound tag: '', ob_tag ob],
      validate_outbound ext ob,
      validate_outbounds_from ext (ob_tag ob # tags) obs]"

definition validate_outbounds :: "externals \<Rightarrow> core_config \<Rightarrow> unit vresult" where
  "validate_outbounds ext cfg = validate_outbounds_from ext [] (cc_outbounds cfg)"

definition validate_dns :: "externals \<Rightarrow> core_config \<Rightarrow> unit vresult" where
  "validate_dns ext cfg = checks
     [for_each (\<lambda>server. checks
        [fail_if (trim (sv_address server) = []) [''dns server address must not be empty''],
         validate_route_targets ext Direct (sv_domains server)]) (dc_servers (cc_dns cfg)),
      validate_route_targets ext Direct (dc_private_ip_allowlist (cc_dns cfg))]"

definition validate_route_rule :: "externals \<Rightarrow> core_config \<Rightarrow> route_rule \<Rightarrow> unit vresult" where
  "validate_route_rule ext cfg route = checks
     [validate_route_targets ext (rr_action route) (rr_targets route),
      case rr_action route of
        Direct \<Rightarrow> Inr ()
      | Block \<Rightarrow> Inr ()
      | Outbound tag \<Rightarrow>
          (case rr_outbound route of
             Some ob \<Rightarrow> checks
               [fail_if (ob_tag ob \<noteq> tag)
                  [''route outbound '', tag, '' does not match embedded outbound '', ob_tag ob],
                validate_outbound ext ob]
           | None \<Rightarrow> fail_if (tag \<notin> ob_tag ` set (cc_outbounds cfg))
                        [''route outbound '', tag, '' is not configured''])]"

definition validate_route_rules :: "externals \<Rightarrow> core_config \<Rightarrow> route_rule list \<Rightarrow> unit vresult" where
  "validate_route_rules ext cfg routes = for_each (validate_route_rule ext cfg) routes"

definition validate_routes :: "externals \<Rightarrow> core_config \<Rightarrow> unit vresult" where
  "validate_routes ext cfg = checks
     [validate_route_rules ext cfg (cc_routes cfg),
      for_each (\<lambda>ib. validate_route_rules ext cfg (ib_routes ib)) (cc_inbounds cfg)]"

definition validate_policy :: "policy_config \<Rightarrow> unit vresult" where
  "validate_policy p = checks
     [fail_if (po_handshake_secs p = 0) [''policy handshake_secs must be greater than 0''],
      fail_if (po_connection_idle_secs p = 0) [''policy connection_idle_secs must be greater than 0''],
      fail_if (po_buffer_size_kib p = 0) [''policy buffer_size_kib must be greater than 0''],
      fail_if (po_sniffing_cache_millis p = 0) [''policy sniffing_cache_millis must be greater than 0''],
      fail_if (po_connect_timeout_secs p = 0) [''policy connect_timeout_secs must be greater than 0''],
      fail_if (60 < po_connect_timeout_secs p) [''policy connect_timeout_secs must be at most 60'']]"

definition validate :: "externals \<Rightarrow> core_config \<Rightarrow> unit vresult" where
  "validate ext cfg = checks
     [fail_if (trim (cc_instance_id cfg) = []) [''instance_id is required''],
      fail_if (cc_inbounds cfg = []) [''at least one inbound is required''],
      validate_inbounds ext [] (cc_inbounds cfg),
      validate_outbounds ext cfg,
      validate_dns ext cfg,
      validate_routes ext cfg,
      validate_policy (cc_policy cfg)]"

definition resolve_route :: "core_config \<Rightarrow> route_rule \<Rightarrow> route_rule" where
  "resolve_route cfg route =
     (case (rr_outbound route, rr_action route) of
        (None, Outbound tag) \<Rightarrow> route\<lparr>rr_outbound := find (\<lambda>ob. ob_tag ob = tag) (cc_outbounds cfg)\<rparr>
      | _ \<Rightarrow> route)"

definition resolved_routes :: "core_config \<Rightarrow> route_rule list" where
  "resolved_routes cfg = map (resolve_route cfg) (cc_routes cfg)"

definition resolved_inbound_routes :: "core_config \<Rightarrow> inbound_config \<Rightarrow> route_rule list" where
  "resolved_inbound_routes cfg ib = map (resolve_route cfg) (cc_routes cfg @ ib_routes ib)"

end
