(* ===== verification/Config_Facts.thy ===== *)
theory Config_Facts
  imports Config
begin

text \<open>
  What a configuration that passes validation guarantees to the rest of the core, which error is
  reported, and when validation can panic.
\<close>

section \<open>Accepted configurations\<close>

lemma validate_inbounds_ok:
  "validate_inbounds ext tags ibs = Inr () \<longleftrightarrow>
     (\<forall>ib \<in> set ibs. validate_inbound ext ib = Inr ()) \<and> distinct (map ib_tag ibs) \<and>
     set tags \<inter> ib_tag ` set ibs = {}"
  by (induction ibs arbitrary: tags) (auto simp: result_simps)

lemma validate_outbounds_ok:
  "validate_outbounds_from ext tags obs = Inr () \<longleftrightarrow>
     (\<forall>ob \<in> set obs. validate_outbound ext ob = Inr ()) \<and> distinct (map ob_tag obs) \<and>
     set tags \<inter> ob_tag ` set obs = {}"
  by (induction obs arbitrary: tags) (auto simp: result_simps)

lemma validate_okD:
  assumes "validate ext cfg = Inr ()"
  shows "cc_inbounds cfg \<noteq> []" "\<forall>ib \<in> set (cc_inbounds cfg). validate_inbound ext ib = Inr ()"
    and "distinct (map ib_tag (cc_inbounds cfg))" "distinct (map ob_tag (cc_outbounds cfg))"
    and "\<forall>ob \<in> set (cc_outbounds cfg). validate_outbound ext ob = Inr ()"
    and "\<forall>r \<in> set (cc_routes cfg). validate_route_rule ext cfg r = Inr ()"
    and "\<forall>ib \<in> set (cc_inbounds cfg). \<forall>r \<in> set (ib_routes ib). validate_route_rule ext cfg r = Inr ()"
    and "validate_policy (cc_policy cfg) = Inr ()"
  using assms
  by (simp_all add: validate_def result_simps validate_inbounds_ok validate_outbounds_def
      validate_outbounds_ok validate_routes_def validate_route_rules_def)

lemma validate_inbound_okD:
  assumes "validate_inbound ext ib = Inr ()"
  shows "trim (ib_tag ib) \<noteq> []" "trim (ib_listen ib) \<noteq> []" "ib_port ib \<noteq> 0"
    and "\<forall>u \<in> set (ib_users ib). \<not> user_is_empty u"
    and "validate_flow ib = Inr ()" "validate_inbound_protocol ext ib = Inr ()"
    and "validate_protocol_scoped_fields ib = Inr ()"
  using assms by (simp_all add: validate_inbound_def result_simps Let_def list_ex_iff)

text \<open>An outbound route names an outbound that exists and is itself valid.\<close>

lemma find_tag:
  assumes "tag \<in> ob_tag ` set obs"
  obtains ob where "find (\<lambda>ob. ob_tag ob = tag) obs = Some ob" "ob \<in> set obs" "ob_tag ob = tag"
proof -
  from assms have "find (\<lambda>ob. ob_tag ob = tag) obs \<noteq> None" by (auto simp: find_None_iff)
  then obtain ob where f: "find (\<lambda>ob. ob_tag ob = tag) obs = Some ob" by auto
  show ?thesis by (rule that [OF f]) (use find_SomeD [OF f] in simp_all)
qed

lemma resolve_route_ok:
  assumes "validate_route_rule ext cfg r = Inr ()" "\<forall>ob \<in> set (cc_outbounds cfg). validate_outbound ext ob = Inr ()"
    and "rr_action (resolve_route cfg r) = Outbound tag"
  shows "\<exists>ob. rr_outbound (resolve_route cfg r) = Some ob \<and> ob_tag ob = tag \<and> validate_outbound ext ob = Inr ()"
proof -
  have act: "rr_action r = Outbound tag"
    using assms(3) by (auto simp: resolve_route_def split: option.splits route_action.splits)
  show ?thesis
  proof (cases "rr_outbound r")
    case None
    then have "tag \<in> ob_tag ` set (cc_outbounds cfg)"
      using assms(1) act by (simp add: validate_route_rule_def result_simps)
    then show ?thesis
      using None act assms(2) by (auto simp: resolve_route_def elim!: find_tag)
  next
    case (Some ob)
    then show ?thesis
      using assms(1) act by (auto simp: validate_route_rule_def result_simps resolve_route_def)
  qed
qed

section \<open>Decoded values\<close>

lemma decode_hex_from_ok:
  "decode_hex_from value is = Inr bs \<Longrightarrow> length bs = length is \<and> (\<forall>b \<in> set bs. b \<le> 255)"
proof (induction "is" arbitrary: bs)
  case (Cons i "is")
  then show ?case using parse_radix_bound [of 16 255] by (auto simp: result_simps split: option.splits)
qed simp

lemma decode_hex_ok: "decode_hex s = Inr bs \<Longrightarrow> length bs = length (trim s) div 2 \<and> (\<forall>b \<in> set bs. b \<le> 255)"
  by (auto simp: decode_hex_def Let_def split: if_splits dest!: decode_hex_from_ok)

lemma invalid_client_hello_ok [result_simps]: "invalid_client_hello r = Inr x \<longleftrightarrow> r = Inr x"
  by (auto simp: invalid_client_hello_def split: sum.splits verr.splits)

lemma trim_length: "length (trim s) \<le> length s"
  by (metis le_add1 le_add2 le_trans length_append trim_substring)

lemma decode_short_id_ok: "decode_short_id s = Inr bs \<Longrightarrow> length bs = 8 \<and> (\<forall>b \<in> set bs. b \<le> 255)"
proof -
  assume ok: "decode_short_id s = Inr bs"
  then obtain xs where xs: "decode_hex (trim s) = Inr xs" "bs = xs @ replicate (8 - length xs) 0"
    by (auto simp: decode_short_id_def Let_def result_simps split: if_splits)
  have "length (trim s) \<le> 16" using ok by (auto simp: decode_short_id_def Let_def result_simps split: if_splits)
  then have "length xs \<le> 8" using decode_hex_ok [OF xs(1)] trim_length [of "trim s"] by linarith
  with xs decode_hex_ok [OF xs(1)] show ?thesis by auto
qed

lemma decode_reality_private_key_ok:
  "decode_reality_private_key ext s = Inr bs \<Longrightarrow> length bs = 32 \<and> (\<forall>b \<in> set bs. b \<le> 255)"
proof -
  have u: "unat (x :: u8) \<le> 255" for x using unat_max_word [where 'a = 8] word_le_nat_alt [of x "-1"] by simp
  show "decode_reality_private_key ext s = Inr bs \<Longrightarrow> ?thesis"
    using u by (auto simp: decode_reality_private_key_def Let_def result_simps
        split: if_splits option.splits dest!: decode_hex_ok)
qed

lemma parse_hex_chunks_ok: "parse_hex_chunks cs = Some bs \<Longrightarrow> length bs = length cs \<and> (\<forall>b \<in> set bs. b \<le> 255)"
  by (induction cs arbitrary: bs) (auto split: option.splits dest: parse_radix_bound)

lemma length_chunks_exact2: "length (chunks_exact2 s) = length s div 2"
  by (induction s rule: chunks_exact2.induct) simp_all

section \<open>Panics\<close>

definition is_ascii :: "string \<Rightarrow> bool" where
  "is_ascii s \<longleftrightarrow> list_all (\<lambda>c. (of_char c :: nat) < 128) s"

lemma ascii_boundary: "is_ascii s \<Longrightarrow> i \<le> length s \<Longrightarrow> is_char_boundary s i"
  by (auto simp: is_ascii_def is_char_boundary_def list_all_length not_le)

lemma decode_hex_from_no_panic:
  "is_ascii s \<Longrightarrow> \<forall>i \<in> set is. i + 2 \<le> length s \<Longrightarrow> decode_hex_from s is \<noteq> Inl Panic"
proof (induction "is")
  case (Cons i "is")
  then have "str_slice s i (i + 2) = Inr (take 2 (drop i s))"
    by (simp add: str_slice_def ascii_boundary)
  with Cons show ?case by (auto simp: and_then_def split: option.split sum.split)
qed simp

lemma is_ascii_trim: "is_ascii s \<Longrightarrow> is_ascii (trim s)"
  using trim_subset [of s] by (auto simp: is_ascii_def list_all_iff)

lemma decode_hex_no_panic: "is_ascii s \<Longrightarrow> decode_hex s \<noteq> Inl Panic"
  using decode_hex_from_no_panic [OF is_ascii_trim [of s], of "map (\<lambda>k. 2 * k) [0..<length (trim s) div 2]"]
  by (auto simp: decode_hex_def Let_def)

lemma invalid_client_hello_panic: "invalid_client_hello r = Inl Panic \<longleftrightarrow> r = Inl Panic"
  by (auto simp: invalid_client_hello_def split: sum.splits verr.splits)

lemma decode_short_id_no_panic: "is_ascii s \<Longrightarrow> decode_short_id s \<noteq> Inl Panic"
  using decode_hex_no_panic [OF is_ascii_trim [of s]]
  by (auto simp: decode_short_id_def Let_def and_then_def invalid_client_hello_panic
      invalid_client_hello_def split: sum.splits verr.splits)

lemma hex_is_ascii: "list_all (\<lambda>c. to_digit 16 c \<noteq> None) s \<Longrightarrow> is_ascii s"
  unfolding is_ascii_def by (erule list.pred_mono_strong) (auto simp: to_digit_def Let_def split: if_splits)

lemma private_key_no_panic: "decode_reality_private_key ext s \<noteq> Inl Panic"
proof -
  have "decode_hex (trim s) \<noteq> Inl Panic" if "list_all (\<lambda>c. to_digit 16 c \<noteq> None) (trim s)"
    using that by (intro decode_hex_no_panic hex_is_ascii)
  then show ?thesis
    by (auto simp: decode_reality_private_key_def Let_def and_then_def invalid_client_hello_panic
        invalid_private_key_def split: sum.splits option.splits if_splits)
qed

lemma checks_panic: "checks cs = Inl Panic \<Longrightarrow> Inl Panic \<in> set cs"
  unfolding checks_def by (induction cs) (auto simp: and_then_def split: sum.splits)

lemma for_each_panic: "for_each f xs = Inl Panic \<Longrightarrow> \<exists>x \<in> set xs. f x = Inl Panic"
  by (induction xs) (auto simp: and_then_def split: sum.splits)

lemma fail_if_panic [simp]: "fail_if b m \<noteq> Inl Panic" "Inl Panic \<noteq> fail_if b m"
  by (auto simp: fail_if_def ensure_def)

lemma given_panic: "given b c = Inl Panic \<longleftrightarrow> b \<and> c = Inl Panic" "Inl Panic = given b c \<longleftrightarrow> b \<and> c = Inl Panic"
  by (auto simp: given_def)

lemma map_invalid_panic: "map_invalid m r = Inl Panic \<longleftrightarrow> r = Inl Panic" "Inl Panic = map_invalid m r \<longleftrightarrow> r = Inl Panic"
  by (auto simp: map_invalid_def split: sum.splits verr.splits)

lemmas panic_simps = given_panic map_invalid_panic private_key_no_panic

lemma outbound_no_panic: "validate_outbound ext ob \<noteq> Inl Panic"
proof
  have transport: "validate_outbound_transport ext ob p \<noteq> Inl Panic" for p
    by (auto simp: validate_outbound_transport_def validate_header_def Let_def panic_simps
        dest!: checks_panic for_each_panic sym [of "Inl Panic"] split: option.splits prod.splits)
  have parts: "validate_shadowsocks_outbound ob \<noteq> Inl Panic" "validate_vless_outbound ob \<noteq> Inl Panic"
    "validate_vmess_outbound ob \<noteq> Inl Panic"
    by (auto simp: validate_shadowsocks_outbound_def validate_vless_outbound_def validate_vmess_outbound_def
        Let_def panic_simps dest!: checks_panic sym [of "Inl Panic"])
  have "validate_outbound_endpoint ext ob \<noteq> Inl Panic"
    using transport parts
    by (auto simp: validate_outbound_endpoint_def Let_def panic_simps dest!: checks_panic sym [of "Inl Panic"])
  moreover assume "validate_outbound ext ob = Inl Panic"
  ultimately show False
    by (auto simp: validate_outbound_def dest!: checks_panic sym [of "Inl Panic"])
qed

lemma route_targets_no_panic: "validate_route_targets ext action targets \<noteq> Inl Panic"
  by (auto simp: validate_route_targets_def validate_route_target_def Let_def
      dest!: for_each_panic split: if_splits option.splits prod.splits)

lemma route_rules_no_panic: "validate_route_rules ext cfg routes \<noteq> Inl Panic"
proof
  assume "validate_route_rules ext cfg routes = Inl Panic"
  then obtain r where "validate_route_rule ext cfg r = Inl Panic"
    by (auto simp: validate_route_rules_def dest!: for_each_panic)
  then show False
    using route_targets_no_panic outbound_no_panic
    by (auto simp: validate_route_rule_def dest!: checks_panic sym [of "Inl Panic"] split: route_action.splits option.splits)
qed

lemma tls_no_panic:
  assumes "\<forall>r. Option.bind tls tl_reality = Some r \<longrightarrow> is_ascii (re_short_id r)"
  shows "validate_tls_config ext p tag network tls \<noteq> Inl Panic"
proof
  assume "validate_tls_config ext p tag network tls = Inl Panic"
  with assms show False
    using decode_short_id_no_panic private_key_no_panic
    by (auto simp: validate_tls_config_def validate_reality_tls_config_def and_then_def panic_simps
        dest!: checks_panic sym [of "Inl Panic"] split: option.splits sum.splits)
qed

lemma quic_tls_no_panic: "validate_quic_tls_config p tag tls \<noteq> Inl Panic"
  by (auto simp: validate_quic_tls_config_def dest!: checks_panic sym [of "Inl Panic"] split: option.splits)

definition ascii_short_id :: "inbound_config \<Rightarrow> bool" where
  "ascii_short_id ib \<longleftrightarrow>
     (case Option.bind (ib_tls ib) tl_reality of None \<Rightarrow> True | Some r \<Rightarrow> is_ascii (re_short_id r))"

lemma inbound_no_panic:
  assumes "ascii_short_id ib"
  shows "validate_inbound ext ib \<noteq> Inl Panic"
proof
  have tls: "validate_tls_config ext p tag network (ib_tls ib) \<noteq> Inl Panic" for p tag network
    using assms by (intro tls_no_panic) (auto simp: ascii_short_id_def)
  have opts: "validate_tuic_transport_options tag t \<noteq> Inl Panic" "validate_hysteria2_transport_options tag t \<noteq> Inl Panic" for tag t
    by (auto simp: validate_tuic_transport_options_def validate_hysteria2_transport_options_def Let_def panic_simps
        dest!: checks_panic sym [of "Inl Panic"])
  have proto: "validate_inbound_protocol ext ib \<noteq> Inl Panic"
    using tls opts quic_tls_no_panic
    by (auto simp: validate_inbound_protocol_def validate_plain_inbound_def validate_stream_inbound_def
        validate_shadowsocks_inbound_def validate_anytls_inbound_def validate_mieru_inbound_def
        validate_naive_inbound_def validate_tuic_inbound_def validate_hysteria2_inbound_def Let_def panic_simps
        dest!: checks_panic sym [of "Inl Panic"] split: protocol.splits if_splits)
  have fields: "validate_protocol_scoped_fields ib \<noteq> Inl Panic"
    by (auto simp: validate_protocol_scoped_fields_def validate_protocol_transport_fields_def Let_def
        dest!: checks_panic sym [of "Inl Panic"])
  have flow: "validate_flow ib \<noteq> Inl Panic"
    by (auto simp: validate_flow_def Let_def panic_simps dest!: checks_panic sym [of "Inl Panic"])
  assume "validate_inbound ext ib = Inl Panic"
  with proto fields flow show False
    by (auto simp: validate_inbound_def Let_def dest!: checks_panic sym [of "Inl Panic"])
qed

section \<open>Examples\<close>

definition example_ext :: externals where
  "example_ext = \<lparr>regex_ok = (\<lambda>_. True), header_name_ok = (\<lambda>_. True), header_value_ok = (\<lambda>_. True),
     base64_url_safe_no_pad = (\<lambda>_. None), base64_standard = (\<lambda>_. None)\<rparr>"

definition example_outbound :: outbound_config where
  "example_outbound = \<lparr>ob_tag = ''up'', ob_protocol = ''socks'', ob_method = None, ob_alter_id = None,
     ob_address = Some ''10.0.0.1'', ob_port = Some 1080, ob_username = None, ob_password = None,
     ob_tls = None, ob_transport = None\<rparr>"

definition example_route :: route_rule where
  "example_route = \<lparr>rr_targets = [''domain:a.b''], rr_action = Outbound ''up'', rr_outbound = None\<rparr>"

definition example_inbound :: "protocol \<Rightarrow> tls_config option \<Rightarrow> inbound_config" where
  "example_inbound protocol tls = \<lparr>ib_tag = ''in'', ib_protocol = protocol, ib_listen = ''127.0.0.1'', ib_port = 1080,
     ib_users = [], ib_cipher = None, ib_flow = [], ib_padding_scheme = [], ib_transport = default_transport,
     ib_tls = tls, ib_sniffing = default_sniffing, ib_routes = []\<rparr>"

definition example_config :: "inbound_config \<Rightarrow> core_config" where
  "example_config ib = \<lparr>cc_instance_id = ''node'', cc_log_level = ''info'',
     cc_dns = \<lparr>dc_servers = [], dc_query_strategy = [], dc_block_private_ips = False, dc_private_ip_allowlist = []\<rparr>,
     cc_policy = default_policy_config, cc_inbounds = [ib], cc_outbounds = [example_outbound],
     cc_routes = [example_route], cc_stats = default_stats\<rparr>"

definition example_reality :: "string \<Rightarrow> tls_config" where
  "example_reality short_id = \<lparr>tl_server_name = ''a.b'', tl_cert_file = None, tl_key_file = None, tl_alpn = [],
     tl_reject_unknown_sni = False,
     tl_reality = Some \<lparr>re_dest = ''a.b:443'', re_server_port = None, re_private_key = replicate 64 (CHR ''a''),
       re_short_id = short_id, re_xver = 0, re_mldsa65_seed = None\<rparr>\<rparr>"

lemma example_config_ok: "validate example_ext (example_config (example_inbound Socks None)) = Inr ()"
  by code_simp

lemma example_reality_ok:
  "validate example_ext (example_config (example_inbound Vless (Some (example_reality ''01ab'')))) = Inr ()"
  by code_simp

section \<open>Properties of validation\<close>

text \<open>
  A configuration that passes validation has at least one inbound, pairwise different inbound and
  outbound tags, a non-zero port and no blank user on every inbound, and timeouts in range.
\<close>

theorem accepted_config_well_formed:
  assumes "validate ext cfg = Inr ()"
  shows "cc_inbounds cfg \<noteq> [] \<and> distinct (map ib_tag (cc_inbounds cfg)) \<and> distinct (map ob_tag (cc_outbounds cfg)) \<and>
         (\<forall>ib \<in> set (cc_inbounds cfg). ib_port ib \<noteq> 0 \<and> (\<forall>u \<in> set (ib_users ib). \<not> user_is_empty u)) \<and>
         0 < po_handshake_secs (cc_policy cfg) \<and> 0 < po_connection_idle_secs (cc_policy cfg) \<and>
         0 < po_buffer_size_kib (cc_policy cfg) \<and> 0 < po_connect_timeout_secs (cc_policy cfg) \<and>
         po_connect_timeout_secs (cc_policy cfg) \<le> 60"
  using validate_okD [OF assms] validate_inbound_okD
  by (auto simp: validate_policy_def result_simps word_neq_0_conv not_less)

theorem accepted_config_well_formed_witness:
  "distinct (map ib_tag (cc_inbounds (example_config (example_inbound Socks None))))"
  using accepted_config_well_formed [OF example_config_ok] by blast

text \<open>
  After validation every route with an outbound action, of the configuration or of an inbound,
  resolves to an outbound with the tag it names, and that outbound is itself valid.
\<close>

theorem accepted_routes_resolve:
  assumes "validate ext cfg = Inr ()" "ib \<in> set (cc_inbounds cfg)"
    and "r \<in> set (resolved_inbound_routes cfg ib)" "rr_action r = Outbound tag"
  shows "\<exists>ob. rr_outbound r = Some ob \<and> ob_tag ob = tag \<and> validate_outbound ext ob = Inr ()"
proof -
  note ok = validate_okD [OF assms(1)]
  from assms(3) obtain r' where r': "r = resolve_route cfg r'" "r' \<in> set (cc_routes cfg @ ib_routes ib)"
    by (auto simp: resolved_inbound_routes_def)
  then have "validate_route_rule ext cfg r' = Inr ()" using ok(6,7) assms(2) by auto
  from resolve_route_ok [OF this ok(5)] assms(4) r'(1) show ?thesis by blast
qed

theorem accepted_routes_resolve_witness:
  "\<exists>ob. rr_outbound (resolve_route (example_config (example_inbound Socks None)) example_route) = Some ob \<and>
     ob_tag ob = ''up'' \<and> validate_outbound example_ext ob = Inr ()"
  by (rule accepted_routes_resolve [OF example_config_ok])
     (simp_all add: example_config_def resolved_inbound_routes_def resolve_route_def example_route_def)

text \<open>
  An inbound with REALITY that passes validation is VLESS over TCP, its private key decodes to 32
  bytes and its short id to 8 bytes; an inbound with the Vision flow is VLESS over TCP with TLS.
\<close>

theorem accepted_reality_and_vision:
  assumes "validate_inbound ext ib = Inr ()"
  shows "(\<forall>tls re. ib_tls ib = Some tls \<and> tl_reality tls = Some re \<longrightarrow>
            ib_protocol ib = Vless \<and> trim (tp_network (ib_transport ib)) = ''tcp'' \<and> re_xver re \<le> 2 \<and>
            (\<exists>key. decode_reality_private_key ext (re_private_key re) = Inr key \<and> length key = 32) \<and>
            (\<exists>sid. decode_short_id (re_short_id re) = Inr sid \<and> length sid = 8)) \<and>
         (trim (ib_flow ib) \<noteq> [] \<longrightarrow>
            ib_protocol ib = Vless \<and> trim (tp_network (ib_transport ib)) = ''tcp'' \<and> ib_tls ib \<noteq> None)"
proof -
  note ok = validate_inbound_okD [OF assms]
  have map_ok: "map_invalid m r = Inr () \<Longrightarrow> \<exists>x. r = Inr x" for m and r :: "nat list vresult"
    by (auto simp: map_invalid_def split: sum.splits verr.splits)
  have re_ok: "validate_tls_config ext p tag n (Some tls) = Inr () \<Longrightarrow> tl_reality tls = Some re \<Longrightarrow>
      p = ''vless'' \<and> n = ''tcp'' \<and> \<not> 2 < re_xver re \<and> (\<exists>k. decode_reality_private_key ext (re_private_key re) = Inr k) \<and>
      (\<exists>i. decode_short_id (re_short_id re) = Inr i)" for p tag n tls re
    using map_ok by (auto simp: validate_tls_config_def validate_reality_tls_config_def result_simps)
  have "ib_protocol ib = Vless \<and> trim (tp_network (ib_transport ib)) = ''tcp'' \<and> \<not> 2 < re_xver re \<and>
      (\<exists>k. decode_reality_private_key ext (re_private_key re) = Inr k) \<and> (\<exists>i. decode_short_id (re_short_id re) = Inr i)"
    if tls: "ib_tls ib = Some tls" "tl_reality tls = Some re" for tls re
    using ok(6) tls re_ok [OF _ tls(2)]
    by (auto simp: validate_inbound_protocol_def validate_plain_inbound_def validate_stream_inbound_def
        validate_shadowsocks_inbound_def validate_anytls_inbound_def validate_mieru_inbound_def
        validate_naive_inbound_def validate_tuic_inbound_def validate_hysteria2_inbound_def
        validate_quic_tls_config_def result_simps Let_def protocol_label_def
        split: protocol.splits if_splits)
  then show ?thesis
    using ok(5) decode_short_id_ok decode_reality_private_key_ok
    by (fastforce simp: validate_flow_def result_simps Let_def not_less)
qed

theorem accepted_reality_and_vision_witness:
  "\<exists>sid. decode_short_id ''01ab'' = Inr sid \<and> length sid = 8"
  using accepted_reality_and_vision [of example_ext "example_inbound Vless (Some (example_reality ''01ab''))"]
    validate_okD(2) [OF example_reality_ok]
  by (simp add: example_config_def example_inbound_def example_reality_def)



text \<open>
  A short id that is not ASCII can panic validation: \<open>a\<close>, the two bytes of a letter with an accent
  and \<open>b\<close> have an even length, and the decoder slices the string inside the accented letter.
\<close>

theorem short_id_panics_validation:
  "validate example_ext (example_config (example_inbound Vless (Some (example_reality
     [CHR ''a'', CHR 0xC3, CHR 0xA9, CHR ''b''])))) = Inl Panic"
  by code_simp

lemma validate_inbounds_first_error:
  assumes "\<forall>ib \<in> set pre. validate_inbound ext ib = Inr ()" "distinct (map ib_tag pre)"
    and "set tags \<inter> ib_tag ` set pre = {}" "validate_inbound ext ib = Inl e"
  shows "validate_inbounds ext tags (pre @ ib # post) = Inl e"
  using assms
proof (induction pre arbitrary: tags)
  case Nil
  then show ?case by (simp add: checks_def)
next
  case (Cons p pre)
  then have "validate_inbounds ext (ib_tag p # tags) (pre @ ib # post) = Inl e" by (intro Cons.IH) auto
  with Cons.prems show ?case by (auto simp: checks_def fail_if_def ensure_def)
qed

text \<open>
  Validation reports the first inbound that is wrong: if the inbounds before it are valid with
  different tags, the result is the error of that inbound, whatever follows.
\<close>

theorem first_invalid_inbound_reported:
  assumes "trim (cc_instance_id cfg) \<noteq> []" "cc_inbounds cfg = pre @ ib # post"
    and "\<forall>p \<in> set pre. validate_inbound ext p = Inr ()" "distinct (map ib_tag pre)"
    and "validate_inbound ext ib = Inl e"
  shows "validate ext cfg = Inl e"
  using assms validate_inbounds_first_error [OF assms(3,4) _ assms(5), of "[]" post]
  by (simp add: validate_def checks_def fail_if_def ensure_def)

theorem first_invalid_inbound_reported_witness:
  "validate example_ext (example_config ((example_inbound Socks None)\<lparr>ib_port := 0\<rparr>)) = Inl (Err ''in port is required'')"
  by (rule first_invalid_inbound_reported [of _ "[]" "(example_inbound Socks None)\<lparr>ib_port := 0\<rparr>" "[]"], code_simp, simp add: example_config_def, simp, simp, code_simp)

end
