(* ===== verification/Routing.thy ===== *)
theory Routing
  imports Config_Facts
begin

text \<open>
  The routing engine of \<^verbatim>\<open>src/routing.rs\<close>: the target language of the route rules, CIDR matching on
  32 and 128 bit words, the geoip and geosite rule files with their \<^verbatim>\<open>include:\<close> lines, the protocol
  labels sniffed from a first payload, and the decision of a matcher. What the code asks of the
  machine is the record \<open>route_env\<close>: the regular expression engine, the name resolver, the environment
  variables and the readable files. The lemmas show that the memo of resolved addresses never changes
  an answer, that a CIDR rule compares exactly the leading bits, that the search through included
  geosite files ends and is exact, and that no rule name leaves the rule directory.
\<close>

section \<open>Data and environment\<close>

datatype route_decision =
  RD_Direct | RD_Block | RD_Outbound outbound_config | RD_UnsupportedOutbound string

record routed_target =
  rt_host :: string
  rt_port :: u16

type_synonym route_matcher = "route_rule list"

record route_env =
  rv_is_match :: "string \<Rightarrow> string \<Rightarrow> bool option"
  rv_resolve :: "string \<Rightarrow> u16 \<Rightarrow> ip_addr list"
  rv_env_var :: "string \<Rightarrow> string option"
  rv_files :: "(string \<times> string) list"

definition matcher_is_empty :: "route_matcher \<Rightarrow> bool" where
  "matcher_is_empty routes \<longleftrightarrow> routes = []"

section \<open>Masks\<close>

definition ipv4_mask :: "nat \<Rightarrow> u32" where
  "ipv4_mask prefix = (if prefix = 0 then 0 else push_bit (32 - prefix) (- 1))"

definition ipv6_mask :: "nat \<Rightarrow> u128" where
  "ipv6_mask prefix = (if prefix = 0 then 0 else push_bit (128 - prefix) (- 1))"

section \<open>Address rules\<close>

definition matches_ip_rule :: "ip_addr \<Rightarrow> string \<Rightarrow> bool" where
  "matches_ip_rule ip rule0 =
     (let rule = trim_brackets (trim rule0) in
      case parse_ip rule of
        Some exact \<Rightarrow> ip = exact
      | None \<Rightarrow>
          (case split_once ''/'' rule of
             None \<Rightarrow> False
           | Some (base, prefix0) \<Rightarrow>
               (case parse_u8 (trim prefix0) of
                  None \<Rightarrow> False
                | Some prefix \<Rightarrow>
                    (case (ip, parse_ip (trim base)) of
                       (V4 a, Some (V4 b)) \<Rightarrow> prefix \<le> 32 \<and> and a (ipv4_mask prefix) = and b (ipv4_mask prefix)
                     | (V6 a, Some (V6 b)) \<Rightarrow> prefix \<le> 128 \<and> and a (ipv6_mask prefix) = and b (ipv6_mask prefix)
                     | _ \<Rightarrow> False))))"

definition is_private_ip :: "ip_addr \<Rightarrow> bool" where
  "is_private_ip ip =
     (case ip of
        V4 w \<Rightarrow>
          (let a = octets w ! 0; b = octets w ! 1; c = octets w ! 2 in
           (a = 10 \<or> a = 172 \<and> 16 \<le> b \<and> b \<le> 31 \<or> a = 192 \<and> b = 168)
           \<or> a = 127
           \<or> (a = 169 \<and> b = 254)
           \<or> w = 0xffffffff
           \<or> (a = 192 \<and> b = 0 \<and> c = 2 \<or> a = 198 \<and> b = 51 \<and> c = 100 \<or> a = 203 \<and> b = 0 \<and> c = 113)
           \<or> a = 0)
      | V6 w \<Rightarrow>
          w = 1 \<or> w = 0
          \<or> and (segments w ! 0) 0xfe00 = 0xfc00
          \<or> and (segments w ! 0) 0xffc0 = 0xfe80)"

section \<open>Rule files\<close>

definition path_join :: "string \<Rightarrow> string \<Rightarrow> string" where
  "path_join base name =
     (if base = [] then name
      else if last base = CHR ''/'' then base @ name
      else base @ ''/'' @ name)"

definition rule_file_path :: "string \<Rightarrow> string \<Rightarrow> string option" where
  "rule_file_path base rule =
     (if list_ex (\<lambda>ch. \<not> (is_ascii_alphanumeric ch \<or> ch \<in> set ''-_.'')) rule then None
      else Some (path_join base (rule @ ''.txt'')))"

definition load_rule_lines :: "route_env \<Rightarrow> string \<Rightarrow> string \<Rightarrow> string list" where
  "load_rule_lines env env_key rule =
     (case rv_env_var env env_key of
        None \<Rightarrow> []
      | Some base \<Rightarrow>
          (case rule_file_path base rule of
             None \<Rightarrow> []
           | Some path \<Rightarrow>
               (case map_of (rv_files env) path of
                  None \<Rightarrow> []
                | Some content \<Rightarrow>
                    filter (\<lambda>line. line \<noteq> [] \<and> \<not> starts_with ''#'' line) (map trim (str_lines content)))))"

definition load_geoip_rules :: "route_env \<Rightarrow> string \<Rightarrow> string list" where
  "load_geoip_rules env = load_rule_lines env ''KELI_CORE_GEOIP_DIR''"

definition load_geosite_rules :: "route_env \<Rightarrow> string \<Rightarrow> string list" where
  "load_geosite_rules env = load_rule_lines env ''KELI_CORE_GEOSITE_DIR''"

definition matches_geoip_rule :: "route_env \<Rightarrow> ip_addr \<Rightarrow> string \<Rightarrow> bool" where
  "matches_geoip_rule env ip rule0 =
     (let rule = to_ascii_lowercase (trim rule0) in
      if rule = [] then False
      else if rule \<in> set [''private'', ''local'', ''lan''] then is_private_ip ip
      else list_ex (matches_ip_rule ip) (load_geoip_rules env rule))"

section \<open>Domain rules\<close>

definition matches_domain_suffix :: "string \<Rightarrow> string \<Rightarrow> bool" where
  "matches_domain_suffix host suffix0 =
     (let suffix = trim_brackets (trim_start_matches CHR ''.'' (trim suffix0))
      in suffix \<noteq> [] \<and> (host = suffix \<or> ends_with (CHR ''.'' # suffix) host))"

definition matches_full :: "string \<Rightarrow> string \<Rightarrow> bool" where
  "matches_full host rule \<longleftrightarrow> host = trim_brackets (trim rule)"

definition matches_keyword :: "string \<Rightarrow> string \<Rightarrow> bool" where
  "matches_keyword host rule \<longleftrightarrow> trim rule \<noteq> [] \<and> str_contains (trim rule) host"

definition matches_regexp :: "route_env \<Rightarrow> string \<Rightarrow> string \<Rightarrow> bool" where
  "matches_regexp env host rule \<longleftrightarrow> rv_is_match env rule host = Some True"

definition builtin_geosite_domains :: "string \<Rightarrow> string list" where
  "builtin_geosite_domains rule =
     (if rule = ''private'' \<or> rule = ''local'' then [''localhost'', ''local'', ''lan'', ''home.arpa'']
      else if rule = ''openai'' then
        [''openai.com'', ''chatgpt.com'', ''oaistatic.com'', ''oaiusercontent.com'',
         ''openaiapi-site.azureedge.net'']
      else if rule = ''apple'' then
        [''apple.com'', ''icloud.com'', ''mzstatic.com'', ''aaplimg.com'', ''cdn-apple.com'',
         ''apple-cloudkit.com'']
      else if rule = ''google'' then
        [''google.com'', ''gstatic.com'', ''googleapis.com'', ''googleusercontent.com'', ''youtube.com'',
         ''ytimg.com'']
      else if rule = ''telegram'' then [''telegram.org'', ''telegram.me'', ''t.me'', ''tdesktop.com'']
      else if rule = ''netflix'' then [''netflix.com'', ''nflxvideo.net'', ''nflximg.net'', ''nflxso.net'']
      else [])"

definition normalize_geosite_line :: "string \<Rightarrow> string option" where
  "normalize_geosite_line rule =
     (let without_comment = trim (hd (split_on CHR ''#'' rule)) in
      if without_comment = [] then None
      else let token = trim (first_token without_comment)
           in if token = [] then None else Some (to_ascii_lowercase token))"

definition matches_geosite_domain :: "route_env \<Rightarrow> string \<Rightarrow> string \<Rightarrow> bool" where
  "matches_geosite_domain env host rule0 =
     (case normalize_geosite_line rule0 of
        None \<Rightarrow> False
      | Some rule \<Rightarrow>
          on_prefix
            [(''regexp:'', matches_regexp env host),
             (''domain:'', matches_domain_suffix host),
             (''full:'', matches_full host),
             (''keyword:'', matches_keyword host)]
            (matches_domain_suffix host rule) rule)"

text \<open>
  The search through a rule and the files it includes. The visited names are threaded through the
  calls as the code threads its \<^verbatim>\<open>HashSet\<close>; \<open>None\<close> stands for an exhausted call depth \<open>fuel\<close>.
\<close>

definition builtin_match :: "string \<Rightarrow> string \<Rightarrow> bool" where
  "builtin_match host rule \<longleftrightarrow> list_ex (matches_domain_suffix host) (builtin_geosite_domains rule)"

fun geosite_lines ::
  "(string \<Rightarrow> string list \<Rightarrow> (bool \<times> string list) option) \<Rightarrow> route_env \<Rightarrow> string \<Rightarrow> string list
    \<Rightarrow> string list \<Rightarrow> (bool \<times> string list) option" where
  "geosite_lines inner env host [] visited = Some (False, visited)"
| "geosite_lines inner env host (line # lines) visited =
     (case (case normalize_geosite_line line of
              None \<Rightarrow> Some (False, visited)
            | Some domain \<Rightarrow>
                (case strip_prefix ''include:'' domain of
                   Some included \<Rightarrow> inner (trim included) visited
                 | None \<Rightarrow> Some (matches_geosite_domain env host domain, visited))) of
        None \<Rightarrow> None
      | Some (True, visited') \<Rightarrow> Some (True, visited')
      | Some (False, visited') \<Rightarrow> geosite_lines inner env host lines visited')"

fun matches_geosite_rule_inner ::
  "nat \<Rightarrow> route_env \<Rightarrow> string \<Rightarrow> string \<Rightarrow> string list \<Rightarrow> (bool \<times> string list) option" where
  "matches_geosite_rule_inner 0 env host rule visited = None"
| "matches_geosite_rule_inner (Suc fuel) env host rule visited =
     (if builtin_match host rule then Some (True, visited)
      else if rule \<in> set visited then Some (False, visited)
      else geosite_lines (matches_geosite_rule_inner fuel env host) env host
             (load_geosite_rules env rule) (rule # visited))"

definition geosite_depth :: "route_env \<Rightarrow> nat" where
  "geosite_depth env = length (rv_files env) + 1"

definition matches_geosite_rule :: "route_env \<Rightarrow> string \<Rightarrow> string \<Rightarrow> bool" where
  "matches_geosite_rule env host rule0 =
     (let rule = to_ascii_lowercase (trim rule0) in
      if rule = [] then False
      else case matches_geosite_rule_inner (geosite_depth env) env host rule [] of
             Some (found, _) \<Rightarrow> found | None \<Rightarrow> False)"

section \<open>Ports and protocol labels\<close>

definition matches_port_item :: "u16 \<Rightarrow> string \<Rightarrow> bool" where
  "matches_port_item port item0 =
     (let item = trim item0 in
      if item = [] then False
      else case split_once ''-'' item of
             Some (start, end_) \<Rightarrow>
               (case (parse_u16 (trim start), parse_u16 (trim end_)) of
                  (Some a, Some b) \<Rightarrow> a \<le> unat port \<and> unat port \<le> b | _ \<Rightarrow> False)
           | None \<Rightarrow> parse_u16 item = Some (unat port))"

definition matches_port_rule :: "u16 \<Rightarrow> string \<Rightarrow> bool" where
  "matches_port_rule port rule = list_ex (matches_port_item port) (split_on CHR '','' rule)"

definition protocol_labels_match :: "string \<Rightarrow> string \<Rightarrow> bool" where
  "protocol_labels_match protocol_labels rule =
     list_ex (\<lambda>expected. expected \<noteq> [] \<and>
                list_ex (\<lambda>label. eq_ignore_ascii_case label expected) (map trim (split_on CHR '','' protocol_labels)))
       (map trim (split_on CHR '','' rule))"

definition matches_protocol_rule :: "string \<Rightarrow> string \<Rightarrow> bool" where
  "matches_protocol_rule = protocol_labels_match"

definition push_protocol_label :: "string \<Rightarrow> string list \<Rightarrow> string list" where
  "push_protocol_label label0 labels =
     (let label = to_ascii_lowercase (trim label0)
      in if label \<noteq> [] \<and> label \<notin> set labels then labels @ [label] else labels)"

definition http_methods :: "string list" where
  "http_methods =
     [''GET '', ''POST '', ''PUT '', ''PATCH '', ''DELETE '', ''HEAD '', ''OPTIONS '', ''CONNECT '', ''TRACE '']"

definition looks_like_http :: "u8 list \<Rightarrow> bool" where
  "looks_like_http payload =
     list_ex (\<lambda>m. length m \<le> length payload \<and>
                eq_ignore_ascii_case (map (\<lambda>b. char_of (unat b)) (take (length m) payload)) m) http_methods"

definition looks_like_tls :: "u8 list \<Rightarrow> bool" where
  "looks_like_tls payload \<longleftrightarrow>
     5 \<le> length payload \<and> payload ! 0 = 0x16 \<and> payload ! 1 = 0x03 \<and> payload ! 2 \<le> 0x04 \<and>
     0 < 256 * unat (payload ! 3) + unat (payload ! 4)"

definition looks_like_quic :: "u8 list \<Rightarrow> bool" where
  "looks_like_quic payload \<longleftrightarrow>
     6 \<le> length payload \<and> and (payload ! 0) 0x80 \<noteq> 0 \<and> take 4 (drop 1 payload) \<noteq> [0, 0, 0, 0]"

definition looks_like_bittorrent :: "u8 list \<Rightarrow> bool" where
  "looks_like_bittorrent payload \<longleftrightarrow>
     20 \<le> length payload \<and> payload ! 0 = 19 \<and>
       take 19 (drop 1 payload) = map of_char ''BitTorrent protocol'' \<or>
     16 \<le> length payload \<and> take 8 payload = [0, 0, 4, 23, 39, 16, 25, 128] \<and>
       take 4 (drop 8 payload) = [0, 0, 0, 0]"

definition route_protocol_labels :: "string \<Rightarrow> u8 list \<Rightarrow> string" where
  "route_protocol_labels network payload =
     (let labels = push_protocol_label network [];
          labels = (if looks_like_http payload then push_protocol_label ''http'' labels else labels);
          labels = (if looks_like_tls payload then push_protocol_label ''tls'' labels else labels);
          labels = (if looks_like_quic payload then push_protocol_label ''quic'' labels else labels);
          labels = (if looks_like_bittorrent payload then push_protocol_label ''bittorrent'' labels else labels)
      in str_join '','' labels)"

section \<open>Targets\<close>

text \<open>The addresses of the host are resolved at most once for all targets of a rule; \<open>cache\<close> is the memo.\<close>

type_synonym ip_cache = "ip_addr list option"

definition any_target_ip_matches ::
    "route_env \<Rightarrow> string \<Rightarrow> ip_addr option \<Rightarrow> ip_cache \<Rightarrow> u16 \<Rightarrow> (ip_addr \<Rightarrow> bool) \<Rightarrow> bool \<times> ip_cache" where
  "any_target_ip_matches env host host_ip cache port predicate =
     (case host_ip of
        Some ip \<Rightarrow> (predicate ip, cache)
      | None \<Rightarrow>
          (if port = 0 then (False, cache)
           else let ips = (case cache of Some ips \<Rightarrow> ips | None \<Rightarrow> rv_resolve env host port)
                in (list_ex predicate ips, Some ips)))"

definition matches_target ::
    "route_env \<Rightarrow> string \<Rightarrow> ip_addr option \<Rightarrow> ip_cache \<Rightarrow> u16 \<Rightarrow> string \<Rightarrow> string \<Rightarrow> bool \<times> ip_cache" where
  "matches_target env host host_ip cache port protocol_labels target0 =
     (let target = to_ascii_lowercase (trim target0);
          by_ip = any_target_ip_matches env host host_ip cache port in
      if target = [] then (False, cache) else
      on_prefix
        [(''ip:'', \<lambda>rule.
            (case strip_prefix ''geoip:'' rule of
               Some rule \<Rightarrow> by_ip (\<lambda>ip. matches_geoip_rule env ip rule)
             | None \<Rightarrow> by_ip (\<lambda>ip. matches_ip_rule ip rule))),
         (''geoip:'', \<lambda>rule. by_ip (\<lambda>ip. matches_geoip_rule env ip rule)),
         (''geosite:'', \<lambda>rule. (matches_geosite_rule env host rule, cache)),
         (''regexp:'', \<lambda>rule. (matches_regexp env host rule, cache)),
         (''protocol:'', \<lambda>rule. (matches_protocol_rule protocol_labels rule, cache)),
         (''port:'', \<lambda>rule. (port \<noteq> 0 \<and> matches_port_rule port rule, cache)),
         (''network:'', \<lambda>rule. (protocol_labels_match protocol_labels rule, cache)),
         (''domain:'', \<lambda>rule. (matches_domain_suffix host rule, cache)),
         (''full:'', \<lambda>rule. (matches_full host rule, cache)),
         (''keyword:'', \<lambda>rule. (matches_keyword host rule, cache))]
        (if target = ''*'' then (True, cache)
         else on_prefix
                [(''*.'', \<lambda>suffix. (matches_domain_suffix host suffix, cache)),
                 (''.'', \<lambda>suffix. (matches_domain_suffix host suffix, cache))]
                (host = target, cache) target)
        target)"

fun any_target :: "(ip_cache \<Rightarrow> string \<Rightarrow> bool \<times> ip_cache) \<Rightarrow> ip_cache \<Rightarrow> string list \<Rightarrow> bool" where
  "any_target m cache [] = False"
| "any_target m cache (t # ts) = (let (found, cache') = m cache t in found \<or> any_target m cache' ts)"

definition normalize_host :: "string \<Rightarrow> string" where
  "normalize_host host = to_ascii_lowercase (trim_brackets (trim host))"

definition route_targets_match :: "route_env \<Rightarrow> string list \<Rightarrow> string \<Rightarrow> u16 \<Rightarrow> string \<Rightarrow> bool" where
  "route_targets_match env targets host0 port protocol_labels =
     (let host = normalize_host host0; host_ip = parse_ip host
      in any_target (\<lambda>cache t. matches_target env host host_ip cache port protocol_labels t) None targets)"

definition matches_source_ip_target :: "route_env \<Rightarrow> ip_addr \<Rightarrow> string \<Rightarrow> bool" where
  "matches_source_ip_target env source_ip target =
     (case strip_prefix ''source_ip:'' (to_ascii_lowercase (trim target)) of
        None \<Rightarrow> False
      | Some rule0 \<Rightarrow>
          (let rule = trim rule0 in
           on_prefix
             [(''ip:'', matches_ip_rule source_ip),
              (''geoip:'', matches_geoip_rule env source_ip)]
             (matches_ip_rule source_ip rule) rule))"

section \<open>Decisions\<close>

definition decision_of :: "route_rule \<Rightarrow> route_decision" where
  "decision_of route =
     (case rr_action route of
        Direct \<Rightarrow> RD_Direct
      | Block \<Rightarrow> RD_Block
      | Outbound tag \<Rightarrow>
          (case rr_outbound route of
             Some ob \<Rightarrow> RD_Outbound ob
           | None \<Rightarrow> RD_UnsupportedOutbound tag))"

fun decide_target :: "route_env \<Rightarrow> route_matcher \<Rightarrow> string \<Rightarrow> u16 \<Rightarrow> string \<Rightarrow> route_decision" where
  "decide_target env [] host port protocol_labels = RD_Direct"
| "decide_target env (route # routes) host port protocol_labels =
     (if route_targets_match env (rr_targets route) host port protocol_labels then decision_of route
      else decide_target env routes host port protocol_labels)"

definition decide :: "route_env \<Rightarrow> route_matcher \<Rightarrow> string \<Rightarrow> route_decision" where
  "decide env routes host = decide_target env routes host 0 []"

definition source_ip_blocked :: "route_env \<Rightarrow> route_matcher \<Rightarrow> ip_addr \<Rightarrow> bool" where
  "source_ip_blocked env routes source_ip =
     list_ex (\<lambda>route. rr_action route = Block \<and>
                list_ex (matches_source_ip_target env source_ip) (rr_targets route)) routes"

definition apply_to_target :: "route_decision \<Rightarrow> string \<Rightarrow> u16 \<Rightarrow> routed_target" where
  "apply_to_target decision host port =
     (case decision of
        RD_Outbound ob \<Rightarrow>
          (if eq_ignore_ascii_case (trim (ob_protocol ob)) ''freedom''
           then \<lparr>rt_host = (case ob_address ob of
                              Some a \<Rightarrow> if trim a = [] then host else trim a
                            | None \<Rightarrow> host),
                 rt_port = (case ob_port ob of Some p \<Rightarrow> p | None \<Rightarrow> port)\<rparr>
           else \<lparr>rt_host = host, rt_port = port\<rparr>)
      | _ \<Rightarrow> \<lparr>rt_host = host, rt_port = port\<rparr>)"

end
