(* ===== verification/Routing_Facts.thy ===== *)
theory Routing_Facts
  imports Routing
begin

text \<open>
  The properties of the routing engine. An address rule is reduced to a base and a prefix length
  (\<open>address_rule\<close>, \<open>in_block\<close>), which the validator and the matcher share; the memo of resolved addresses is
  related to no memo by one relation on answers; the search through included rule files is compared with
  the inductive \<open>geosite_selects\<close>, by an invariant on the visited names for negative answers and by a count
  of the files not yet visited for termination.
\<close>

section \<open>Leading bits\<close>

lemma mask_eq_iff:
  fixes a b :: "'a::len word"
  shows "and a (push_bit k (- 1)) = and b (push_bit k (- 1)) \<longleftrightarrow>
    (\<forall>n \<in> {k..<LENGTH('a)}. bit a n = bit b n)"
  by (auto simp: bit_eq_iff bit_and_iff bit_push_bit_iff bit_not_iff bit_mask_iff Ball_def)

text \<open>The addresses of a block: those of the same family that agree with its base in the first \<open>p\<close> bits.\<close>

fun in_block :: "ip_addr \<Rightarrow> nat \<Rightarrow> ip_addr \<Rightarrow> bool" where
  "in_block (V4 b) p (V4 a) \<longleftrightarrow> (\<forall>n \<in> {32 - p..<32}. bit a n = bit b n)"
| "in_block (V6 b) p (V6 a) \<longleftrightarrow> (\<forall>n \<in> {128 - p..<128}. bit a n = bit b n)"
| "in_block _ p _ \<longleftrightarrow> False"

lemma in_block_self [simp]: "in_block base p base"
  by (cases base) simp_all

lemma ipv4_mask_iff: "and a (ipv4_mask p) = and b (ipv4_mask p) \<longleftrightarrow> in_block (V4 b) p (V4 a)"
  using mask_eq_iff [of a "32 - p" b] by (simp add: ipv4_mask_def)

lemma ipv6_mask_iff: "and a (ipv6_mask p) = and b (ipv6_mask p) \<longleftrightarrow> in_block (V6 b) p (V6 a)"
  using mask_eq_iff [of a "128 - p" b] by (simp add: ipv6_mask_def)

lemma in_block_full:
  "in_block (V4 b) 32 ip \<longleftrightarrow> ip = V4 b" "in_block (V6 c) 128 ip \<longleftrightarrow> ip = V6 c"
  by (cases ip; force simp: bit_eq_iff dest: bit_imp_le_length)+

section \<open>Address rules\<close>

definition address_rule :: "string \<Rightarrow> (ip_addr \<times> nat) option" where
  "address_rule rule0 =
     (let rule = trim_brackets (trim rule0) in
      case parse_ip rule of
        Some (V4 a) \<Rightarrow> Some (V4 a, 32) | Some (V6 a) \<Rightarrow> Some (V6 a, 128)
      | None \<Rightarrow>
          (case split_once ''/'' rule of None \<Rightarrow> None
           | Some (b, n) \<Rightarrow>
               (case (parse_ip (trim b), parse_u8 (trim n)) of
                  (Some (V4 a), Some p) \<Rightarrow> if p \<le> 32 then Some (V4 a, p) else None
                | (Some (V6 a), Some p) \<Rightarrow> if p \<le> 128 then Some (V6 a, p) else None
                | _ \<Rightarrow> None)))"

lemma matches_ip_rule_iff:
  "matches_ip_rule ip rule \<longleftrightarrow> (case address_rule rule of None \<Rightarrow> False | Some (base, p) \<Rightarrow> in_block base p ip)"
  by (cases ip)
     (auto simp: matches_ip_rule_def address_rule_def Let_def ipv4_mask_iff ipv6_mask_iff in_block_full
        simp del: in_block.simps(1,2) split: option.splits prod.splits ip_addr.splits)

lemma supported_ip_rule_iff:
  "is_supported_ip_route_rule rule \<longleftrightarrow>
     (case strip_prefix ''geoip:'' (trim_brackets (trim rule)) of
        Some r \<Rightarrow> trim r \<noteq> [] | None \<Rightarrow> address_rule rule \<noteq> None)"
  by (auto simp: is_supported_ip_route_rule_def address_rule_def Let_def
        split: option.splits prod.splits ip_addr.splits)

lemma address_rule_iff_matches: "address_rule rule \<noteq> None \<longleftrightarrow> (\<exists>ip. matches_ip_rule ip rule)"
  by (cases "address_rule rule") (auto simp: matches_ip_rule_iff intro: in_block_self)

section \<open>Port rules\<close>

lemma supported_port_item_iff: "is_supported_port_item item \<longleftrightarrow> (\<exists>port. matches_port_item port item)"
proof -
  have port: "(\<exists>port :: u16. a \<le> unat port \<and> unat port \<le> b) \<longleftrightarrow> a \<le> b"
    if "parse_u16 s = Some b" for a b s
  proof
    have "b \<le> 65535" using that parse_radix_bound [of 10 65535 s b] by (simp add: parse_u16_def)
    then have "unat (of_nat b :: u16) = b" by (simp add: unat_of_nat)
    then show "\<exists>port :: u16. a \<le> unat port \<and> unat port \<le> b" if "a \<le> b" using that by (metis order_refl)
  qed auto
  have single: "\<exists>port :: u16. n = unat port" if "parse_u16 s = Some n" for s n
    using port [OF that, of n] by (meson le_antisym order_refl)
  show ?thesis
  proof (cases "split_once ''-'' (trim item)")
    case None
    then show ?thesis by (auto simp: is_supported_port_item_def matches_port_item_def Let_def dest: single)
  next
    case (Some ab)
    then obtain x y where xy: "split_once ''-'' (trim item) = Some (x, y)" by (cases ab) auto
    show ?thesis
      by (cases "parse_u16 (trim x)"; cases "parse_u16 (trim y)")
         (simp_all add: is_supported_port_item_def matches_port_item_def Let_def xy port)
  qed
qed

section \<open>The memo of resolved addresses\<close>

definition cache_ok :: "route_env \<Rightarrow> string \<Rightarrow> u16 \<Rightarrow> ip_cache \<Rightarrow> bool" where
  "cache_ok env host port cache \<longleftrightarrow> cache = None \<or> cache = Some (rv_resolve env host port)"

lemma any_target_ip_matches_cache:
  assumes "cache_ok env host port cache"
  shows "fst (any_target_ip_matches env host host_ip cache port q) = fst (any_target_ip_matches env host host_ip None port q)"
    and "cache_ok env host port (snd (any_target_ip_matches env host host_ip cache port q))"
  using assms by (auto simp: any_target_ip_matches_def cache_ok_def Let_def split: option.splits)

lemma on_prefix_rel:
  assumes "list_all2 (\<lambda>(p, f) (p', g). p = p' \<and> (\<forall>r. R (f r) (g r))) fs gs" "R d e"
  shows "R (on_prefix fs d s) (on_prefix gs e s)"
  using assms by (induction fs gs rule: list_all2_induct) (auto split: option.splits)

lemma matches_target_cache:
  assumes "cache_ok env host port cache"
  shows "fst (matches_target env host host_ip cache port labels t) = fst (matches_target env host host_ip None port labels t) \<and>
    cache_ok env host port (snd (matches_target env host host_ip cache port labels t))"
proof -
  define R where "R x y \<longleftrightarrow> fst x = fst y \<and> cache_ok env host port (snd x)" for x y :: "bool \<times> ip_cache"
  have pure: "R (b, cache) (b, None)" for b using assms by (simp add: R_def)
  have if_rel: "R x y \<Longrightarrow> R x' y' \<Longrightarrow> R (if P then x else x') (if P then y else y')" for P x y x' y'
    by simp
  have ip: "R (any_target_ip_matches env host host_ip cache port q) (any_target_ip_matches env host host_ip None port q)" for q
    using any_target_ip_matches_cache [OF assms] by (simp add: R_def)
  have "R (matches_target env host host_ip cache port labels t) (matches_target env host host_ip None port labels t)"
    unfolding matches_target_def Let_def
    by (rule if_rel [OF pure], rule on_prefix_rel, simp add: pure ip split: option.split,
        rule if_rel [OF pure], rule on_prefix_rel) (simp_all add: pure)
  then show ?thesis by (simp add: R_def)
qed

lemma any_target_iff:
  "cache_ok env host port cache \<Longrightarrow>
   any_target (\<lambda>cache t. matches_target env host host_ip cache port labels t) cache ts \<longleftrightarrow>
     (\<exists>t \<in> set ts. fst (matches_target env host host_ip None port labels t))"
proof (induction ts arbitrary: cache)
  case (Cons t ts)
  obtain f c where m: "matches_target env host host_ip cache port labels t = (f, c)" by fastforce
  then have "f = fst (matches_target env host host_ip None port labels t)" "cache_ok env host port c"
    using matches_target_cache [OF Cons.prems, of host_ip labels t] by auto
  with Cons.IH m show ?case by simp
qed simp

section \<open>The search through included rule files\<close>

definition line_include :: "string \<Rightarrow> string option" where
  "line_include line =
     (case normalize_geosite_line line of
        None \<Rightarrow> None | Some d \<Rightarrow> map_option trim (strip_prefix ''include:'' d))"

definition line_matches :: "route_env \<Rightarrow> string \<Rightarrow> string \<Rightarrow> bool" where
  "line_matches env host line \<longleftrightarrow>
     (case normalize_geosite_line line of
        None \<Rightarrow> False
      | Some d \<Rightarrow> strip_prefix ''include:'' d = None \<and> matches_geosite_domain env host d)"

text \<open>The hosts a rule stands for: its built-in domains, its lines and those of the rules it includes.\<close>

inductive geosite_selects :: "route_env \<Rightarrow> string \<Rightarrow> string \<Rightarrow> bool" for env host where
  builtin: "builtin_match host rule \<Longrightarrow> geosite_selects env host rule"
| own_line: "line \<in> set (load_geosite_rules env rule) \<Longrightarrow> line_matches env host line \<Longrightarrow> geosite_selects env host rule"
| included: "line \<in> set (load_geosite_rules env rule) \<Longrightarrow> line_include line = Some r \<Longrightarrow>
    geosite_selects env host r \<Longrightarrow> geosite_selects env host rule"

lemma geosite_lines_Cons:
  "geosite_lines inner env host (line # lines) v =
     (case (case line_include line of Some r \<Rightarrow> inner r v | None \<Rightarrow> Some (line_matches env host line, v)) of
        None \<Rightarrow> None
      | Some (True, v') \<Rightarrow> Some (True, v')
      | Some (False, v') \<Rightarrow> geosite_lines inner env host lines v')"
  by (simp add: line_include_def line_matches_def split: option.split)

declare geosite_lines.simps(2) [simp del]

lemma line_include_no_match: "line_include line = Some r \<Longrightarrow> \<not> line_matches env host line"
  by (auto simp: line_include_def line_matches_def split: option.splits)

lemma geosite_lines_True:
  assumes "geosite_lines inner env host lines v = Some (True, v')"
    and "\<And>r u u'. inner r u = Some (True, u') \<Longrightarrow> geosite_selects env host r"
  shows "\<exists>line \<in> set lines. line_matches env host line \<or> (\<exists>r. line_include line = Some r \<and> geosite_selects env host r)"
  using assms(1)
proof (induction lines arbitrary: v)
  case (Cons line lines)
  then show ?case
    using assms(2) by (fastforce simp: geosite_lines_Cons split: option.splits bool.splits)
qed simp

lemma geosite_inner_True:
  "matches_geosite_rule_inner fuel env host rule v = Some (True, v') \<Longrightarrow> geosite_selects env host rule"
proof (induction fuel arbitrary: rule v v')
  case (Suc fuel)
  then show ?case
    using geosite_lines_True [of "matches_geosite_rule_inner fuel env host" env host "load_geosite_rules env rule" "rule # v" v']
    by (auto split: if_splits intro: geosite_selects.intros)
qed simp

text \<open>A negative answer leaves a set of visited names that no line and no include of them leads out of.\<close>

definition clear :: "route_env \<Rightarrow> string \<Rightarrow> string set \<Rightarrow> string \<Rightarrow> bool" where
  "clear env host V line \<longleftrightarrow> \<not> line_matches env host line \<and>
     (\<forall>r. line_include line = Some r \<longrightarrow> \<not> builtin_match host r \<and> r \<in> V)"

definition explored :: "route_env \<Rightarrow> string \<Rightarrow> string list \<Rightarrow> string list \<Rightarrow> bool" where
  "explored env host v v' \<longleftrightarrow> set v \<subseteq> set v' \<and>
     (\<forall>u \<in> set v' - set v. \<not> builtin_match host u \<and> (\<forall>line \<in> set (load_geosite_rules env u). clear env host (set v') line))"

lemma clear_mono: "clear env host V line \<Longrightarrow> V \<subseteq> W \<Longrightarrow> clear env host W line"
  by (auto simp: clear_def)

lemma explored_refl: "explored env host v v"
  by (simp add: explored_def)

lemma explored_trans: "explored env host u v \<Longrightarrow> explored env host v w \<Longrightarrow> explored env host u w"
  unfolding explored_def by (meson Diff_iff clear_mono subset_trans)

lemma geosite_lines_False:
  assumes "geosite_lines inner env host lines v = Some (False, v')"
    and "\<And>r u u'. inner r u = Some (False, u') \<Longrightarrow> explored env host u u' \<and> r \<in> set u' \<and> \<not> builtin_match host r"
  shows "explored env host v v' \<and> (\<forall>line \<in> set lines. clear env host (set v') line)"
  using assms(1)
proof (induction lines arbitrary: v)
  case Nil
  then show ?case by (simp add: explored_refl)
next
  case (Cons line lines)
  obtain w where w: "geosite_lines inner env host lines w = Some (False, v')"
    and step: "(case line_include line of Some r \<Rightarrow> inner r v | None \<Rightarrow> Some (line_matches env host line, v)) = Some (False, w)"
    using Cons.prems by (auto simp: geosite_lines_Cons split: option.splits bool.splits)
  have "explored env host v w \<and> clear env host (set w) line"
    using step assms(2) by (auto simp: clear_def explored_refl line_include_no_match split: option.splits)
  moreover note ih = Cons.IH [OF w]
  moreover have "set w \<subseteq> set v'" using ih by (simp add: explored_def)
  ultimately show ?case using explored_trans clear_mono by (metis set_ConsD)
qed

lemma geosite_inner_False:
  "matches_geosite_rule_inner fuel env host rule v = Some (False, v') \<Longrightarrow>
   explored env host v v' \<and> rule \<in> set v' \<and> \<not> builtin_match host rule"
proof (induction fuel arbitrary: rule v v')
  case (Suc fuel)
  show ?case
  proof (cases "rule \<in> set v")
    case True
    with Suc.prems show ?thesis by (auto simp: explored_refl split: if_splits)
  next
    case False
    with Suc.prems have b: "\<not> builtin_match host rule"
      and l: "geosite_lines (matches_geosite_rule_inner fuel env host) env host (load_geosite_rules env rule) (rule # v) = Some (False, v')"
      by (auto split: if_splits)
    from geosite_lines_False [OF l Suc.IH]
    have "explored env host (rule # v) v'" "\<forall>line \<in> set (load_geosite_rules env rule). clear env host (set v') line" by auto
    then show ?thesis using b by (auto simp: explored_def)
  qed
qed simp

lemma geosite_selects_explored:
  "geosite_selects env host rule \<Longrightarrow> explored env host [] v \<Longrightarrow> rule \<notin> set v"
  by (induction rule: geosite_selects.induct) (auto simp: explored_def clear_def)

section \<open>The search ends\<close>

abbreviation loadable :: "route_env \<Rightarrow> string set" where
  "loadable env \<equiv> {r. load_geosite_rules env r \<noteq> []}"

lemma path_join_inject: "path_join base a = path_join base b \<longleftrightarrow> a = b"
  by (simp add: path_join_def)

lemma rule_file_path_Some: "rule_file_path base rule = Some path \<Longrightarrow> path = path_join base (rule @ ''.txt'')"
  by (simp add: rule_file_path_def split: if_splits)

lemma loadable_files: "finite (loadable env) \<and> card (loadable env) \<le> length (rv_files env)"
proof (cases "rv_env_var env ''KELI_CORE_GEOSITE_DIR''")
  case None
  then show ?thesis by (simp add: load_geosite_rules_def load_rule_lines_def)
next
  case (Some base)
  let ?path = "\<lambda>r. path_join base (r @ ''.txt'')" and ?files = "fst ` set (rv_files env)"
  have "?path ` loadable env \<subseteq> ?files"
    using Some by (force simp: load_geosite_rules_def load_rule_lines_def dest!: rule_file_path_Some
      dest: map_of_SomeD split: option.splits)
  moreover have inj: "inj_on ?path (loadable env)" by (auto simp: inj_on_def path_join_inject)
  moreover have "card ?files \<le> length (rv_files env)"
    using card_image_le [of "set (rv_files env)" fst] card_length [of "rv_files env"] by simp
  ultimately show ?thesis
    by (meson List.finite_set card_inj_on_le finite_imageI inj_on_finite le_trans)
qed

lemma geosite_lines_total:
  assumes "card (loadable env - set v) < fuel"
    and "\<And>r u. card (loadable env - set u) < fuel \<Longrightarrow> \<exists>b u'. inner r u = Some (b, u') \<and> set u \<subseteq> set u'"
  shows "\<exists>b v'. geosite_lines inner env host lines v = Some (b, v') \<and> set v \<subseteq> set v'"
  using assms(1)
proof (induction lines arbitrary: v)
  case (Cons line lines)
  obtain b w where w: "(case line_include line of Some r \<Rightarrow> inner r v | None \<Rightarrow> Some (line_matches env host line, v)) = Some (b, w)"
    and sub: "set v \<subseteq> set w"
  proof (cases "line_include line")
    case (Some r)
    then show ?thesis using that assms(2) [OF Cons.prems, of r] by auto
  qed (use that in auto)
  have "card (loadable env - set w) \<le> card (loadable env - set v)"
    using sub loadable_files [of env] by (intro card_mono) auto
  then have "card (loadable env - set w) < fuel" using Cons.prems by simp
  from Cons.IH [OF this] obtain c x where "geosite_lines inner env host lines w = Some (c, x)" "set w \<subseteq> set x" by blast
  then show ?case using w sub by (cases b) (auto simp: geosite_lines_Cons)
qed (auto intro: exI [of _ False])

lemma geosite_inner_total:
  "card (loadable env - set v) < fuel \<Longrightarrow>
   \<exists>b v'. matches_geosite_rule_inner fuel env host rule v = Some (b, v') \<and> set v \<subseteq> set v'"
proof (induction fuel arbitrary: rule v)
  case (Suc fuel)
  show ?case
  proof (cases "rule \<in> loadable env \<and> rule \<notin> set v")
    case True
    then have "loadable env - set (rule # v) \<subset> loadable env - set v" by auto
    then have "card (loadable env - set (rule # v)) < card (loadable env - set v)"
      using loadable_files [of env] by (intro psubset_card_mono) auto
    then have "card (loadable env - set (rule # v)) < fuel" using Suc.prems by linarith
    then obtain b v' where l: "geosite_lines (matches_geosite_rule_inner fuel env host) env host
        (load_geosite_rules env rule) (rule # v) = Some (b, v')" "set (rule # v) \<subseteq> set v'"
      using geosite_lines_total [where inner = "matches_geosite_rule_inner fuel env host"] Suc.IH by blast
    show ?thesis
    proof (cases "builtin_match host rule")
      case False
      with l True show ?thesis by simp
    qed auto
  next
    case False
    then show ?thesis by auto
  qed
qed simp

section \<open>Text of a block\<close>

text \<open>A string of printable ASCII characters is not trimmed.\<close>

definition printable :: "string \<Rightarrow> bool" where
  "printable s \<longleftrightarrow> (\<forall>c \<in> set s. 32 < (of_char c :: nat) \<and> (of_char c :: nat) < 128)"

lemma trim_start_with_fix:
  assumes "\<forall>w \<in> set ws. w \<noteq> [] \<longrightarrow> hd w \<notin> set s"
  shows "trim_start_with ws s = s"
proof -
  have "\<not> (w \<noteq> [] \<and> starts_with w s)" if "w \<in> set ws" for w
    using assms that by (cases w) (auto simp: starts_with_iff)
  then have "find (\<lambda>w. w \<noteq> [] \<and> starts_with w s) ws = None" by (auto simp: find_None_iff)
  then show ?thesis by (subst trim_start_with.simps) simp
qed

lemma trim_printable: "printable s \<Longrightarrow> trim s = s"
proof -
  assume p: "printable s"
  have "\<forall>w \<in> set white_space. \<not> printable [hd w] \<and> \<not> printable [last w]"
    by (simp add: white_space_def printable_def)
  then have "\<forall>w \<in> set white_space. hd w \<notin> set s \<and> last w \<notin> set s"
    using p by (auto simp: printable_def)
  then show "trim s = s"
    by (simp add: trim_def trim_start_def trim_end_def trim_start_with_fix hd_rev)
qed

lemma trim_brackets_fix: "hd s \<notin> set ''[]'' \<Longrightarrow> last s \<notin> set ''[]'' \<Longrightarrow> trim_brackets s = s"
proof -
  assume a: "hd s \<notin> set ''[]''" "last s \<notin> set ''[]''"
  have d: "dropWhile (\<lambda>c. c \<in> set ''[]'') s = s" using a(1) by (simp add: dropWhile_eq_self_iff)
  have "dropWhile (\<lambda>c. c \<in> set ''[]'') (rev s) = rev s" using a(2) by (simp add: dropWhile_eq_self_iff hd_rev)
  then show ?thesis by (simp add: trim_matches_def d [simplified])
qed

lemma set_str_join: "c \<in> set (str_join sep xs) \<Longrightarrow> c \<in> set sep \<or> (\<exists>x \<in> set xs. c \<in> set x)"
  by (induction sep xs rule: str_join.induct) auto

lemma digit_char: "to_digit 10 c \<noteq> None \<Longrightarrow> 48 \<le> (of_char c :: nat) \<and> (of_char c :: nat) \<le> 57"
  by (auto simp: to_digit_def Let_def split: option.splits if_splits)

lemma show_nat_chars: "c \<in> set (show_nat n) \<Longrightarrow> 48 \<le> (of_char c :: nat) \<and> (of_char c :: nat) \<le> 57"
  using show_nat_digits digit_char by blast

lemma show_ipv4_chars: "c \<in> set (show_ipv4 w) \<Longrightarrow> 46 \<le> (of_char c :: nat) \<and> (of_char c :: nat) \<le> 57 \<and> c \<noteq> CHR ''/''"
  using show_nat_chars by (fastforce simp: show_ipv4_def dest!: set_str_join)

lemma show_ipv4_nonempty: "show_ipv4 w \<noteq> []"
  by (simp add: show_ipv4_def octets_def)

lemma read_ipv4_show_rest:
  assumes "stops 10 rest"
  shows "read_ipv4_addr (show_ipv4 w @ rest) = Some (octets w, rest)"
proof -
  obtain a b c d where o: "octets w = [a, b, c, d]" by (simp add: octets_def)
  then have "a \<le> 255" "b \<le> 255" "c \<le> 255" "d \<le> 255" using octets_bound [of _ w] by auto
  moreover have "(4 :: nat) = Suc (Suc (Suc (Suc 0)))" by simp
  ultimately have "read_octets 4 0 (str_join ''.'' (map show_nat [a, b, c, d]) @ rest) = Some ([a, b, c, d], rest)"
    by (simp only: read_octets.simps)
       (simp add: read_separator_def read_number_show_nat dot_stops assms)
  then show ?thesis by (simp add: read_ipv4_addr_def show_ipv4_def o)
qed

lemma address_rule_block:
  assumes "p \<le> 32"
  shows "address_rule (show_ipv4 b @ ''/'' @ show_nat p) = Some (V4 b, p)"
proof -
  let ?s = "show_ipv4 b @ ''/'' @ show_nat p"
  have pr: "printable ?s" "printable (show_ipv4 b)" "printable (show_nat p)"
    using show_ipv4_chars [of _ b] show_nat_chars [of _ p] by (fastforce simp: printable_def)+
  have "hd ?s \<notin> set ''[]''" "last ?s \<notin> set ''[]''"
    using show_ipv4_chars [of "hd (show_ipv4 b)" b] show_nat_chars [of "last (show_nat p)" p] show_ipv4_nonempty [of b]
    by auto
  then have body: "trim_brackets (trim ?s) = ?s" 
    unfolding trim_printable [OF pr(1)] by (rule trim_brackets_fix)
  have "stops 10 (''/'' @ show_nat p)" by (simp add: stops_def to_digit_def)
  then have none: "parse_ip ?s = None" by (simp only: parse_ip_def read_ipv4_show_rest) simp
  have "CHR ''/'' \<notin> set (show_ipv4 b)" using show_ipv4_chars by blast
  then have split: "split_once ''/'' ?s = Some (show_ipv4 b, show_nat p)" using split_once_sep [of "CHR ''/''"] by simp
  have "parse_ip (show_ipv4 b) = Some (V4 b)" using parse_show_ipv4 by simp
  then show ?thesis
    using assms parse_radix_show_nat [of p 255]
    unfolding address_rule_def Let_def body none split
    by (simp add: trim_printable [OF pr(2)] trim_printable [OF pr(3)] parse_u8_def)
qed

section \<open>Properties\<close>




text \<open>
  Some accepted targets never match: a space after \<^verbatim>\<open>ip:\<close> hides the country prefix from the matcher,
  and a domain of brackets only is emptied by it.
\<close>

theorem accepted_targets_that_never_match:
  "validate_route_target ext action ''ip: geoip:cn'' = Inr () \<and>
   validate_route_target ext action ''domain:[]'' = Inr () \<and>
   \<not> fst (matches_target env host host_ip cache port labels ''ip: geoip:cn'') \<and>
   \<not> fst (matches_target env host host_ip cache port labels ''domain:[]'')"
proof -
  have t: "to_ascii_lowercase ''ip: geoip:cn'' = ''ip: geoip:cn''" "to_ascii_lowercase ''domain:[]'' = ''domain:[]''"
    "trim ''ip: geoip:cn'' = ''ip: geoip:cn''" "trim ''domain:[]'' = ''domain:[]''"
    by code_simp+
  have rule: "address_rule '' geoip:cn'' = None" "trim_brackets (trim_start_matches CHR ''.'' (trim ''[]'')) = []"
    "is_supported_ip_route_rule '' geoip:cn''" "trim_start_matches CHR ''.'' (trim ''[]'') \<noteq> []"
    by code_simp+
  have "find (\<lambda>(p, _). starts_with p ''ip: geoip:cn'') (target_tests ext action) = Some (''ip:'', is_supported_ip_route_rule)"
    by (simp add: target_tests_def starts_with_def)
  then have "validate_route_target ext action ''ip: geoip:cn'' = Inr ()"
    unfolding validate_route_target_def t Let_def by (simp add: rule fail_if_def ensure_def)
  moreover have "find (\<lambda>(p, _). starts_with p ''domain:[]'') (target_tests ext action) =
      Some (''domain:'', \<lambda>rule. trim_start_matches CHR ''.'' (trim rule) \<noteq> [])"
    by (simp add: target_tests_def starts_with_def)
  then have "validate_route_target ext action ''domain:[]'' = Inr ()"
    unfolding validate_route_target_def t Let_def by (simp add: rule fail_if_def ensure_def)
  moreover have "\<not> matches_ip_rule ip '' geoip:cn''" for ip by (simp add: matches_ip_rule_iff rule)
  then have "\<not> fst (matches_target env host host_ip cache port labels ''ip: geoip:cn'')"
    unfolding matches_target_def t Let_def
    by (simp add: strip_prefix_def starts_with_def any_target_ip_matches_def list_ex_iff split: option.split)
  moreover have "\<not> matches_domain_suffix host ''[]''" unfolding matches_domain_suffix_def rule Let_def by simp
  then have "\<not> fst (matches_target env host host_ip cache port labels ''domain:[]'')"
    unfolding matches_target_def t Let_def
    by (simp add: strip_prefix_def starts_with_def)
  ultimately show ?thesis by blast
qed

text \<open>
  A rule matches a destination exactly when one of its targets does, each with its own resolution of
  the host: resolving the host once for all of them never changes the answer, whatever their order.
\<close>

theorem route_targets_match_any:
  "route_targets_match env targets host port labels =
     list_ex (\<lambda>t. fst (matches_target env (normalize_host host) (parse_ip (normalize_host host)) None port labels t)) targets"
  by (simp add: route_targets_match_def Let_def any_target_iff cache_ok_def list_ex_iff)

text \<open>
  C35. The search through a geosite rule and the files it includes always ends within a depth of one more
  than the number of files, cyclic includes or not, and its answer is yes exactly when the rule selects
  the host through its built-in domains, its own lines or a chain of includes.
\<close>

theorem geosite_search_exact:
  "\<exists>found visited. matches_geosite_rule_inner (geosite_depth env) env host rule [] = Some (found, visited) \<and>
     (found \<longleftrightarrow> geosite_selects env host rule)"
proof -
  have "card (loadable env - set []) < geosite_depth env"
    using loadable_files [of env] by (simp add: geosite_depth_def)
  from geosite_inner_total [OF this] obtain found visited
    where r: "matches_geosite_rule_inner (geosite_depth env) env host rule [] = Some (found, visited)" by blast
  moreover have "found \<longleftrightarrow> geosite_selects env host rule"
    using geosite_inner_True [of "geosite_depth env" env host rule "[]" visited]
      geosite_inner_False [of "geosite_depth env" env host rule "[]" visited] geosite_selects_explored r
    by (cases found) auto
  ultimately show ?thesis by blast
qed

text \<open>
  C38. A rule name from a configuration or an include line never leads out of the rule directory: the file
  it names is the directory joined with one path component that is neither the directory itself nor its
  parent.
\<close>

theorem rule_file_stays_in_directory:
  assumes "rule_file_path base rule = Some path"
  shows "\<exists>name. path = path_join base name \<and> CHR ''/'' \<notin> set name \<and> name \<notin> {[], ''.'', ''..''} \<and> ends_with ''.txt'' name"
proof -
  have "to_digit 36 (CHR ''/'') = None" by code_simp
  then have "CHR ''/'' \<notin> set rule"
    using assms by (auto simp: rule_file_path_def list_ex_iff is_ascii_alphanumeric_def split: if_splits)
  moreover have "ends_with ''.txt'' (rule @ ''.txt'')" by (auto simp: ends_with_iff)
  moreover have "4 \<le> length (rule @ ''.txt'')" by simp
  then have "rule @ ''.txt'' \<notin> {[], ''.'', ''..''}" by auto
  ultimately show ?thesis
    using rule_file_path_Some [OF assms] by (intro exI [of _ "rule @ ''.txt''"]) auto
qed

theorem rule_file_stays_in_directory_witness:
  "\<exists>name. ''/etc/geo/...txt'' = path_join ''/etc/geo'' name \<and> CHR ''/'' \<notin> set name \<and>
     name \<notin> {[], ''.'', ''..''} \<and> ends_with ''.txt'' name"
  by (rule rule_file_stays_in_directory [of "''/etc/geo''" "''..''"]) code_simp

end
