(* ===== verification/Servers.thy ===== *)
theory Servers
  imports User_Tables Bandwidth Routing_Facts
begin

text \<open>
  The user and route updates of the eleven inbound servers (\<^verbatim>\<open>src/socks5.rs\<close>, \<^verbatim>\<open>http_proxy.rs\<close>,
  \<^verbatim>\<open>naive.rs\<close>, \<^verbatim>\<open>vless.rs\<close>, \<^verbatim>\<open>vmess.rs\<close>, \<^verbatim>\<open>trojan.rs\<close>, \<^verbatim>\<open>hysteria2.rs\<close>, \<^verbatim>\<open>shadowsocks.rs\<close>, \<^verbatim>\<open>mieru.rs\<close>,
  \<^verbatim>\<open>anytls.rs\<close>, \<^verbatim>\<open>tuic.rs\<close>) and their dispatch by \<^verbatim>\<open>ListenerRuntime\<close> in \<^verbatim>\<open>src/service.rs\<close>. A server keeps its
  users in one of the tables of theory \<open>Users\<close>, keyed by the credential its protocol presents, and shares the
  bandwidth limiters and the session tracker with all other servers. Digests and Unicode lower case are
  arguments (\<open>server_env\<close>); a slice inside a character panics.
\<close>

section \<open>Keys\<close>

record server_env =
  sx_hash :: "string \<Rightarrow> u64"
  sx_lowercase :: "string \<Rightarrow> string"
  sx_sha224 :: "string \<Rightarrow> u8 list"
  sx_sha256 :: "string \<Rightarrow> string"
  sx_auth_keys :: "nat list \<Rightarrow> string \<times> string"

definition hex_digit :: "nat \<Rightarrow> char" where
  "hex_digit value = char_of (if value < 10 then 48 + value else 97 + (value - 10))"

definition hex_lower :: "nat list \<Rightarrow> string" where
  "hex_lower bytes = concat (map (\<lambda>b. [hex_digit (b div 16), hex_digit (b mod 16)]) bytes)"

definition trojan_password_hash :: "server_env \<Rightarrow> string \<Rightarrow> string" where
  "trojan_password_hash sx password = hex_lower (map unat (sx_sha224 sx password))"

definition compact_uuid :: "server_env \<Rightarrow> string \<Rightarrow> string" where
  "compact_uuid sx value = sx_lowercase sx (filter (\<lambda>c. c \<noteq> CHR ''-'') value)"

text \<open>
  The parsers of \<^verbatim>\<open>vmess.rs\<close> and \<^verbatim>\<open>tuic.rs\<close> differ in the protocol name of their messages. Both check the
  length in bytes and then slice two bytes at a time.
\<close>

fun uuid_bytes_from :: "string \<Rightarrow> string \<Rightarrow> nat list \<Rightarrow> nat list vresult" where
  "uuid_bytes_from proto hex [] = Inr []"
| "uuid_bytes_from proto hex (i # is) =
     and_then (str_slice hex (i * 2) (i * 2 + 2)) (\<lambda>pair.
       case parse_radix 16 255 pair of
         None \<Rightarrow> Inl (Err (proto @ '' user uuid is invalid''))
       | Some b \<Rightarrow> and_then (uuid_bytes_from proto hex is) (\<lambda>bs. Inr (b # bs)))"

definition parse_uuid_bytes :: "string \<Rightarrow> string \<Rightarrow> nat list vresult" where
  "parse_uuid_bytes proto value =
     (let hex = filter (\<lambda>c. c \<noteq> CHR ''-'') value in
      if length hex \<noteq> 32 then Inl (Err (proto @ '' user uuid must be 16 bytes''))
      else uuid_bytes_from proto hex [0..<16])"

definition vmess_parse_uuid_bytes :: "string \<Rightarrow> nat list vresult" where
  "vmess_parse_uuid_bytes = parse_uuid_bytes ''vmess''"

definition tuic_parse_uuid_bytes :: "string \<Rightarrow> nat list vresult" where
  "tuic_parse_uuid_bytes = parse_uuid_bytes ''tuic''"

definition ok_or_none :: "'a vresult \<Rightarrow> 'a option vresult" where
  "ok_or_none r = (case r of Inr x \<Rightarrow> Inr (Some x) | Inl (Err _) \<Rightarrow> Inr None | Inl Panic \<Rightarrow> Inl Panic)"

definition format_uuid_compact :: "nat list \<Rightarrow> string" where
  "format_uuid_compact = hex_lower"

definition vmess_user_key :: "core_user \<Rightarrow> string option vresult" where
  "vmess_user_key u = and_then (ok_or_none (vmess_parse_uuid_bytes (cu_uuid u))) (\<lambda>b. Inr (map_option format_uuid_compact b))"

fun valid_vmess_users :: "core_user list \<Rightarrow> core_user list vresult" where
  "valid_vmess_users [] = Inr []"
| "valid_vmess_users (u # us) =
     (if user_is_empty u then valid_vmess_users us
      else and_then (vmess_user_key u) (\<lambda>k.
             and_then (valid_vmess_users us) (\<lambda>vs. Inr (if k = None then vs else u # vs))))"

text \<open>\<^verbatim>\<open>vmess_user_key(user).expect(..)\<close>, called on users that passed \<^verbatim>\<open>valid_vmess_users\<close> only.\<close>

definition vmess_key :: "core_user \<Rightarrow> string" where
  "vmess_key u = (case vmess_user_key u of Inr (Some k) \<Rightarrow> k | _ \<Rightarrow> [])"

record vmess_auth_user =
  va_user_key :: string
  va_cmd_key :: string
  va_auth_id_key :: string

definition vmess_auth_users :: "server_env \<Rightarrow> core_user list \<Rightarrow> vmess_auth_user list" where
  "vmess_auth_users sx users =
     concat (map (\<lambda>u. case vmess_parse_uuid_bytes (cu_uuid u) of
                        Inr b \<Rightarrow> [\<lparr>va_user_key = format_uuid_compact b, va_cmd_key = fst (sx_auth_keys sx b),
                                   va_auth_id_key = snd (sx_auth_keys sx b)\<rparr>]
                      | Inl _ \<Rightarrow> []) users)"

definition tuic_key :: "core_user \<Rightarrow> string option" where
  "tuic_key u = (case tuic_parse_uuid_bytes (cu_uuid u) of Inr b \<Rightarrow> Some (map char_of b) | Inl _ \<Rightarrow> None)"

definition tuic_panics :: "core_user list \<Rightarrow> bool" where
  "tuic_panics users = list_ex (\<lambda>u. tuic_parse_uuid_bytes (cu_uuid u) = Inl Panic) users"

section \<open>Servers\<close>

text \<open>What a server keeps of its users; \<^verbatim>\<open>vmess\<close> also keeps the keys it tries on a first packet.\<close>

datatype server_table =
    Uuid_Store "string user_map"
  | Keyed_Store "string user_map"
  | Vmess_Store "string user_map" "vmess_auth_user list"
  | User_Vec "core_user list"
  | Arc_Map "string user_map"

record server =
  se_protocol :: protocol
  se_table :: server_table
  se_routes :: "route_rule list"
  se_auth_required :: bool

type_synonym limits = "user_bandwidth_limiters \<times> session_tracker"

definition stored_users :: "server_table \<Rightarrow> core_user list" where
  "stored_users tbl = (case tbl of
       Uuid_Store m \<Rightarrow> map snd m | Keyed_Store m \<Rightarrow> map snd m | Vmess_Store m _ \<Rightarrow> map snd m
     | User_Vec us \<Rightarrow> us | Arc_Map m \<Rightarrow> map snd m)"

definition table_map :: "server_table \<Rightarrow> string user_map" where
  "table_map tbl = (case tbl of
       Uuid_Store m \<Rightarrow> m | Keyed_Store m \<Rightarrow> m | Vmess_Store m _ \<Rightarrow> m | Arc_Map m \<Rightarrow> m | User_Vec _ \<Rightarrow> [])"

definition table_vec :: "server_table \<Rightarrow> core_user list" where
  "table_vec tbl = (case tbl of User_Vec us \<Rightarrow> us | _ \<Rightarrow> [])"

definition active_user_list :: "core_user list \<Rightarrow> core_user list" where
  "active_user_list users = filter (\<lambda>u. \<not> user_is_empty u) users"

definition anytls_user_map :: "server_env \<Rightarrow> core_user list \<Rightarrow> string user_map" where
  "anytls_user_map sx users = hm_collect (map (\<lambda>u. (sx_sha256 sx (credential u), u)) (filter (\<lambda>u. \<not> user_is_empty u) users))"

definition tuic_user_map :: "core_user list \<Rightarrow> string user_map" where
  "tuic_user_map users =
     hm_collect (concat (map (\<lambda>u. case tuic_key u of Some k \<Rightarrow> [(k, u)] | None \<Rightarrow> []) users))"

section \<open>Building a server\<close>

text \<open>
  \<^verbatim>\<open>with_shared_limits\<close> of each server: the table is filled, the limiters are not touched. The SOCKS and HTTP
  servers note here, once, whether clients must authenticate; the other protocols always identify the user, and
  the flag is set for them.
\<close>

definition server_of :: "protocol \<Rightarrow> server_table \<Rightarrow> bool \<Rightarrow> route_rule list \<Rightarrow> server" where
  "server_of p tbl auth routes = \<lparr>se_protocol = p, se_table = tbl, se_routes = routes, se_auth_required = auth\<rparr>"

definition socks5_with_shared_limits :: "core_user list \<Rightarrow> route_rule list \<Rightarrow> server" where
  "socks5_with_shared_limits users routes =
     server_of Socks (Uuid_Store (keyed_user_state cu_uuid users)) (users \<noteq> []) routes"

definition http_with_shared_limits :: "core_user list \<Rightarrow> route_rule list \<Rightarrow> server" where
  "http_with_shared_limits users routes =
     server_of Http (Uuid_Store (keyed_user_state cu_uuid users)) (users \<noteq> []) routes"

definition naive_with_shared_limits :: "core_user list \<Rightarrow> route_rule list \<Rightarrow> server" where
  "naive_with_shared_limits users routes = server_of Naive (Uuid_Store (keyed_user_state cu_uuid users)) True routes"

definition vless_with_shared_limits :: "server_env \<Rightarrow> core_user list \<Rightarrow> route_rule list \<Rightarrow> server" where
  "vless_with_shared_limits sx users routes =
     server_of Vless (Keyed_Store (keyed_user_state (\<lambda>u. compact_uuid sx (cu_uuid u)) users)) True routes"

definition trojan_with_shared_limits :: "server_env \<Rightarrow> core_user list \<Rightarrow> route_rule list \<Rightarrow> server" where
  "trojan_with_shared_limits sx users routes =
     server_of Trojan (Keyed_Store (keyed_user_state (\<lambda>u. trojan_password_hash sx (credential u)) users)) True routes"

definition hysteria2_with_shared_limits :: "core_user list \<Rightarrow> route_rule list \<Rightarrow> server" where
  "hysteria2_with_shared_limits users routes =
     server_of Hysteria2 (Keyed_Store (keyed_user_state credential users)) True routes"

definition shadowsocks_with_shared_limits :: "core_user list \<Rightarrow> route_rule list \<Rightarrow> server" where
  "shadowsocks_with_shared_limits users routes = server_of Shadowsocks (User_Vec (active_user_list users)) True routes"

definition mieru_with_shared_limits :: "core_user list \<Rightarrow> route_rule list \<Rightarrow> server" where
  "mieru_with_shared_limits users routes = server_of Mieru (User_Vec (active_user_list users)) True routes"

definition anytls_with_shared_limits :: "server_env \<Rightarrow> core_user list \<Rightarrow> route_rule list \<Rightarrow> server" where
  "anytls_with_shared_limits sx users routes = server_of AnyTls (Arc_Map (anytls_user_map sx users)) True routes"

definition tuic_with_shared_limits :: "core_user list \<Rightarrow> route_rule list \<Rightarrow> server vresult" where
  "tuic_with_shared_limits users routes =
     (if tuic_panics users then Inl Panic else Inr (server_of Tuic (Arc_Map (tuic_user_map users)) True routes))"

definition vmess_with_shared_limits :: "server_env \<Rightarrow> core_user list \<Rightarrow> route_rule list \<Rightarrow> server vresult" where
  "vmess_with_shared_limits sx users0 routes =
     and_then (valid_vmess_users users0) (\<lambda>users.
       Inr (server_of Vmess (Vmess_Store (keyed_user_state vmess_key users) (vmess_auth_users sx users)) True routes))"

text \<open>The constructor \<^verbatim>\<open>start_listener_handle\<close> reaches for each protocol.\<close>

definition new_server :: "server_env \<Rightarrow> protocol \<Rightarrow> core_user list \<Rightarrow> route_rule list \<Rightarrow> server vresult" where
  "new_server sx p users routes =
     (case p of
        Socks \<Rightarrow> Inr (socks5_with_shared_limits users routes)
      | Http \<Rightarrow> Inr (http_with_shared_limits users routes)
      | Vless \<Rightarrow> Inr (vless_with_shared_limits sx users routes)
      | Vmess \<Rightarrow> vmess_with_shared_limits sx users routes
      | Trojan \<Rightarrow> Inr (trojan_with_shared_limits sx users routes)
      | Shadowsocks \<Rightarrow> Inr (shadowsocks_with_shared_limits users routes)
      | AnyTls \<Rightarrow> Inr (anytls_with_shared_limits sx users routes)
      | Tuic \<Rightarrow> tuic_with_shared_limits users routes
      | Hysteria2 \<Rightarrow> Inr (hysteria2_with_shared_limits users routes)
      | Mieru \<Rightarrow> Inr (mieru_with_shared_limits users routes)
      | Naive \<Rightarrow> Inr (naive_with_shared_limits users routes))"

section \<open>Replacing users\<close>

text \<open>
  Each \<^verbatim>\<open>replace_users\<close> first configures the limiters of the new users; sessions are left alone. A panic ends
  the call, and the model keeps no state for it.
\<close>

definition sync_limiters :: "server_env \<Rightarrow> core_user list \<Rightarrow> limits \<Rightarrow> limits" where
  "sync_limiters sx users = apfst (bw_sync_users (sx_hash sx) users)"

definition socks5_replace_users :: "server_env \<Rightarrow> core_user list \<Rightarrow> server \<Rightarrow> limits \<Rightarrow> (server \<times> limits) vresult" where
  "socks5_replace_users sx users srv lms =
     Inr (srv\<lparr>se_table := Uuid_Store (replace_uuid_users users (table_map (se_table srv)))\<rparr>, sync_limiters sx users lms)"

definition http_replace_users :: "server_env \<Rightarrow> core_user list \<Rightarrow> server \<Rightarrow> limits \<Rightarrow> (server \<times> limits) vresult" where
  "http_replace_users sx users srv lms =
     Inr (srv\<lparr>se_table := Uuid_Store (replace_uuid_users users (table_map (se_table srv)))\<rparr>, sync_limiters sx users lms)"

definition naive_replace_users :: "server_env \<Rightarrow> core_user list \<Rightarrow> server \<Rightarrow> limits \<Rightarrow> (server \<times> limits) vresult" where
  "naive_replace_users sx users srv lms =
     Inr (srv\<lparr>se_table := Uuid_Store (replace_uuid_users users (table_map (se_table srv)))\<rparr>, sync_limiters sx users lms)"

definition vless_replace_users :: "server_env \<Rightarrow> core_user list \<Rightarrow> server \<Rightarrow> limits \<Rightarrow> (server \<times> limits) vresult" where
  "vless_replace_users sx users srv lms =
     Inr (srv\<lparr>se_table := Keyed_Store (replace_keyed_users (\<lambda>u. compact_uuid sx (cu_uuid u)) users (table_map (se_table srv)))\<rparr>, sync_limiters sx users lms)"

definition trojan_replace_users :: "server_env \<Rightarrow> core_user list \<Rightarrow> server \<Rightarrow> limits \<Rightarrow> (server \<times> limits) vresult" where
  "trojan_replace_users sx users srv lms =
     Inr (srv\<lparr>se_table := Keyed_Store (replace_keyed_users (\<lambda>u. trojan_password_hash sx (credential u)) users (table_map (se_table srv)))\<rparr>, sync_limiters sx users lms)"

definition hysteria2_replace_users :: "server_env \<Rightarrow> core_user list \<Rightarrow> server \<Rightarrow> limits \<Rightarrow> (server \<times> limits) vresult" where
  "hysteria2_replace_users sx users srv lms =
     Inr (srv\<lparr>se_table := Keyed_Store (replace_keyed_users credential users (table_map (se_table srv)))\<rparr>, sync_limiters sx users lms)"

definition shadowsocks_replace_users :: "server_env \<Rightarrow> core_user list \<Rightarrow> server \<Rightarrow> limits \<Rightarrow> (server \<times> limits) vresult" where
  "shadowsocks_replace_users sx users srv lms =
     Inr (srv\<lparr>se_table := User_Vec (active_user_list users)\<rparr>, sync_limiters sx users lms)"

definition mieru_replace_users :: "server_env \<Rightarrow> core_user list \<Rightarrow> server \<Rightarrow> limits \<Rightarrow> (server \<times> limits) vresult" where
  "mieru_replace_users sx users srv lms =
     Inr (srv\<lparr>se_table := User_Vec (active_user_list users)\<rparr>, sync_limiters sx users lms)"

definition anytls_replace_users :: "server_env \<Rightarrow> core_user list \<Rightarrow> server \<Rightarrow> limits \<Rightarrow> (server \<times> limits) vresult" where
  "anytls_replace_users sx users srv lms =
     Inr (srv\<lparr>se_table := Arc_Map (anytls_user_map sx users)\<rparr>, sync_limiters sx users lms)"

definition tuic_replace_users :: "server_env \<Rightarrow> core_user list \<Rightarrow> server \<Rightarrow> limits \<Rightarrow> (server \<times> limits) vresult" where
  "tuic_replace_users sx users srv lms =
     (if tuic_panics users then Inl Panic
      else Inr (srv\<lparr>se_table := Arc_Map (tuic_user_map users)\<rparr>, sync_limiters sx users lms))"

definition vmess_replace_users :: "server_env \<Rightarrow> core_user list \<Rightarrow> server \<Rightarrow> limits \<Rightarrow> (server \<times> limits) vresult" where
  "vmess_replace_users sx users0 srv lms =
     and_then (valid_vmess_users users0) (\<lambda>users.
       Inr (srv\<lparr>se_table := Vmess_Store (replace_keyed_users vmess_key users (table_map (se_table srv)))
                                       (vmess_auth_users sx users)\<rparr>, sync_limiters sx users lms))"

text \<open>\<^verbatim>\<open>ListenerRuntime\<close> dispatches on the kind of server.\<close>

definition replace_users :: "server_env \<Rightarrow> core_user list \<Rightarrow> server \<Rightarrow> limits \<Rightarrow> (server \<times> limits) vresult" where
  "replace_users sx users srv =
     (case se_protocol srv of
        Socks \<Rightarrow> socks5_replace_users sx users srv
      | Http \<Rightarrow> http_replace_users sx users srv
      | Vless \<Rightarrow> vless_replace_users sx users srv
      | Vmess \<Rightarrow> vmess_replace_users sx users srv
      | Trojan \<Rightarrow> trojan_replace_users sx users srv
      | Shadowsocks \<Rightarrow> shadowsocks_replace_users sx users srv
      | AnyTls \<Rightarrow> anytls_replace_users sx users srv
      | Tuic \<Rightarrow> tuic_replace_users sx users srv
      | Hysteria2 \<Rightarrow> hysteria2_replace_users sx users srv
      | Mieru \<Rightarrow> mieru_replace_users sx users srv
      | Naive \<Rightarrow> naive_replace_users sx users srv)"

definition replace_routes :: "route_rule list \<Rightarrow> server \<Rightarrow> server" where
  "replace_routes routes srv = srv\<lparr>se_routes := routes\<rparr>"

section \<open>Applying a delta\<close>

type_synonym delta_outcome = "(core_user_delta_result \<times> server \<times> limits) vresult"

text \<open>Every handler first brings limiters and sessions in line with the delta, then its own table.\<close>

definition with_table ::
    "server_env \<Rightarrow> core_user_delta \<Rightarrow> server \<Rightarrow> limits \<Rightarrow> server_table \<times> core_user_delta_result \<Rightarrow> delta_outcome" where
  "with_table sx delta srv lms = (\<lambda>(tbl, r).
     Inr (r, srv\<lparr>se_table := tbl\<rparr>, sync_user_limit_delta (sx_hash sx) delta lms))"

definition socks5_apply_user_delta :: "server_env \<Rightarrow> core_user_delta \<Rightarrow> server \<Rightarrow> limits \<Rightarrow> delta_outcome" where
  "socks5_apply_user_delta sx delta srv lms =
     with_table sx delta srv lms (apfst Uuid_Store (apply_uuid_delta delta (table_map (se_table srv))))"

definition http_apply_user_delta :: "server_env \<Rightarrow> core_user_delta \<Rightarrow> server \<Rightarrow> limits \<Rightarrow> delta_outcome" where
  "http_apply_user_delta sx delta srv lms =
     with_table sx delta srv lms (apfst Uuid_Store (apply_uuid_delta delta (table_map (se_table srv))))"

definition naive_apply_user_delta :: "server_env \<Rightarrow> core_user_delta \<Rightarrow> server \<Rightarrow> limits \<Rightarrow> delta_outcome" where
  "naive_apply_user_delta sx delta srv lms =
     with_table sx delta srv lms (apfst Uuid_Store (apply_uuid_delta delta (table_map (se_table srv))))"

definition vless_apply_user_delta :: "server_env \<Rightarrow> core_user_delta \<Rightarrow> server \<Rightarrow> limits \<Rightarrow> delta_outcome" where
  "vless_apply_user_delta sx delta srv lms =
     with_table sx delta srv lms (apfst Keyed_Store (apply_keyed_delta (\<lambda>u. compact_uuid sx (cu_uuid u)) delta (table_map (se_table srv))))"

definition trojan_apply_user_delta :: "server_env \<Rightarrow> core_user_delta \<Rightarrow> server \<Rightarrow> limits \<Rightarrow> delta_outcome" where
  "trojan_apply_user_delta sx delta srv lms =
     with_table sx delta srv lms (apfst Keyed_Store (apply_keyed_delta (\<lambda>u. trojan_password_hash sx (credential u)) delta (table_map (se_table srv))))"

definition hysteria2_apply_user_delta :: "server_env \<Rightarrow> core_user_delta \<Rightarrow> server \<Rightarrow> limits \<Rightarrow> delta_outcome" where
  "hysteria2_apply_user_delta sx delta srv lms =
     with_table sx delta srv lms (apfst Keyed_Store (apply_keyed_delta credential delta (table_map (se_table srv))))"

definition shadowsocks_apply_user_delta :: "server_env \<Rightarrow> core_user_delta \<Rightarrow> server \<Rightarrow> limits \<Rightarrow> delta_outcome" where
  "shadowsocks_apply_user_delta sx delta srv lms =
     with_table sx delta srv lms (apfst User_Vec (apply_user_delta_to_vec delta (table_vec (se_table srv))))"

definition mieru_apply_user_delta :: "server_env \<Rightarrow> core_user_delta \<Rightarrow> server \<Rightarrow> limits \<Rightarrow> delta_outcome" where
  "mieru_apply_user_delta sx delta srv lms =
     with_table sx delta srv lms (apfst User_Vec (apply_user_delta_to_vec delta (table_vec (se_table srv))))"

definition anytls_apply_user_delta :: "server_env \<Rightarrow> core_user_delta \<Rightarrow> server \<Rightarrow> limits \<Rightarrow> delta_outcome" where
  "anytls_apply_user_delta sx delta srv lms =
     with_table sx delta srv lms (apfst Arc_Map (apply_user_delta_to_keyed_arc_map (\<lambda>u. Some (sx_sha256 sx (credential u))) delta (table_map (se_table srv))))"

text \<open>The users whose key a keyed map computes: the non-empty ones of the snapshot, or of additions and updates.\<close>

definition keyed_by_delta :: "core_user_delta \<Rightarrow> core_user list" where
  "keyed_by_delta delta = filter (\<lambda>u. \<not> user_is_empty u)
     (case d_full delta of Some full \<Rightarrow> full | None \<Rightarrow> d_added delta @ d_updated delta)"

definition tuic_apply_user_delta :: "server_env \<Rightarrow> core_user_delta \<Rightarrow> server \<Rightarrow> limits \<Rightarrow> delta_outcome" where
  "tuic_apply_user_delta sx delta srv lms =
     (if tuic_panics (keyed_by_delta delta) then Inl Panic
      else with_table sx delta srv lms (apfst Arc_Map (apply_user_delta_to_keyed_arc_map tuic_key delta (table_map (se_table srv)))))"

definition vmess_delta :: "core_user_delta \<Rightarrow> core_user_delta vresult" where
  "vmess_delta delta =
     and_then (valid_vmess_users (d_added delta)) (\<lambda>added.
     and_then (valid_vmess_users (d_updated delta)) (\<lambda>updated.
     and_then (case d_full delta of
                 None \<Rightarrow> Inr None
               | Some full \<Rightarrow> and_then (valid_vmess_users full) (\<lambda>vs. Inr (Some vs))) (\<lambda>full.
       Inr (delta\<lparr>d_added := added, d_updated := updated, d_full := full\<rparr>))))"

definition vmess_apply_user_delta :: "server_env \<Rightarrow> core_user_delta \<Rightarrow> server \<Rightarrow> limits \<Rightarrow> delta_outcome" where
  "vmess_apply_user_delta sx delta0 srv lms =
     and_then (vmess_delta delta0) (\<lambda>delta.
       let (store, r) = apply_keyed_delta vmess_key delta (table_map (se_table srv)); users = store_list store
       in with_table sx delta srv lms (Vmess_Store store (vmess_auth_users sx users), r\<lparr>r_active_users := length users\<rparr>))"

definition apply_user_delta :: "server_env \<Rightarrow> core_user_delta \<Rightarrow> server \<Rightarrow> limits \<Rightarrow> delta_outcome" where
  "apply_user_delta sx delta srv =
     (case se_protocol srv of
        Socks \<Rightarrow> socks5_apply_user_delta sx delta srv
      | Http \<Rightarrow> http_apply_user_delta sx delta srv
      | Vless \<Rightarrow> vless_apply_user_delta sx delta srv
      | Vmess \<Rightarrow> vmess_apply_user_delta sx delta srv
      | Trojan \<Rightarrow> trojan_apply_user_delta sx delta srv
      | Shadowsocks \<Rightarrow> shadowsocks_apply_user_delta sx delta srv
      | AnyTls \<Rightarrow> anytls_apply_user_delta sx delta srv
      | Tuic \<Rightarrow> tuic_apply_user_delta sx delta srv
      | Hysteria2 \<Rightarrow> hysteria2_apply_user_delta sx delta srv
      | Mieru \<Rightarrow> mieru_apply_user_delta sx delta srv
      | Naive \<Rightarrow> naive_apply_user_delta sx delta srv)"

section \<open>What an update touches\<close>

definition table_fits :: "protocol \<Rightarrow> server_table \<Rightarrow> bool" where
  "table_fits p tbl = (case tbl of
       Uuid_Store _ \<Rightarrow> p \<in> {Socks, Http, Naive}
     | Keyed_Store _ \<Rightarrow> p \<in> {Vless, Trojan, Hysteria2}
     | Vmess_Store _ _ \<Rightarrow> p = Vmess
     | User_Vec _ \<Rightarrow> p \<in> {Shadowsocks, Mieru}
     | Arc_Map _ \<Rightarrow> p \<in> {AnyTls, Tuic})"

lemmas replace_defs = replace_users_def socks5_replace_users_def http_replace_users_def naive_replace_users_def
  vless_replace_users_def trojan_replace_users_def hysteria2_replace_users_def shadowsocks_replace_users_def
  mieru_replace_users_def anytls_replace_users_def tuic_replace_users_def vmess_replace_users_def

lemmas delta_defs = apply_user_delta_def socks5_apply_user_delta_def http_apply_user_delta_def naive_apply_user_delta_def
  vless_apply_user_delta_def trojan_apply_user_delta_def hysteria2_apply_user_delta_def shadowsocks_apply_user_delta_def
  mieru_apply_user_delta_def anytls_apply_user_delta_def tuic_apply_user_delta_def vmess_apply_user_delta_def

lemma valid_vmess_users_ok:
  "valid_vmess_users users = Inr valid \<Longrightarrow>
   set valid \<subseteq> set users \<and> (\<forall>u \<in> set valid. \<not> user_is_empty u \<and> (\<exists>k. vmess_user_key u = Inr (Some k)))"
  by (induction users arbitrary: valid) (auto simp: result_simps split: if_splits option.splits)

lemma table_fits_simps [simp]:
  "table_fits p (Uuid_Store m) \<longleftrightarrow> p \<in> {Socks, Http, Naive}"
  "table_fits p (Keyed_Store m) \<longleftrightarrow> p \<in> {Vless, Trojan, Hysteria2}"
  "table_fits p (Vmess_Store m as) \<longleftrightarrow> p = Vmess"
  "table_fits p (User_Vec us) \<longleftrightarrow> p \<in> {Shadowsocks, Mieru}"
  "table_fits p (Arc_Map m) \<longleftrightarrow> p \<in> {AnyTls, Tuic}"
  by (simp_all add: table_fits_def)

lemma replace_users_frame:
  assumes "replace_users sx users srv lms = Inr (srv', lms')"
  shows "\<exists>tbl us. srv' = srv\<lparr>se_table := tbl\<rparr> \<and> table_fits (se_protocol srv) tbl \<and>
    set us \<subseteq> set users \<and> lms' = sync_limiters sx us lms"
proof (cases "se_protocol srv = Vmess")
  case True
  with assms obtain valid where "valid_vmess_users users = Inr valid" "lms' = sync_limiters sx valid lms"
    "srv' = srv\<lparr>se_table := Vmess_Store (replace_keyed_users vmess_key valid (table_map (se_table srv)))
                                    (vmess_auth_users sx valid)\<rparr>"
    by (auto simp: replace_defs result_simps)
  with True show ?thesis using valid_vmess_users_ok table_fits_simps(3) by blast
next
  case False
  with assms show ?thesis
    by (cases "se_protocol srv") (force simp: replace_defs split: if_splits)+
qed

text \<open>A VMess server drops the users it cannot serve from a delta, so it cuts off at least as many.\<close>

lemma vmess_delta_ok:
  assumes "vmess_delta delta = Inr d"
  shows "cut_by delta uuid \<Longrightarrow> cut_by d uuid" and "d_full d = None \<longleftrightarrow> d_full delta = None"
  using assms by (auto simp: vmess_delta_def result_simps cut_by_def split: option.splits dest!: valid_vmess_users_ok)

lemma with_table_frame:
  assumes "with_table sx d srv lms p = Inr (r, srv', lms')"
  shows "srv' = srv\<lparr>se_table := fst p\<rparr> \<and> lms' = sync_user_limit_delta (sx_hash sx) d lms"
  using assms by (auto simp: with_table_def case_prod_beta)

lemma apply_user_delta_frame:
  assumes "apply_user_delta sx delta srv lms = Inr (r, srv', lms')"
  shows "\<exists>tbl d. srv' = srv\<lparr>se_table := tbl\<rparr> \<and> table_fits (se_protocol srv) tbl \<and>
    (\<forall>uuid. cut_by delta uuid \<longrightarrow> cut_by d uuid) \<and> lms' = sync_user_limit_delta (sx_hash sx) d lms"
proof (cases "se_protocol srv = Vmess")
  case True
  with assms obtain d store r' where "vmess_delta delta = Inr d" "lms' = sync_user_limit_delta (sx_hash sx) d lms"
    "srv' = srv\<lparr>se_table := Vmess_Store store (vmess_auth_users sx (store_list store))\<rparr>"
    by (auto simp: delta_defs result_simps with_table_def Let_def case_prod_beta)
  with True show ?thesis using vmess_delta_ok(1) table_fits_simps(3) by blast
next
  case False
  with assms show ?thesis
  proof (cases "se_protocol srv")
  qed (auto simp: delta_defs split: if_splits dest!: with_table_frame intro!: exI [of _ delta] exI)
qed

section \<open>The key index of a VMess server\<close>

text \<open>
  The first packet of a VMess client is tried against the list of auth keys, and the key found is looked up
  in the store. Both must name the same users.
\<close>

definition vmess_entries_ok :: "string user_map \<Rightarrow> bool" where
  "vmess_entries_ok m \<longleftrightarrow> (\<forall>(k, u) \<in> set m. vmess_user_key u = Inr (Some k))"

definition vmess_index_ok :: "server_table \<Rightarrow> bool" where
  "vmess_index_ok tbl = (case tbl of
       Vmess_Store m as \<Rightarrow> vmess_entries_ok m \<and> va_user_key ` set as = fst ` set m | _ \<Rightarrow> True)"

lemma vmess_key_eq: "vmess_user_key u = Inr (Some k) \<Longrightarrow> vmess_key u = k"
  by (simp add: vmess_key_def)

lemma vmess_auth_keys:
  "\<forall>u \<in> set us. \<exists>k. vmess_user_key u = Inr (Some k) \<Longrightarrow> va_user_key ` set (vmess_auth_users sx us) = vmess_key ` set us"
  by (induction us)
    (auto simp: vmess_auth_users_def vmess_key_def vmess_user_key_def ok_or_none_def result_simps
          split: sum.splits verr.splits)

lemma set_update_subset: "set (hm_insert k v m) \<subseteq> insert (k, v) (set m)"
  by (induction m) (auto simp: hm_insert_def)

lemma entries_insert: "vmess_entries_ok m \<Longrightarrow> vmess_user_key u = Inr (Some k) \<Longrightarrow> vmess_entries_ok (hm_insert (vmess_key u) u m)"
  using set_update_subset [of "vmess_key u" u m] by (auto simp: vmess_entries_ok_def vmess_key_eq)

lemma entries_remove: "vmess_entries_ok m \<Longrightarrow> remove_user_by_uuid uuid m = Some m' \<Longrightarrow> vmess_entries_ok m'"
  by (auto simp: vmess_entries_ok_def remove_user_by_uuid_def hm_remove_def split: option.splits)

lemma fold_invariant: "P s \<Longrightarrow> (\<And>x s. x \<in> set xs \<Longrightarrow> P s \<Longrightarrow> P (f x s)) \<Longrightarrow> P (fold f xs s)"
  by (induction xs arbitrary: s) auto

lemma entries_state:
  assumes "\<forall>u \<in> set us. \<not> user_is_empty u \<longrightarrow> (\<exists>k. vmess_user_key u = Inr (Some k))"
  shows "vmess_entries_ok (keyed_user_state vmess_key us)"
  unfolding keyed_user_state_def
  by (rule fold_invariant) (use assms in \<open>auto simp: vmess_entries_ok_def [of "[]"] intro: entries_insert\<close>)

lemma entries_steps:
  assumes "vmess_entries_ok (fst s)"
  shows "\<not> user_is_empty u \<longrightarrow> (\<exists>k. vmess_user_key u = Inr (Some k)) \<Longrightarrow> vmess_entries_ok (fst (keyed_add_one vmess_key u s))"
    and "\<not> user_is_empty u \<longrightarrow> (\<exists>k. vmess_user_key u = Inr (Some k)) \<Longrightarrow> vmess_entries_ok (fst (keyed_update_one vmess_key u s))"
    and "vmess_entries_ok (fst (keyed_delete_one uuid s))"
  using assms entries_remove [of "fst s"] entries_insert
  by (cases s; force simp: keyed_add_one_def keyed_update_one_def keyed_delete_one_def split: option.splits)+

lemma entries_delta:
  assumes ok: "vmess_entries_ok m"
    and keys: "\<forall>u \<in> delta_users d. \<not> user_is_empty u \<longrightarrow> (\<exists>k. vmess_user_key u = Inr (Some k))"
  shows "vmess_entries_ok (fst (apply_keyed_delta vmess_key d m))"
proof (cases "d_full d")
  case (Some full)
  have "vmess_entries_ok (keyed_user_state vmess_key full)"
    by (rule entries_state) (use keys Some in \<open>simp add: delta_users_def\<close>)
  with Some show ?thesis by (simp add: apply_keyed_delta_def Let_def)
next
  case None
  with keys have keys': "\<forall>u \<in> set (d_added d) \<union> set (d_updated d). \<not> user_is_empty u \<longrightarrow> (\<exists>k. vmess_user_key u = Inr (Some k))"
    by (simp add: delta_users_def)
  let ?P = "\<lambda>s :: string tally. vmess_entries_ok (fst s)"
  have "?P (fold keyed_delete_one (d_deleted d) (fold (keyed_update_one vmess_key) (d_updated d)
      (fold (keyed_add_one vmess_key) (d_added d) (m, default_result))))"
    by (intro fold_invariant [where P = ?P] entries_steps) (use ok keys' in simp_all)
  with None show ?thesis by (simp add: apply_keyed_delta_def finish_delta_def case_prod_beta)
qed

section \<open>Reachable servers\<close>

inductive server_reach :: "server_env \<Rightarrow> server \<Rightarrow> bool" for sx where
  build: "new_server sx p users routes = Inr srv \<Longrightarrow> server_reach sx srv"
| users: "server_reach sx srv \<Longrightarrow> replace_users sx users srv lms = Inr (srv', lms') \<Longrightarrow> server_reach sx srv'"
| routes: "server_reach sx srv \<Longrightarrow> server_reach sx (replace_routes routes srv)"
| delta: "server_reach sx srv \<Longrightarrow> apply_user_delta sx delta srv lms = Inr (r, srv', lms') \<Longrightarrow> server_reach sx srv'"

lemmas build_defs = new_server_def socks5_with_shared_limits_def http_with_shared_limits_def naive_with_shared_limits_def
  vless_with_shared_limits_def trojan_with_shared_limits_def hysteria2_with_shared_limits_def
  shadowsocks_with_shared_limits_def mieru_with_shared_limits_def anytls_with_shared_limits_def
  tuic_with_shared_limits_def vmess_with_shared_limits_def

lemma new_server_frame:
  "new_server sx p users routes = Inr srv \<Longrightarrow> se_protocol srv = p \<and> se_routes srv = routes \<and> table_fits p (se_table srv) \<and>
     se_auth_required srv = (p \<in> {Socks, Http} \<longrightarrow> users \<noteq> [])"
  by (cases p) (auto simp: build_defs server_of_def result_simps split: if_splits)


definition example_env :: server_env where
  "example_env = \<lparr>sx_hash = (\<lambda>_. 0), sx_lowercase = to_ascii_lowercase, sx_sha224 = (\<lambda>s. map (word_of_nat \<circ> of_char) s),
     sx_sha256 = (\<lambda>s. s), sx_auth_keys = (\<lambda>b. (map char_of b, map char_of b))\<rparr>"

definition vmess_user :: core_user where
  "vmess_user = example_user ''00112233-4455-6677-8899-aabbccddeeff'' ''p''"

definition vmess_server :: server where
  "vmess_server = server_of Vmess (Vmess_Store [(''00112233445566778899aabbccddeeff'', vmess_user)]
     (vmess_auth_users example_env [vmess_user])) True []"

lemma vmess_server_reach: "server_reach example_env vmess_server"
  by (rule server_reach.build [of example_env Vmess "[vmess_user]" "[]"]) code_simp


lemma server_auth_kept:
  "replace_users sx users srv lms = Inr (srv', lms') \<Longrightarrow> se_auth_required srv' = se_auth_required srv \<and> se_protocol srv' = se_protocol srv"
  "apply_user_delta sx delta srv lms = Inr (r, srv', lms') \<Longrightarrow> se_auth_required srv' = se_auth_required srv \<and> se_protocol srv' = se_protocol srv"
  by (auto dest!: replace_users_frame apply_user_delta_frame)

section \<open>The index of a reachable VMess server\<close>

lemma vmess_table_ok:
  assumes "vmess_entries_ok m" "set us = snd ` set m"
  shows "vmess_index_ok (Vmess_Store m (vmess_auth_users sx us))"
proof -
  have "\<forall>u \<in> set us. \<exists>k. vmess_user_key u = Inr (Some k)" using assms by (force simp: vmess_entries_ok_def)
  moreover have "vmess_key ` snd ` set m = fst ` set m"
    using assms(1) by (force simp: vmess_entries_ok_def vmess_key_def image_iff split: prod.splits)
  ultimately show ?thesis using vmess_auth_keys [of us sx] assms by (simp add: vmess_index_ok_def)
qed

lemma hm_insert_keys: "fst ` set (hm_insert k v m) = insert k (fst ` set m)"
  by (induction m) (auto simp: hm_insert_def)

lemma keyed_state_keys:
  "fst ` set (keyed_user_state key us) = key ` {u \<in> set us. \<not> user_is_empty u}"
proof -
  have "fst ` set (fold (\<lambda>u m. if user_is_empty u then m else hm_insert (key u) u m) us m) =
      fst ` set m \<union> key ` {u \<in> set us. \<not> user_is_empty u}" for m
    by (induction us arbitrary: m) (auto simp: hm_insert_keys)
  then show ?thesis by (simp add: keyed_user_state_def)
qed

lemma vmess_built_ok:
  assumes "valid_vmess_users users = Inr valid"
  shows "vmess_index_ok (Vmess_Store (keyed_user_state vmess_key valid) (vmess_auth_users sx valid))"
proof -
  note ok = valid_vmess_users_ok [OF assms]
  then have "{u \<in> set valid. \<not> user_is_empty u} = set valid" by auto
  then have "va_user_key ` set (vmess_auth_users sx valid) = fst ` set (keyed_user_state vmess_key valid)"
    using vmess_auth_keys [of valid sx] keyed_state_keys [of vmess_key valid] ok by simp
  with ok show ?thesis by (simp add: vmess_index_ok_def entries_state)
qed

lemma vmess_delta_users_ok:
  assumes "vmess_delta delta = Inr d" "u \<in> delta_users d"
  shows "\<exists>k. vmess_user_key u = Inr (Some k)"
  using assms by (auto simp: vmess_delta_def delta_users_def result_simps split: option.splits dest!: valid_vmess_users_ok)

lemma vmess_index_other: "table_fits p tbl \<Longrightarrow> p \<noteq> Vmess \<Longrightarrow> vmess_index_ok tbl"
  by (cases tbl) (simp_all add: vmess_index_ok_def)

lemma vmess_index_replace:
  assumes "replace_users sx users srv lms = Inr (srv', lms')"
  shows "vmess_index_ok (se_table srv')"
proof (cases "se_protocol srv = Vmess")
  case True
  with assms show ?thesis
    by (auto simp: replace_defs result_simps replace_keyed_users_def intro: vmess_built_ok)
next
  case False
  with replace_users_frame [OF assms] show ?thesis using vmess_index_other by auto
qed

lemma set_store_list: "set (store_list m) = snd ` set m"
  by (simp add: store_list_def)

lemma vmess_index_delta:
  assumes "apply_user_delta sx delta srv lms = Inr (r, srv', lms')" "vmess_index_ok (se_table srv)"
    and "table_fits (se_protocol srv) (se_table srv)"
  shows "vmess_index_ok (se_table srv')"
proof (cases "se_protocol srv = Vmess")
  case True
  with assms(2,3) have "vmess_entries_ok (table_map (se_table srv))"
    by (cases "se_table srv") (simp_all add: vmess_index_ok_def table_map_def)
  moreover from True assms(1) obtain d where d: "vmess_delta delta = Inr d" and
    "se_table srv' = (let store = fst (apply_keyed_delta vmess_key d (table_map (se_table srv)))
                      in Vmess_Store store (vmess_auth_users sx (store_list store)))"
    by (auto simp: delta_defs result_simps with_table_def Let_def case_prod_beta)
  ultimately show ?thesis
    using vmess_table_ok [OF entries_delta set_store_list] vmess_delta_users_ok [OF d] by (simp add: Let_def)
next
  case False
  with apply_user_delta_frame [OF assms(1)] show ?thesis using vmess_index_other by auto
qed

lemma vmess_index_reach:
  "server_reach sx srv \<Longrightarrow> vmess_index_ok (se_table srv) \<and> table_fits (se_protocol srv) (se_table srv)"
proof (induction rule: server_reach.induct)
  case (build p users routes srv)
  then show ?case
    using new_server_frame [OF build] vmess_index_other [of p "se_table srv"]
    by (cases "p = Vmess") (auto simp: build_defs server_of_def result_simps intro: vmess_built_ok)
next
  case (users srv users lms srv' lms')
  from replace_users_frame [OF users.hyps(2)] vmess_index_replace [OF users.hyps(2)] show ?case by auto
next
  case (delta srv delta lms r srv' lms')
  from apply_user_delta_frame [OF delta.hyps(2)] vmess_index_delta [OF delta.hyps(2)] delta.IH show ?case by auto
qed (simp add: replace_routes_def)

text \<open>
  C26. On every reachable VMess server the keys tried on a client's first packet are exactly the keys of the
  stored users: an authenticated client is always found in the store, and no stored user is left untried.
\<close>

theorem vmess_index_exact:
  assumes "server_reach sx srv" "se_table srv = Vmess_Store m as"
  shows "va_user_key ` set as = fst ` set m"
  using vmess_index_reach [OF assms(1)] assms(2) by (simp add: vmess_index_ok_def)

theorem vmess_index_exact_witness:
  "va_user_key ` set (vmess_auth_users example_env [vmess_user]) = {''00112233445566778899aabbccddeeff''}"
  using vmess_index_exact [OF vmess_server_reach, of "[(''00112233445566778899aabbccddeeff'', vmess_user)]"]
  by (simp add: vmess_server_def server_of_def)

section \<open>UUID text\<close>

lemma hex_digits:
  "\<forall>d \<in> set [0..<16]. to_digit 16 (hex_digit d) = Some d \<and> of_char (hex_digit d) < (128 :: nat) \<and>
     hex_digit d \<noteq> CHR ''-'' \<and> hex_digit d \<noteq> CHR ''+''"
  by code_simp

lemma hex_pair_bytes:
  assumes "b < 256"
  shows "parse_radix 16 255 [hex_digit (b div 16), hex_digit (b mod 16)] = Some b"
    and "d \<in> {b div 16, b mod 16} \<Longrightarrow> of_char (hex_digit d) < (128 :: nat) \<and> hex_digit d \<noteq> CHR ''-''"
proof -
  have "b div 16 < 16" "b mod 16 < 16" "16 * (b div 16) + b mod 16 = b" using assms by simp_all
  then show "parse_radix 16 255 [hex_digit (b div 16), hex_digit (b mod 16)] = Some b"
    and "d \<in> {b div 16, b mod 16} \<Longrightarrow> of_char (hex_digit d) < (128 :: nat) \<and> hex_digit d \<noteq> CHR ''-''"
    using assms hex_digits by (auto simp: parse_radix_def)
qed

lemma hex_lower_ascii:
  assumes "\<forall>b \<in> set bs. b < 256" "c \<in> set (hex_lower bs)"
  shows "of_char c < (128 :: nat) \<and> c \<noteq> CHR ''-''"
  using assms hex_pair_bytes(2) by (fastforce simp: hex_lower_def)

lemma length_hex_lower [simp]: "length (hex_lower bs) = 2 * length bs"
  by (induction bs) (simp_all add: hex_lower_def)

lemma hex_lower_pair: "i < length bs \<Longrightarrow> take 2 (drop (i * 2) (hex_lower bs)) = [hex_digit (bs ! i div 16), hex_digit (bs ! i mod 16)]"
proof (induction bs arbitrary: i)
  case (Cons b bs)
  then show ?case by (cases i) (simp_all add: hex_lower_def)
qed simp

lemma hex_lower_slice:
  assumes "\<forall>b \<in> set bs. b < 256" "i < length bs"
  shows "str_slice (hex_lower bs) (i * 2) (i * 2 + 2) = Inr [hex_digit (bs ! i div 16), hex_digit (bs ! i mod 16)]"
proof -
  have "is_char_boundary (hex_lower bs) j" if "j \<le> length (hex_lower bs)" for j
    using that hex_lower_ascii [OF assms(1), of "hex_lower bs ! j"] by (auto simp: is_char_boundary_def not_le)
  then show ?thesis using assms(2) hex_lower_pair [OF assms(2)] by (simp add: str_slice_def)
qed

lemma uuid_bytes_hex_lower:
  assumes "\<forall>b \<in> set bs. b < 256" "set is \<subseteq> {..<length bs}"
  shows "uuid_bytes_from proto (hex_lower bs) is = Inr (map (\<lambda>i. bs ! i) is)"
  using assms(2)
proof (induction "is")
  case (Cons i "is")
  then have "i < length bs" "bs ! i < 256" using assms(1) by auto
  moreover from this(2) have "parse_radix 16 255 [hex_digit (bs ! i div 16), hex_digit (bs ! i mod 16)] = Some (bs ! i)"
    by (rule hex_pair_bytes)
  ultimately show ?case using Cons hex_lower_slice [OF assms(1)] by (simp add: result_simps and_then_def)
qed simp

text \<open>
  The compact form a VMess server keys its users by is read back as the same sixteen bytes, so a key found in
  the index and the uuid it was made from name the same user.
\<close>

theorem uuid_text_roundtrip:
  assumes "length bs = 16" "\<forall>b \<in> set bs. b < 256"
  shows "vmess_parse_uuid_bytes (format_uuid_compact bs) = Inr bs"
proof -
  have "filter (\<lambda>c. c \<noteq> CHR ''-'') (hex_lower bs) = hex_lower bs"
    using hex_lower_ascii [OF assms(2)] by (simp add: filter_id_conv)
  moreover have "map (\<lambda>i. bs ! i) [0..<16] = bs" using assms(1) map_nth [of bs] by simp
  ultimately show ?thesis
    using uuid_bytes_hex_lower [OF assms(2), of "[0..<16]" "''vmess''"] assms(1)
    by (simp add: lessThan_atLeast0 vmess_parse_uuid_bytes_def parse_uuid_bytes_def format_uuid_compact_def)
qed

theorem uuid_text_roundtrip_witness: "vmess_parse_uuid_bytes (format_uuid_compact [0..<16]) = Inr [0..<16]"
  by (rule uuid_text_roundtrip) simp_all

text \<open>
  A TUIC or VMess inbound panics on a user whose uuid is 32 bytes long once its dashes are removed and has
  a character of several bytes across byte offset 2, for any users listed after it and whatever the table holds.
\<close>

theorem non_ascii_uuid_panics:
  assumes "se_protocol srv \<in> {Tuic, Vmess}" "\<not> user_is_empty u"
    and "length (filter (\<lambda>c. c \<noteq> CHR ''-'') (cu_uuid u)) = 32"
    and "\<not> is_char_boundary (filter (\<lambda>c. c \<noteq> CHR ''-'') (cu_uuid u)) 2"
  shows "replace_users sx (u # users) srv lms = Inl Panic"
proof -
  have "parse_uuid_bytes proto (cu_uuid u) = Inl Panic" for proto
    using assms(3,4) upt_conv_Cons [of 0 16] by (simp add: parse_uuid_bytes_def Let_def and_then_def str_slice_def numeral_2_eq_2)
  then show ?thesis
    using assms(1,2) by (auto simp: replace_defs tuic_panics_def tuic_parse_uuid_bytes_def vmess_user_key_def
        vmess_parse_uuid_bytes_def ok_or_none_def and_then_def)
qed

definition accented_uuid_user :: core_user where
  "accented_uuid_user = example_user (CHR ''0'' # CHR 0xC3 # CHR 0xA9 # replicate 29 (CHR ''0'')) ''p''"

theorem non_ascii_uuid_panics_witness:
  "replace_users example_env [accented_uuid_user] vmess_server (default_limiters, default_tracker) = Inl Panic"
proof (rule non_ascii_uuid_panics)
  show "se_protocol vmess_server \<in> {Tuic, Vmess}" by (simp add: vmess_server_def server_of_def)
  show "\<not> user_is_empty accented_uuid_user" "length (filter (\<lambda>c. c \<noteq> CHR ''-'') (cu_uuid accented_uuid_user)) = 32"
    "\<not> is_char_boundary (filter (\<lambda>c. c \<noteq> CHR ''-'') (cu_uuid accented_uuid_user)) 2" by code_simp+
qed

end
