(* ===== verification/Traffic.thy ===== *)
theory Traffic
  imports Sharded NetAddr
begin

text \<open>
  The traffic registry of \<^verbatim>\<open>src/traffic.rs\<close>: per-user byte counters split over 64 shards. The hash of
  a key is an argument of the operations. A drain locks one shard after the other, so other
  connections may add traffic between two shards; \<open>traffic_step\<close> has the single critical sections as
  its events, and the accounting theorem holds for every interleaving of them.
\<close>

section \<open>Records and counters\<close>

record tkey =
  tk_node_tag :: string
  tk_user_uuid :: string

record traffic_delta =
  td_node_tag :: string
  td_user_uuid :: string
  td_user_id :: "u64 option"
  td_upload :: u64
  td_download :: u64
  td_online_ips :: "string list"

type_synonym traffic_registry = "(tkey, traffic_delta) shards"

definition traffic_registry_shards :: nat where
  "traffic_registry_shards = 64"

definition traffic_default :: traffic_registry where
  "traffic_default = empty_shards traffic_registry_shards"

definition traffic_index :: "(tkey \<Rightarrow> u64) \<Rightarrow> tkey \<Rightarrow> nat" where
  "traffic_index hash key = unat (hash key) mod traffic_registry_shards"

definition traffic_entry :: "tkey \<Rightarrow> u64 option \<Rightarrow> (tkey, traffic_delta) hmap \<Rightarrow> traffic_delta" where
  "traffic_entry key uid shard =
     (case hm_get shard key of
        Some e \<Rightarrow> e
      | None \<Rightarrow> \<lparr>td_node_tag = tk_node_tag key, td_user_uuid = tk_user_uuid key, td_user_id = uid,
                 td_upload = 0, td_download = 0, td_online_ips = []\<rparr>)"

definition add_counters :: "u64 option \<Rightarrow> u64 \<Rightarrow> u64 \<Rightarrow> traffic_delta \<Rightarrow> traffic_delta" where
  "add_counters uid up down e =
     e\<lparr>td_user_id := (case td_user_id e of None \<Rightarrow> uid | Some i \<Rightarrow> Some i),
       td_upload := saturating_add (td_upload e) up,
       td_download := saturating_add (td_download e) down\<rparr>"

definition push_client_ip :: "ip_addr option \<Rightarrow> traffic_delta \<Rightarrow> traffic_delta" where
  "push_client_ip client_ip e =
     (case client_ip of
        None \<Rightarrow> e
      | Some ip \<Rightarrow>
          (if show_ip ip \<in> set (td_online_ips e) then e
           else e\<lparr>td_online_ips := sort (td_online_ips e @ [show_ip ip])\<rparr>))"

definition add_with_user_id ::
    "(tkey \<Rightarrow> u64) \<Rightarrow> string \<Rightarrow> string \<Rightarrow> u64 option \<Rightarrow> u64 \<Rightarrow> u64 \<Rightarrow> ip_addr option
      \<Rightarrow> traffic_registry \<Rightarrow> traffic_registry" where
  "add_with_user_id hash node_tag user_uuid uid up down client_ip reg =
     (let key = \<lparr>tk_node_tag = node_tag, tk_user_uuid = user_uuid\<rparr>
      in at_shard (traffic_index hash) key
           (\<lambda>shard. hm_insert key
              (push_client_ip client_ip (add_counters uid up down (traffic_entry key uid shard))) shard)
           reg)"

definition add_with_ip where
  "add_with_ip hash node_tag user_uuid up down client_ip =
     add_with_user_id hash node_tag user_uuid None up down client_ip"

definition add where
  "add hash node_tag user_uuid up down = add_with_ip hash node_tag user_uuid up down None"

definition merge_ips :: "string list \<Rightarrow> string list \<Rightarrow> string list" where
  "merge_ips new old = sort (fold (\<lambda>ip ips. if ip \<in> set ips then ips else ips @ [ip]) new old)"

definition add_delta :: "(tkey \<Rightarrow> u64) \<Rightarrow> traffic_delta \<Rightarrow> traffic_registry \<Rightarrow> traffic_registry" where
  "add_delta hash d reg =
     (let key = \<lparr>tk_node_tag = td_node_tag d, tk_user_uuid = td_user_uuid d\<rparr>
      in at_shard (traffic_index hash) key
           (\<lambda>shard.
              let e = add_counters (td_user_id d) (td_upload d) (td_download d)
                        (traffic_entry key (td_user_id d) shard)
              in hm_insert key (e\<lparr>td_online_ips := merge_ips (td_online_ips d) (td_online_ips e)\<rparr>) shard)
           reg)"

definition add_deltas :: "(tkey \<Rightarrow> u64) \<Rightarrow> traffic_delta list \<Rightarrow> traffic_registry \<Rightarrow> traffic_registry" where
  "add_deltas hash records reg = fold (add_delta hash) records reg"

section \<open>Draining\<close>

definition sort_records :: "traffic_delta list \<Rightarrow> traffic_delta list" where
  "sort_records = sort_key (\<lambda>r. (td_node_tag r, td_user_uuid r))"

definition drain_shard :: "nat \<Rightarrow> traffic_registry \<times> traffic_delta list \<Rightarrow> traffic_registry \<times> traffic_delta list" where
  "drain_shard i = (\<lambda>(reg, records). (reg[i := []], records @ map snd (reg ! i)))"

definition drain_all :: "traffic_registry \<Rightarrow> traffic_delta list \<times> traffic_registry" where
  "drain_all reg =
     (let (reg', records) = fold drain_shard [0..<length reg] (reg, [])
      in (sort_records records, reg'))"

definition reaches :: "u64 \<Rightarrow> traffic_delta \<Rightarrow> bool" where
  "reaches minimum_bytes e \<longleftrightarrow> minimum_bytes \<le> saturating_add (td_upload e) (td_download e)"

definition take_key :: "tkey \<Rightarrow> (tkey, traffic_delta) hmap \<times> traffic_delta list
    \<Rightarrow> (tkey, traffic_delta) hmap \<times> traffic_delta list" where
  "take_key key = (\<lambda>(shard, records).
     case hm_get shard key of
       Some e \<Rightarrow> (hm_remove key shard, records @ [e])
     | None \<Rightarrow> (shard, records))"

definition drain_shard_minimum ::
    "u64 \<Rightarrow> nat \<Rightarrow> traffic_registry \<times> traffic_delta list \<Rightarrow> traffic_registry \<times> traffic_delta list" where
  "drain_shard_minimum minimum_bytes i = (\<lambda>(reg, records).
     let keys = map fst (filter (\<lambda>(key, e). reaches minimum_bytes e) (reg ! i));
         (shard, records') = fold take_key keys (reg ! i, records)
     in (reg[i := shard], records'))"

definition drain_minimum :: "u64 \<Rightarrow> traffic_registry \<Rightarrow> traffic_delta list \<times> traffic_registry" where
  "drain_minimum minimum_bytes reg =
     (let (reg', records) = fold (drain_shard_minimum minimum_bytes) [0..<length reg] (reg, [])
      in (sort_records records, reg'))"

definition registry_len :: "traffic_registry \<Rightarrow> nat" where
  "registry_len reg = sum_list (map length reg)"

definition registry_is_empty :: "traffic_registry \<Rightarrow> bool" where
  "registry_is_empty reg \<longleftrightarrow> list_all (\<lambda>shard. shard = []) reg"

section \<open>The registry as one map\<close>

definition rec_key :: "traffic_delta \<Rightarrow> tkey" where
  "rec_key r = \<lparr>tk_node_tag = td_node_tag r, tk_user_uuid = td_user_uuid r\<rparr>"

definition entry_ok :: "tkey \<Rightarrow> traffic_delta \<Rightarrow> bool" where
  "entry_ok key e \<longleftrightarrow> rec_key e = key \<and> sorted (td_online_ips e) \<and> distinct (td_online_ips e)"

definition traffic_inv :: "(tkey \<Rightarrow> u64) \<Rightarrow> traffic_registry \<Rightarrow> bool" where
  "traffic_inv hash reg \<longleftrightarrow>
     shards_inv (traffic_index hash) traffic_registry_shards reg \<and>
     (\<forall>key e. shard_view reg key = Some e \<longrightarrow> entry_ok key e)"

definition entry_in :: "(tkey \<Rightarrow> traffic_delta option) \<Rightarrow> tkey \<Rightarrow> u64 option \<Rightarrow> traffic_delta" where
  "entry_in v key uid = traffic_entry key uid (case v key of None \<Rightarrow> [] | Some e \<Rightarrow> [(key, e)])"

lemma traffic_shards_pos: "0 < traffic_registry_shards"
  by (simp add: traffic_registry_shards_def)

interpretation traffic_map: shard_family "traffic_index hash" traffic_registry_shards for hash
  by unfold_locales (simp add: traffic_index_def traffic_shards_pos)

lemma entry_in_view:
  assumes "shards_inv (traffic_index hash) traffic_registry_shards reg"
  shows "traffic_entry key uid (reg ! traffic_index hash key) = entry_in (shard_view reg) key uid"
  using traffic_map.lookup [OF assms, of key]
  by (simp add: entry_in_def traffic_entry_def split: option.split)

lemma rec_key_add [simp]: "rec_key (add_counters uid up down e) = rec_key e"
    "rec_key (push_client_ip ip e) = rec_key e" "rec_key (e\<lparr>td_online_ips := ips\<rparr>) = rec_key e"
  by (simp_all add: rec_key_def add_counters_def push_client_ip_def split: option.split)

lemma ips_add_counters [simp]: "td_online_ips (add_counters uid up down e) = td_online_ips e"
  by (simp add: add_counters_def)

lemma entry_ok_entry_in: "(\<And>e. v key = Some e \<Longrightarrow> entry_ok key e) \<Longrightarrow> entry_ok key (entry_in v key uid)"
  by (auto simp: entry_in_def traffic_entry_def entry_ok_def rec_key_def split: option.split)

lemma entry_ok_push: "entry_ok key e \<Longrightarrow> entry_ok key (push_client_ip ip (add_counters uid up down e))"
  by (auto simp: entry_ok_def push_client_ip_def split: option.split)

lemma merge_ips_ok: "distinct old \<Longrightarrow> sorted (merge_ips new old) \<and> distinct (merge_ips new old)"
proof -
  have "distinct old \<Longrightarrow> distinct (fold (\<lambda>ip ips. if ip \<in> set ips then ips else ips @ [ip]) new old)"
    by (induction new arbitrary: old) auto
  then show "distinct old \<Longrightarrow> ?thesis" by (simp add: merge_ips_def)
qed

lemma merge_ips_set: "set (merge_ips new old) = set new \<union> set old"
proof -
  have "set (fold (\<lambda>ip ips. if ip \<in> set ips then ips else ips @ [ip]) new old) = set new \<union> set old"
    by (induction new arbitrary: old) auto
  then show ?thesis by (simp add: merge_ips_def)
qed

lemma entry_ok_merge: "entry_ok key e \<Longrightarrow> entry_ok key (e\<lparr>td_online_ips := merge_ips new (td_online_ips e)\<rparr>)"
  using merge_ips_ok [of "td_online_ips e" new] by (simp add: entry_ok_def)

text \<open>An insertion at the shard of a key is an update of the map at that key.\<close>

lemma traffic_insert:
  fixes hash :: "tkey \<Rightarrow> u64"
  assumes "traffic_inv hash reg" "entry_ok key (f (entry_in (shard_view reg) key uid))"
  defines "reg' \<equiv> at_shard (traffic_index hash) key (\<lambda>shard. hm_insert key (f (traffic_entry key uid shard)) shard) reg"
  shows "traffic_inv hash reg'"
    and "shard_view reg' = (shard_view reg)(key \<mapsto> f (entry_in (shard_view reg) key uid))"
proof -
  have inv: "shards_inv (traffic_index hash) traffic_registry_shards reg"
    using assms(1) by (simp add: traffic_inv_def)
  have "shard_view reg' = (shard_view reg)(key \<mapsto> f (traffic_entry key uid (reg ! traffic_index hash key)))"
    unfolding reg'_def by (subst traffic_map.view_at [OF inv key_local_insert]) simp
  then show v: "shard_view reg' = (shard_view reg)(key \<mapsto> f (entry_in (shard_view reg) key uid))"
    by (simp add: entry_in_view [OF inv])
  have "shards_inv (traffic_index hash) traffic_registry_shards reg'"
    unfolding reg'_def by (rule traffic_map.inv_at [OF inv key_local_insert])
  then show "traffic_inv hash reg'"
    using assms(1,2) v by (simp add: traffic_inv_def)
qed

lemma traffic_inv_ok: "traffic_inv hash reg \<Longrightarrow> entry_ok key (entry_in (shard_view reg) key uid)"
  by (intro entry_ok_entry_in) (simp add: traffic_inv_def)

lemma add_with_user_id_view:
  fixes tag uuid :: string
  assumes "traffic_inv hash reg"
  defines "key \<equiv> \<lparr>tk_node_tag = tag, tk_user_uuid = uuid\<rparr>"
  shows "traffic_inv hash (add_with_user_id hash tag uuid uid up down ip reg)"
    and "shard_view (add_with_user_id hash tag uuid uid up down ip reg) =
           (shard_view reg)(key \<mapsto> push_client_ip ip (add_counters uid up down (entry_in (shard_view reg) key uid)))"
  using traffic_insert [where f = "\<lambda>e. push_client_ip ip (add_counters uid up down e)", OF assms(1)
      entry_ok_push [OF traffic_inv_ok [OF assms(1)]]]
  by (simp_all add: add_with_user_id_def key_def Let_def)

lemma add_delta_view:
  fixes d :: traffic_delta
  assumes "traffic_inv hash reg"
  defines "e \<equiv> add_counters (td_user_id d) (td_upload d) (td_download d)
                  (entry_in (shard_view reg) (rec_key d) (td_user_id d))"
  shows "traffic_inv hash (add_delta hash d reg)"
    and "shard_view (add_delta hash d reg) =
           (shard_view reg)(rec_key d \<mapsto> e\<lparr>td_online_ips := merge_ips (td_online_ips d) (td_online_ips e)\<rparr>)"
proof -
  let ?f = "\<lambda>e. let e' = add_counters (td_user_id d) (td_upload d) (td_download d) e
              in e'\<lparr>td_online_ips := merge_ips (td_online_ips d) (td_online_ips e')\<rparr>"
  have "entry_ok (rec_key d) (?f (entry_in (shard_view reg) (rec_key d) (td_user_id d)))"
    using traffic_inv_ok [OF assms(1), of "rec_key d" "td_user_id d"]
      entry_ok_merge [of "rec_key d" e "td_online_ips d"]
    by (simp add: e_def Let_def entry_ok_def)
  from traffic_insert [where f = ?f, OF assms(1) this] show
    "traffic_inv hash (add_delta hash d reg)"
    "shard_view (add_delta hash d reg) =
       (shard_view reg)(rec_key d \<mapsto> e\<lparr>td_online_ips := merge_ips (td_online_ips d) (td_online_ips e)\<rparr>)"
    by (simp_all add: add_delta_def rec_key_def e_def Let_def)
qed

section \<open>Accounting\<close>

datatype direction = Upload | Download

fun counter :: "direction \<Rightarrow> traffic_delta \<Rightarrow> u64" where
  "counter Upload r = td_upload r"
| "counter Download r = td_download r"

text \<open>
  The critical sections of the registry: an addition locks the shard of its key, a drain locks one
  shard at a time and appends what it takes to the records it will report.
\<close>

datatype traffic_event =
    Ev_Add string string "u64 option" u64 u64 "ip_addr option"
  | Ev_Delta traffic_delta
  | Ev_Drain_Shard nat
  | Ev_Drain_Shard_Minimum u64 nat

fun traffic_step ::
    "(tkey \<Rightarrow> u64) \<Rightarrow> traffic_event \<Rightarrow> traffic_registry \<times> traffic_delta list
      \<Rightarrow> traffic_registry \<times> traffic_delta list" where
  "traffic_step hash (Ev_Add tag uuid uid up down ip) (reg, out) =
     (add_with_user_id hash tag uuid uid up down ip reg, out)"
| "traffic_step hash (Ev_Delta d) (reg, out) = (add_delta hash d reg, out)"
| "traffic_step hash (Ev_Drain_Shard i) (reg, out) = drain_shard i (reg, out)"
| "traffic_step hash (Ev_Drain_Shard_Minimum mb i) (reg, out) = drain_shard_minimum mb i (reg, out)"

fun added :: "direction \<Rightarrow> tkey \<Rightarrow> traffic_event \<Rightarrow> nat" where
  "added dir key (Ev_Add tag uuid uid up down ip) =
     (if key = \<lparr>tk_node_tag = tag, tk_user_uuid = uuid\<rparr>
      then unat (case dir of Upload \<Rightarrow> up | Download \<Rightarrow> down) else 0)"
| "added dir key (Ev_Delta d) = (if key = rec_key d then unat (counter dir d) else 0)"
| "added dir key _ = 0"

definition held :: "direction \<Rightarrow> tkey \<Rightarrow> traffic_registry \<Rightarrow> nat" where
  "held dir key reg = (case shard_view reg key of None \<Rightarrow> 0 | Some e \<Rightarrow> unat (counter dir e))"

definition reported :: "direction \<Rightarrow> tkey \<Rightarrow> traffic_delta list \<Rightarrow> nat" where
  "reported dir key records = (\<Sum>r \<leftarrow> filter (\<lambda>r. rec_key r = key) records. unat (counter dir r))"

lemma counter_add:
  "counter dir (push_client_ip ip (add_counters uid up down e))
     = saturating_add (counter dir e) (case dir of Upload \<Rightarrow> up | Download \<Rightarrow> down)"
  "counter dir (e\<lparr>td_online_ips := ips\<rparr>) = counter dir e"
  "counter dir (add_counters uid up down e)
     = saturating_add (counter dir e) (case dir of Upload \<Rightarrow> up | Download \<Rightarrow> down)"
  by (cases dir; simp add: push_client_ip_def add_counters_def split: option.split)+

lemma counter_entry_in:
  "unat (counter dir (entry_in (shard_view reg) key uid)) = held dir key reg"
  by (cases dir) (simp_all add: entry_in_def traffic_entry_def held_def split: option.split)

lemma reported_append [simp]: "reported dir key (xs @ ys) = reported dir key xs + reported dir key ys"
  by (simp add: reported_def)

lemma reported_Cons:
  "reported dir key (r # rs) = (if rec_key r = key then unat (counter dir r) else 0) + reported dir key rs"
  by (simp add: reported_def)

lemma reported_one:
  assumes "hm_wf m" "\<And>k e. (k, e) \<in> set m \<Longrightarrow> rec_key e = k"
  shows "reported dir key (map snd m) = (case hm_get m key of None \<Rightarrow> 0 | Some e \<Rightarrow> unat (counter dir e))"
  using assms
proof (induction m)
  case (Cons p m)
  obtain k e where p: "p = (k, e)" by force
  have k: "rec_key e = k" using Cons.prems(2) p by simp
  have IH: "reported dir key (map snd m) = (case hm_get m key of None \<Rightarrow> 0 | Some e \<Rightarrow> unat (counter dir e))"
    using Cons by (simp add: hm_wf_def)
  have "key = k \<Longrightarrow> hm_get m key = None"
    using Cons.prems(1) p by (auto simp: hm_wf_def map_of_eq_None_iff)
  with IH k show ?case by (auto simp: p reported_Cons)
qed (simp add: reported_def)

text \<open>Removing the keys that reach the minimum splits the shard in two.\<close>

lemma fold_take_key:
  assumes "hm_wf m" "hm_wf xs" "set xs \<subseteq> set m"
  shows "fold take_key (map fst xs) (m, records)
           = (filter (\<lambda>p. fst p \<notin> fst ` set xs) m, records @ map snd xs)"
  using assms
proof (induction xs arbitrary: m records)
  case (Cons p xs)
  obtain k e where p: "p = (k, e)" by force
  have get: "hm_get m k = Some e" using Cons.prems p by (auto simp: hm_wf_def)
  have k: "k \<notin> fst ` set xs" using Cons.prems(2) p by (simp add: hm_wf_def)
  then have "set xs \<subseteq> set (hm_remove k m)"
    using Cons.prems(3) by (force simp: set_hm_remove)
  moreover have "hm_wf (hm_remove k m)" "hm_wf xs"
    using Cons.prems(1,2) by (simp_all add: hm_wf_def [of "p # xs"] hm_wf_def [of xs])
  ultimately have "fold take_key (map fst xs) (hm_remove k m, records @ [e])
      = (filter (\<lambda>p. fst p \<notin> fst ` set xs) (hm_remove k m), (records @ [e]) @ map snd xs)"
    by (intro Cons.IH)
  moreover have "filter (\<lambda>p. fst p \<notin> fst ` set xs) (hm_remove k m)
      = filter (\<lambda>q. fst q \<notin> fst ` set (p # xs)) m"
    by (simp add: hm_remove_def p conj_commute case_prod_beta')
  moreover have "take_key k (m, records) = (hm_remove k m, records @ [e])"
    by (simp add: take_key_def get)
  ultimately show ?case by (simp add: p)
qed simp

lemma drain_shard_minimum_eq:
  assumes "hm_wf (reg ! i)"
  shows "drain_shard_minimum mb i (reg, out) =
     (reg[i := filter (\<lambda>p. \<not> reaches mb (snd p)) (reg ! i)],
      out @ map snd (filter (\<lambda>p. reaches mb (snd p)) (reg ! i)))"
proof -
  let ?m = "reg ! i" and ?P = "\<lambda>p. reaches mb (snd p)"
  have "fold take_key (map fst (filter ?P ?m)) (?m, out)
      = (filter (\<lambda>p. fst p \<notin> fst ` set (filter ?P ?m)) ?m, out @ map snd (filter ?P ?m))"
    by (rule fold_take_key) (use assms in \<open>auto simp: hm_wf_filter\<close>)
  moreover have "filter (\<lambda>p. fst p \<notin> fst ` set (filter ?P ?m)) ?m = filter (\<lambda>p. \<not> ?P p) ?m"
  proof (rule filter_cong [OF refl])
    fix p assume "p \<in> set ?m"
    with assms show "fst p \<notin> fst ` set (filter ?P ?m) \<longleftrightarrow> \<not> ?P p"
      by (cases p) (force simp: hm_wf_def dest: eq_key_imp_eq_value)
  qed
  ultimately show ?thesis
    by (simp add: drain_shard_minimum_def case_prod_beta' Let_def)
qed

lemma drain_shard_eq:
  "drain_shard i (reg, out) = (reg[i := filter (\<lambda>p. \<not> True) (reg ! i)], out @ map snd (filter (\<lambda>p. True) (reg ! i)))"
  by (simp add: drain_shard_def)

text \<open>Taking part of a shard moves the counters from the registry to the report.\<close>

lemma take_from_shard:
  fixes hash :: "tkey \<Rightarrow> u64" and reg :: traffic_registry and P :: "tkey \<times> traffic_delta \<Rightarrow> bool" and i :: nat
  assumes "traffic_inv hash reg" "i < traffic_registry_shards"
  defines "reg' \<equiv> reg[i := filter (\<lambda>p. \<not> P p) (reg ! i)]"
  shows "traffic_inv hash reg'"
    and "held dir key reg' + reported dir key (map snd (filter P (reg ! i))) = held dir key reg"
proof -
  have inv: "shards_inv (traffic_index hash) traffic_registry_shards reg"
    using assms(1) by (simp add: traffic_inv_def)
  note view = traffic_map.view_filter_at [OF inv, of i "\<lambda>p. \<not> P p", folded reg'_def]
  have inv': "shards_inv (traffic_index hash) traffic_registry_shards reg'"
    unfolding reg'_def by (rule traffic_map.inv_filter_at [OF inv])
  then show "traffic_inv hash reg'"
    using assms(1) by (auto simp: traffic_inv_def view split: option.splits if_splits)
  have wf: "hm_wf (reg ! i)" by (rule shards_inv_nth(1) [OF inv assms(2)])
  have key: "rec_key e = k \<and> traffic_index hash k = i" if "(k, e) \<in> set (reg ! i)" for k e
  proof -
    have "traffic_index hash k = i" by (rule shards_inv_nth(2) [OF inv assms(2) that])
    moreover have "hm_get (reg ! i) k = Some e" using wf that by (simp add: hm_wf_def)
    ultimately show ?thesis
      using traffic_map.lookup [OF inv, of k] assms(1) by (simp add: traffic_inv_def entry_ok_def)
  qed
  have "reported dir key (map snd (filter P (reg ! i)))
      = (case hm_get (filter P (reg ! i)) key of None \<Rightarrow> 0 | Some e \<Rightarrow> unat (counter dir e))"
    by (rule reported_one) (use wf key in \<open>auto simp: hm_wf_filter\<close>)
  moreover have "hm_get (filter P (reg ! i)) key
      = (case hm_get (reg ! i) key of None \<Rightarrow> None | Some e \<Rightarrow> if P (key, e) then Some e else None)"
    using hm_get_retain [OF wf, of "\<lambda>k v. P (k, v)" key] by (simp add: hm_retain_def case_prod_eta)
  moreover have "hm_get (reg ! i) key = (if traffic_index hash key = i then shard_view reg key else None)"
    using traffic_map.lookup [OF inv, of key] key by (auto simp: map_of_eq_None_iff)
  ultimately show "held dir key reg' + reported dir key (map snd (filter P (reg ! i))) = held dir key reg"
    by (auto simp: held_def view split: option.splits if_splits)
qed

fun shard_in_range :: "traffic_event \<Rightarrow> bool" where
  "shard_in_range (Ev_Drain_Shard i) \<longleftrightarrow> i < traffic_registry_shards"
| "shard_in_range (Ev_Drain_Shard_Minimum mb i) \<longleftrightarrow> i < traffic_registry_shards"
| "shard_in_range _ \<longleftrightarrow> True"

lemma unat_saturating_u64: "unat a + unat b < 2 ^ 64 \<Longrightarrow> unat (saturating_add a b :: u64) = unat a + unat b"
  by (simp add: unat_saturating_add)

lemma held_update:
  "shard_view reg' = (shard_view reg)(k \<mapsto> e) \<Longrightarrow>
     held dir key reg' = (if key = k then unat (counter dir e) else held dir key reg)"
  by (simp add: held_def)

lemma traffic_step_conserves:
  fixes hash :: "tkey \<Rightarrow> u64" and reg :: traffic_registry and out :: "traffic_delta list" and ev :: traffic_event
  assumes "traffic_inv hash reg" "shard_in_range ev"
  defines "s' \<equiv> traffic_step hash ev (reg, out)"
  shows "traffic_inv hash (fst s')"
    and "held dir key reg + reported dir key out + added dir key ev < 2 ^ 64 \<Longrightarrow>
           held dir key (fst s') + reported dir key (snd s') = held dir key reg + reported dir key out + added dir key ev"
proof -
  have "traffic_inv hash (fst s') \<and>
    (held dir key reg + reported dir key out + added dir key ev < 2 ^ 64 \<longrightarrow>
     held dir key (fst s') + reported dir key (snd s') = held dir key reg + reported dir key out + added dir key ev)"
  proof (cases ev)
    case (Ev_Add tag uuid uid up down ip)
    note v = add_with_user_id_view [OF assms(1), of tag uuid uid up down ip]
    show ?thesis
      using v(1) by (auto simp: s'_def Ev_Add held_update [OF v(2)] counter_add
          unat_saturating_u64 counter_entry_in)
  next
    case (Ev_Delta d)
    note v = add_delta_view [OF assms(1), of d]
    have "counter dir d = (case dir of Upload \<Rightarrow> td_upload d | Download \<Rightarrow> td_download d)"
      by (cases dir) simp_all
    with v(1) show ?thesis
      by (auto simp: s'_def Ev_Delta held_update [OF v(2)] counter_add unat_saturating_u64 counter_entry_in)
  next
    case (Ev_Drain_Shard i)
    note t = take_from_shard [where i = i and P = "\<lambda>_. True", OF assms(1)]
    show ?thesis
      using t(1) t(2) [where dir = dir and key = key] assms(2)
      by (simp add: s'_def Ev_Drain_Shard drain_shard_eq del: filter_True filter_False)
  next
    case (Ev_Drain_Shard_Minimum mb i)
    note t = take_from_shard [where i = i and P = "\<lambda>p. reaches mb (snd p)", OF assms(1)]
    have "hm_wf (reg ! i)"
      using assms(1,2) Ev_Drain_Shard_Minimum by (simp add: traffic_inv_def shards_inv_def)
    with t(1) t(2) [where dir = dir and key = key] assms(2) show ?thesis
      by (simp add: s'_def Ev_Drain_Shard_Minimum drain_shard_minimum_eq)
  qed
  then show "traffic_inv hash (fst s')"
    and "held dir key reg + reported dir key out + added dir key ev < 2 ^ 64 \<Longrightarrow>
           held dir key (fst s') + reported dir key (snd s') = held dir key reg + reported dir key out + added dir key ev"
    by simp_all
qed

lemma traffic_run_conserves:
  assumes "traffic_inv hash (fst s)" "\<forall>ev \<in> set evs. shard_in_range ev"
    and "held dir key (fst s) + reported dir key (snd s) + (\<Sum>ev \<leftarrow> evs. added dir key ev) < 2 ^ 64"
  shows "traffic_inv hash (fst (fold (traffic_step hash) evs s)) \<and>
         held dir key (fst (fold (traffic_step hash) evs s)) + reported dir key (snd (fold (traffic_step hash) evs s))
           = held dir key (fst s) + reported dir key (snd s) + (\<Sum>ev \<leftarrow> evs. added dir key ev)"
  using assms
proof (induction evs arbitrary: s)
  case (Cons ev evs)
  obtain reg out where s: "s = (reg, out)" by force
  note st = traffic_step_conserves [where hash = hash and reg = reg and ev = ev and out = out]
  have "traffic_inv hash (fst (traffic_step hash ev s))"
    "held dir key (fst (traffic_step hash ev s)) + reported dir key (snd (traffic_step hash ev s))
       = held dir key reg + reported dir key out + added dir key ev"
    using Cons.prems st(1) st(2) [where dir = dir and key = key] unfolding s by simp_all
  with Cons.IH [of "traffic_step hash ev s"] Cons.prems show ?case by (simp add: s)
qed simp

section \<open>Whole drains\<close>

lemma fold_shards:
  assumes "\<And>i reg out. i < length reg \<Longrightarrow> Q (reg ! i) \<Longrightarrow> step i (reg, out) = (reg[i := f (reg ! i)], out @ g (reg ! i))"
    and "\<forall>shard \<in> set reg. Q shard" "k \<le> length reg"
  shows "fold step [0..<k] (reg, out) = (map f (take k reg) @ drop k reg, out @ concat (map g (take k reg)))"
  using assms(3)
proof (induction k)
  case (Suc k)
  have nth: "(map f (take k reg) @ drop k reg) ! k = reg ! k"
    using Suc.prems by (simp add: nth_append)
  have "fold step [0..<Suc k] (reg, out)
      = step k (map f (take k reg) @ drop k reg, out @ concat (map g (take k reg)))"
    using Suc by simp
  also have "\<dots> = ((map f (take k reg) @ drop k reg)[k := f (reg ! k)],
      (out @ concat (map g (take k reg))) @ g (reg ! k))"
    using assms(1) [of k "map f (take k reg) @ drop k reg"] assms(2) Suc.prems nth by simp
  also have "(map f (take k reg) @ drop k reg)[k := f (reg ! k)] = map f (take (Suc k) reg) @ drop (Suc k) reg"
    using Suc.prems by (simp add: list_update_append take_Suc_conv_app_nth Cons_nth_drop_Suc [symmetric])
  finally show ?case using Suc.prems by (simp add: take_Suc_conv_app_nth)
qed simp

lemma drain_all_eq:
  "drain_all reg = (sort_records (map snd (concat reg)), replicate (length reg) [])"
proof -
  have "fold drain_shard [0..<length reg] (reg, [])
      = (map (\<lambda>_. []) (take (length reg) reg) @ drop (length reg) reg, [] @ concat (map (map snd) (take (length reg) reg)))"
    by (rule fold_shards [where Q = "\<lambda>_. True"]) (simp_all add: drain_shard_def)
  then show ?thesis by (simp add: drain_all_def map_concat map_replicate_const)
qed

lemma drain_minimum_eq:
  assumes "\<forall>shard \<in> set reg. hm_wf shard"
  shows "drain_minimum mb reg =
     (sort_records (map snd (filter (\<lambda>p. reaches mb (snd p)) (concat reg))),
      map (filter (\<lambda>p. \<not> reaches mb (snd p))) reg)"
proof -
  have "fold (drain_shard_minimum mb) [0..<length reg] (reg, [])
      = (map (filter (\<lambda>p. \<not> reaches mb (snd p))) (take (length reg) reg) @ drop (length reg) reg,
         [] @ concat (map (\<lambda>shard. map snd (filter (\<lambda>p. reaches mb (snd p)) shard)) (take (length reg) reg)))"
    by (rule fold_shards [where Q = hm_wf]) (simp_all add: drain_shard_minimum_eq assms)
  moreover have "concat (map (\<lambda>shard. map snd (filter P shard)) xss) = map snd (filter P (concat xss))"
    for P and xss :: traffic_registry by (induction xss) simp_all
  ultimately show ?thesis by (simp add: drain_minimum_def)
qed

lemma traffic_inv_wf: "traffic_inv hash reg \<Longrightarrow> \<forall>shard \<in> set reg. hm_wf shard"
  by (auto simp: traffic_inv_def shards_inv_def in_set_conv_nth)

text \<open>The records of a registry are its entries, one per key.\<close>

lemma registry_records:
  assumes "traffic_inv hash reg"
  shows "distinct (map rec_key (map snd (concat reg)))"
    and "r \<in> set (map snd (concat reg)) \<longleftrightarrow> shard_view reg (rec_key r) = Some r"
    and "r \<in> set (map snd (concat reg)) \<Longrightarrow> entry_ok (rec_key r) r"
proof -
  have inv: "shards_inv (traffic_index hash) traffic_registry_shards reg"
    using assms by (simp add: traffic_inv_def)
  have wf: "hm_wf (concat reg)" by (rule traffic_map.concat_wf [OF inv])
  have mem: "(k, e) \<in> set (concat reg) \<longleftrightarrow> shard_view reg k = Some e" for k e
    using wf by (simp add: shard_view_def hm_wf_def)
  have ok: "entry_ok k e" if "(k, e) \<in> set (concat reg)" for k e
    using assms that unfolding mem traffic_inv_def by blast
  then have key: "rec_key e = k" if "(k, e) \<in> set (concat reg)" for k e
    using that by (simp add: entry_ok_def)
  have eq: "map rec_key (map snd (concat reg)) = map fst (concat reg)"
    unfolding map_map by (rule map_cong [OF refl]) (use key in force)
  show "distinct (map rec_key (map snd (concat reg)))"
    using wf unfolding hm_wf_def eq .
  show "r \<in> set (map snd (concat reg)) \<longleftrightarrow> shard_view reg (rec_key r) = Some r"
  proof
    assume "r \<in> set (map snd (concat reg))"
    then obtain k where k: "(k, r) \<in> set (concat reg)" by force
    then show "shard_view reg (rec_key r) = Some r" unfolding key [OF k] using mem by blast
  next
    assume "shard_view reg (rec_key r) = Some r"
    then have "(rec_key r, r) \<in> set (concat reg)" using mem by blast
    then have "snd (rec_key r, r) \<in> snd ` set (concat reg)" by (rule imageI)
    then show "r \<in> set (map snd (concat reg))" by simp
  qed
  show "entry_ok (rec_key r) r" if r: "r \<in> set (map snd (concat reg))"
  proof -
    from r obtain k where k: "(k, r) \<in> set (concat reg)" by force
    show ?thesis using ok [OF k] unfolding key [OF k] .
  qed
qed

lemma sort_records_set [simp]: "set (sort_records rs) = set rs"
  by (simp add: sort_records_def)

lemma sort_records_distinct: "distinct (map rec_key rs) \<Longrightarrow> distinct (map rec_key (sort_records rs))"
  unfolding sort_records_def by (simp add: distinct_map)

text \<open>Putting a drained record back where its key is free restores the entry.\<close>

lemma saturating_add_0: "saturating_add 0 (b :: u64) = b"
  by (simp add: saturating_add_zero saturating_add_commute)

lemma merge_ips_Nil: "sorted ips \<Longrightarrow> distinct ips \<Longrightarrow> merge_ips ips [] = ips"
proof -
  assume "sorted ips" "distinct ips"
  moreover have "distinct (acc @ xs) \<Longrightarrow>
      fold (\<lambda>ip ips. if ip \<in> set ips then ips else ips @ [ip]) xs acc = acc @ xs" for xs acc :: "string list"
    by (induction xs arbitrary: acc) auto
  from this [of "[]" ips] have "distinct ips \<Longrightarrow> fold (\<lambda>ip ips. if ip \<in> set ips then ips else ips @ [ip]) ips [] = ips"
    by simp
  ultimately show ?thesis by (simp add: merge_ips_def sort_key_id_if_sorted)
qed

lemma add_delta_fresh:
  assumes "traffic_inv hash reg" "shard_view reg (rec_key r) = None" "entry_ok (rec_key r) r"
  shows "shard_view (add_delta hash r reg) = (shard_view reg)(rec_key r \<mapsto> r)"
proof -
  have "merge_ips (td_online_ips r) [] = td_online_ips r"
    using assms(3) by (simp add: entry_ok_def merge_ips_Nil)
  with assms(2) show ?thesis
    by (cases r) (auto simp: add_delta_view(2) [OF assms(1)] entry_in_def traffic_entry_def rec_key_def
        add_counters_def saturating_add_0 split: option.split)
qed

lemma add_deltas_fresh:
  assumes "traffic_inv hash reg" "distinct (map rec_key rs)"
    and "\<forall>r \<in> set rs. shard_view reg (rec_key r) = None \<and> entry_ok (rec_key r) r"
  shows "traffic_inv hash (add_deltas hash rs reg) \<and>
         shard_view (add_deltas hash rs reg) = shard_view reg ++ map_of (map (\<lambda>r. (rec_key r, r)) rs)"
  using assms unfolding add_deltas_def
proof (induction rs arbitrary: reg)
  case (Cons r rs)
  have v: "shard_view (add_delta hash r reg) = (shard_view reg)(rec_key r \<mapsto> r)"
    using Cons.prems by (intro add_delta_fresh) simp_all
  have r: "rec_key r \<notin> rec_key ` set rs" using Cons.prems(2) by simp
  then have "map_of (map (\<lambda>r. (rec_key r, r)) rs) (rec_key r) = None"
    by (auto simp: map_of_eq_None_iff)
  moreover have "\<forall>x \<in> set rs. shard_view (add_delta hash r reg) (rec_key x) = None \<and> entry_ok (rec_key x) x"
    using Cons.prems(3) r by (auto simp: v image_iff)
  ultimately show ?case
    using Cons.IH [of "add_delta hash r reg"] Cons.prems add_delta_view(1) [of hash reg r]
    by (auto simp: v fun_eq_iff map_add_def split: option.split)
qed simp

lemma traffic_inv_empty: "traffic_inv hash traffic_default"
  by (simp add: traffic_inv_def traffic_default_def shards_inv_empty)

lemma requeue_view:
  assumes "traffic_inv hash reg" "set rs = set (map snd (concat reg))" "distinct (map rec_key rs)"
  shows "shard_view (add_deltas hash rs traffic_default) = shard_view reg"
proof -
  note rec = registry_records [OF assms(1)]
  have "shard_view (add_deltas hash rs traffic_default)
      = Map.empty ++ map_of (map (\<lambda>r. (rec_key r, r)) rs)"
    using add_deltas_fresh [OF traffic_inv_empty assms(3)] rec(3) assms(2)
    by (simp add: traffic_default_def)
  also have "\<dots> = shard_view reg"
  proof (rule ext)
    fix k
    have d: "distinct (map fst (map (\<lambda>r. (rec_key r, r)) rs))" using assms(3) by (simp add: comp_def)
    have 1: "(Map.empty ++ map_of (map (\<lambda>r. (rec_key r, r)) rs)) k = Some r \<longleftrightarrow> r \<in> set rs \<and> rec_key r = k" for r
      using d by (auto simp: map_of_eq_Some_iff)
    have 2: "shard_view reg k = Some r \<longleftrightarrow> r \<in> set rs \<and> rec_key r = k" for r
    proof -
      have key: "rec_key r = k" if "shard_view reg k = Some r"
        using assms(1) that unfolding traffic_inv_def entry_ok_def by blast
      show ?thesis unfolding assms(2) rec(2) using key by (cases "rec_key r = k") auto
    qed
    show "(Map.empty ++ map_of (map (\<lambda>r. (rec_key r, r)) rs)) k = shard_view reg k"
      by (rule option_eqI) (simp only: 1 2)
  qed
  finally show ?thesis .
qed

section \<open>Properties of the registry\<close>

text \<open>
  C1. No traffic is lost or counted twice: whatever additions, requeued records and per-shard drains
  happen in whatever order, for every user and direction the bytes still held plus the bytes reported
  are the bytes there were plus the bytes added, as long as that sum fits a 64-bit counter. The
  counters therefore do not depend on where a drain is interrupted by other connections.
\<close>

theorem traffic_conserved:
  assumes "traffic_inv hash reg" "\<forall>ev \<in> set evs. shard_in_range ev"
    and "held dir key reg + reported dir key out + (\<Sum>ev \<leftarrow> evs. added dir key ev) < 2 ^ 64"
    and "fold (traffic_step hash) evs (reg, out) = (reg', out')"
  shows "held dir key reg' + reported dir key out'
           = held dir key reg + reported dir key out + (\<Sum>ev \<leftarrow> evs. added dir key ev)"
  using traffic_run_conserves [of hash "(reg, out)" evs dir key] assms by simp

definition example_events :: "traffic_event list" where
  "example_events =
     [Ev_Add ''n'' ''a'' None 5 7 None, Ev_Drain_Shard 0, Ev_Add ''n'' ''a'' (Some 9) 3 0 None, Ev_Drain_Shard 0]"

theorem traffic_conserved_witness:
  "held Upload \<lparr>tk_node_tag = ''n'', tk_user_uuid = ''a''\<rparr> (fst (fold (traffic_step (\<lambda>_. 0)) example_events (traffic_default, [])))
     + reported Upload \<lparr>tk_node_tag = ''n'', tk_user_uuid = ''a''\<rparr> (snd (fold (traffic_step (\<lambda>_. 0)) example_events (traffic_default, [])))
     = 8"
proof -
  let ?s = "fold (traffic_step (\<lambda>_. 0)) example_events (traffic_default, [])"
  have "fold (traffic_step (\<lambda>_. 0)) example_events (traffic_default, []) = (fst ?s, snd ?s)" by simp
  from traffic_conserved [OF traffic_inv_empty _ _ this, of Upload "\<lparr>tk_node_tag = ''n'', tk_user_uuid = ''a''\<rparr>"]
  show ?thesis
    by (simp add: example_events_def traffic_registry_shards_def held_def reported_def traffic_default_def)
qed

text \<open>
  A full drain reports every entry of the registry exactly once, ordered by node tag and user, and
  leaves the registry empty.
\<close>

theorem drain_all_reports_everything:
  assumes "traffic_inv hash reg" "drain_all reg = (records, reg')"
  shows "(\<forall>r. r \<in> set records \<longleftrightarrow> shard_view reg (rec_key r) = Some r) \<and>
         distinct (map rec_key records) \<and> sorted (map (\<lambda>r. (td_node_tag r, td_user_uuid r)) records) \<and>
         registry_is_empty reg' \<and> traffic_inv hash reg' \<and> registry_len reg = length records"
proof -
  note rec = registry_records [OF assms(1)]
  have len: "length reg = traffic_registry_shards"
    using assms(1) by (simp add: traffic_inv_def shards_inv_def)
  have e: "records = sort_records (map snd (concat reg))" "reg' = traffic_default"
    using assms(2) len by (simp_all add: drain_all_eq traffic_default_def empty_shards_def)
  have "sorted (map (\<lambda>r. (td_node_tag r, td_user_uuid r)) records)"
    by (simp add: e(1) sort_records_def)
  moreover have "length records = registry_len reg"
    by (simp add: e(1) sort_records_def registry_len_def length_concat)
  moreover have "registry_is_empty reg'"
    by (simp add: e(2) registry_is_empty_def traffic_default_def empty_shards_def list_all_iff)
  ultimately show ?thesis
    using rec(1,2) traffic_inv_empty by (simp only: e sort_records_set sort_records_distinct) blast
qed

definition example_registry :: traffic_registry where
  "example_registry =
     add (\<lambda>_. 0) ''n'' ''b'' 5 7 (add_with_ip (\<lambda>_. 0) ''n'' ''a'' 1 2 (Some (V4 16909060)) traffic_default)"

lemma example_registry_inv: "traffic_inv (\<lambda>_. 0) example_registry"
  by (simp add: example_registry_def add_def add_with_ip_def add_with_user_id_view(1) traffic_inv_empty)

theorem drain_all_reports_everything_witness:
  "registry_is_empty (snd (drain_all example_registry)) \<and>
   registry_len example_registry = length (fst (drain_all example_registry))"
    using drain_all_reports_everything [OF example_registry_inv, of "fst (drain_all example_registry)" "snd (drain_all example_registry)"]
    by simp

text \<open>
  C6. Draining and requeueing is the identity: if a report cannot be delivered and its records are added
  back, the registry holds exactly the entries it held before.
\<close>

theorem drain_requeue_roundtrip:
  assumes "traffic_inv hash reg" "drain_all reg = (records, reg')"
  shows "shard_view (add_deltas hash records reg') = shard_view reg"
proof -
  have len: "length reg = traffic_registry_shards"
    using assms(1) by (simp add: traffic_inv_def shards_inv_def)
  have e: "records = sort_records (map snd (concat reg))" "reg' = traffic_default"
    using assms(2) len by (simp_all add: drain_all_eq traffic_default_def empty_shards_def)
  show ?thesis
    unfolding e by (rule requeue_view [OF assms(1)])
      (simp_all only: sort_records_set sort_records_distinct registry_records(1) [OF assms(1)])
qed

theorem drain_requeue_roundtrip_witness:
  "shard_view (add_deltas (\<lambda>_. 0) (fst (drain_all example_registry)) (snd (drain_all example_registry)))
     = shard_view example_registry"
  by (rule drain_requeue_roundtrip [OF example_registry_inv]) simp

text \<open>
  A drain with a minimum reports exactly the entries whose upload and download together reach it
  and keeps the others unchanged.
\<close>

theorem drain_minimum_splits:
  assumes "traffic_inv hash reg" "drain_minimum mb reg = (records, reg')"
  shows "(\<forall>r. r \<in> set records \<longleftrightarrow> shard_view reg (rec_key r) = Some r \<and> reaches mb r) \<and>
         (\<forall>key. shard_view reg' key =
            (case shard_view reg key of None \<Rightarrow> None | Some e \<Rightarrow> if reaches mb e then None else Some e)) \<and>
         traffic_inv hash reg'"
proof -
  have inv: "shards_inv (traffic_index hash) traffic_registry_shards reg"
    using assms(1) by (simp add: traffic_inv_def)
  have e: "records = sort_records (map snd (filter (\<lambda>p. reaches mb (snd p)) (concat reg)))"
    "reg' = map (filter (\<lambda>p. \<not> reaches mb (snd p))) reg"
    using assms(2) drain_minimum_eq [OF traffic_inv_wf [OF assms(1)]] by simp_all
  have "r \<in> set records \<longleftrightarrow> r \<in> set (map snd (concat reg)) \<and> reaches mb r" for r
    unfolding e(1) by force
  then have 1: "r \<in> set records \<longleftrightarrow> shard_view reg (rec_key r) = Some r \<and> reaches mb r" for r
    unfolding registry_records(2) [OF assms(1)] .
  have 2: "shard_view reg' key =
      (case shard_view reg key of None \<Rightarrow> None | Some e \<Rightarrow> if reaches mb e then None else Some e)" for key
    unfolding e(2) traffic_map.view_filter [OF inv] by (simp split: option.split)
  have "traffic_inv hash reg'"
    using assms(1) shards_inv_map_filter [OF inv, of "\<lambda>p. \<not> reaches mb (snd p)"]
    by (auto simp: traffic_inv_def 2 e(2) [symmetric] split: option.splits if_splits)
  with 1 2 show ?thesis by blast
qed

theorem drain_minimum_splits_witness:
  "traffic_inv (\<lambda>_. 0) (snd (drain_minimum 10 example_registry))"
    using drain_minimum_splits [OF example_registry_inv, of 10 "fst (drain_minimum 10 example_registry)" "snd (drain_minimum 10 example_registry)"]
    by simp

end
