(* ===== verification/Abuse.thy ===== *)
theory Abuse
  imports Sharded NetAddr
begin

text \<open>
  The backoff of clients that keep failing, \<^verbatim>\<open>src/abuse.rs\<close>: a sharded map from addresses to failure
  counts, with a threshold within a window, a block of some seconds, and a bound on the entries. The hash
  of an address is an argument, and so is \<open>pick\<close>, the key a \<^verbatim>\<open>HashMap\<close> happens to iterate first, which is
  the one evicted from a full shard.
\<close>

section \<open>State\<close>

record backoff_policy =
  bp_threshold :: u32
  bp_window :: duration
  bp_block_duration :: duration
  bp_max_entries :: nat

record failure_entry =
  fe_failures :: u32
  fe_window_started :: instant
  fe_blocked_until :: "instant option"

record client_failure_backoff =
  bo_shards :: "(ip_addr, failure_entry) shards"
  bo_failure_total :: u64
  bo_reject_total :: u64
  bo_policy :: backoff_policy

record backoff_snapshot =
  bs_failure_total :: u64
  bs_backoff_reject_total :: u64
  bs_active_ips :: nat
  bs_blocked_ips :: nat

type_synonym key_choice = "(ip_addr, failure_entry) hmap \<Rightarrow> ip_addr"

definition policy_tls_handshake :: backoff_policy where
  "policy_tls_handshake =
     \<lparr>bp_threshold = 6, bp_window = secs 30, bp_block_duration = secs 10, bp_max_entries = 4096\<rparr>"

definition policy_tcp_auth :: backoff_policy where
  "policy_tcp_auth =
     \<lparr>bp_threshold = 12, bp_window = secs 30, bp_block_duration = secs 10, bp_max_entries = 8192\<rparr>"

definition client_failure_backoff_shard_count :: "nat \<Rightarrow> nat" where
  "client_failure_backoff_shard_count max_entries = max 1 (min (max_entries div 256) 32)"

definition new_backoff :: "backoff_policy \<Rightarrow> client_failure_backoff" where
  "new_backoff policy =
     \<lparr>bo_shards = empty_shards (client_failure_backoff_shard_count (bp_max_entries policy)),
      bo_failure_total = 0, bo_reject_total = 0, bo_policy = policy\<rparr>"

definition tls_handshake :: client_failure_backoff where
  "tls_handshake = new_backoff policy_tls_handshake"

definition tcp_auth :: client_failure_backoff where
  "tcp_auth = new_backoff policy_tcp_auth"

definition shard_of :: "(ip_addr \<Rightarrow> u64) \<Rightarrow> client_failure_backoff \<Rightarrow> ip_addr \<Rightarrow> nat" where
  "shard_of hash bo ip = unat (hash ip) mod length (bo_shards bo)"

definition max_entries_per_shard :: "client_failure_backoff \<Rightarrow> nat" where
  "max_entries_per_shard bo =
     (let n = length (bo_shards bo) in max 1 ((bp_max_entries (bo_policy bo) + n - 1) div n))"

section \<open>Operations\<close>

definition is_expired :: "instant \<Rightarrow> duration \<Rightarrow> failure_entry \<Rightarrow> bool" where
  "is_expired now window e =
     (case fe_blocked_until e of
        Some until \<Rightarrow> until \<le> now \<and> window < now - until
      | None \<Rightarrow> fe_window_started e \<le> now \<and> 2 * window < now - fe_window_started e)"

definition reset_entry :: "instant \<Rightarrow> failure_entry \<Rightarrow> failure_entry" where
  "reset_entry now e = e\<lparr>fe_failures := 0, fe_window_started := now, fe_blocked_until := None\<rparr>"

definition is_blocked_at ::
    "(ip_addr \<Rightarrow> u64) \<Rightarrow> ip_addr \<Rightarrow> instant \<Rightarrow> client_failure_backoff \<Rightarrow> bool \<times> client_failure_backoff" where
  "is_blocked_at hash ip now bo =
     (case hm_get (bo_shards bo ! shard_of hash bo ip) ip of
        None \<Rightarrow> (False, bo)
      | Some e \<Rightarrow>
          (case fe_blocked_until e of
             None \<Rightarrow> (False, bo)
           | Some until \<Rightarrow>
               (if now < until then (True, bo)
                else (False, bo\<lparr>bo_shards := at_shard (shard_of hash bo) ip (hm_insert ip (reset_entry now e)) (bo_shards bo)\<rparr>))))"

definition is_blocked ::
    "(ip_addr \<Rightarrow> u64) \<Rightarrow> ip_addr \<Rightarrow> instant \<Rightarrow> client_failure_backoff \<Rightarrow> bool \<times> client_failure_backoff" where
  "is_blocked hash ip now bo =
     (case is_blocked_at hash ip now bo of
        (blocked, bo') \<Rightarrow> (blocked, if blocked then bo'\<lparr>bo_reject_total := bo_reject_total bo' + 1\<rparr> else bo'))"

definition make_room :: "key_choice \<Rightarrow> nat \<Rightarrow> instant \<Rightarrow> duration \<Rightarrow> (ip_addr, failure_entry) hmap \<Rightarrow> (ip_addr, failure_entry) hmap" where
  "make_room pick limit now window entries =
     (if length entries < limit then entries
      else let entries' = hm_retain (\<lambda>_ e. \<not> is_expired now window e) entries
           in if length entries' < limit \<or> entries' = [] then entries' else hm_remove (pick entries') entries')"

definition count_failure :: "backoff_policy \<Rightarrow> instant \<Rightarrow> failure_entry \<Rightarrow> failure_entry" where
  "count_failure policy now e0 =
     (let in_window = (fe_window_started e0 \<le> now \<and> now - fe_window_started e0 \<le> bp_window policy);
          e = (if in_window then e0 else reset_entry now e0);
          e = e\<lparr>fe_failures := saturating_add (fe_failures e) 1\<rparr>
      in if bp_threshold policy \<le> fe_failures e
         then e\<lparr>fe_blocked_until := Some (now + bp_block_duration policy)\<rparr> else e)"

definition add_failure ::
    "key_choice \<Rightarrow> nat \<Rightarrow> backoff_policy \<Rightarrow> ip_addr \<Rightarrow> instant \<Rightarrow> (ip_addr, failure_entry) hmap \<Rightarrow> (ip_addr, failure_entry) hmap" where
  "add_failure pick limit policy ip now entries0 =
     (let entries = make_room pick limit now (bp_window policy) entries0;
          e = (case hm_get entries ip of
                 Some e \<Rightarrow> e
               | None \<Rightarrow> \<lparr>fe_failures = 0, fe_window_started = now, fe_blocked_until = None\<rparr>)
      in hm_insert ip (count_failure policy now e) entries)"

definition record_failure_at ::
    "(ip_addr \<Rightarrow> u64) \<Rightarrow> key_choice \<Rightarrow> ip_addr \<Rightarrow> instant \<Rightarrow> client_failure_backoff \<Rightarrow> client_failure_backoff" where
  "record_failure_at hash pick ip now bo =
     bo\<lparr>bo_shards := at_shard (shard_of hash bo) ip
          (add_failure pick (max_entries_per_shard bo) (bo_policy bo) ip now) (bo_shards bo)\<rparr>"

definition record_failure where
  "record_failure hash pick ip now bo = record_failure_at hash pick ip now (bo\<lparr>bo_failure_total := bo_failure_total bo + 1\<rparr>)"

definition record_success :: "(ip_addr \<Rightarrow> u64) \<Rightarrow> ip_addr \<Rightarrow> client_failure_backoff \<Rightarrow> client_failure_backoff" where
  "record_success hash ip bo = bo\<lparr>bo_shards := at_shard (shard_of hash bo) ip (hm_remove ip) (bo_shards bo)\<rparr>"

definition backoff_len :: "client_failure_backoff \<Rightarrow> nat" where
  "backoff_len bo = sum_list (map length (bo_shards bo))"

definition backoff_is_empty :: "client_failure_backoff \<Rightarrow> bool" where
  "backoff_is_empty bo \<longleftrightarrow> backoff_len bo = 0"

definition snapshot :: "instant \<Rightarrow> client_failure_backoff \<Rightarrow> backoff_snapshot" where
  "snapshot now bo =
     (let active = filter (\<lambda>e. \<not> is_expired now (bp_window (bo_policy bo)) e) (map snd (concat (bo_shards bo)));
          blocked = filter (\<lambda>e. case fe_blocked_until e of None \<Rightarrow> False | Some until \<Rightarrow> now < until) active
      in \<lparr>bs_failure_total = bo_failure_total bo, bs_backoff_reject_total = bo_reject_total bo,
          bs_active_ips = length active, bs_blocked_ips = length blocked\<rparr>)"

section \<open>The entries stay bounded\<close>

context shard_family
begin

text \<open>A change of one shard that adds at most the key it is about, whatever it does to the others.\<close>

lemma inv_shard:
  assumes "shards_inv idx n ss" "hm_wf (f (ss ! idx k))" "fst ` set (f (ss ! idx k)) \<subseteq> insert k (fst ` set (ss ! idx k))"
  shows "shards_inv idx n (at_shard idx k f ss)"
proof -
  have len: "length ss = n" by (rule shards_inv_nth(3) [OF assms(1)])
  have "hm_wf (at_shard idx k f ss ! i) \<and> (\<forall>k' \<in> fst ` set (at_shard idx k f ss ! i). idx k' = i)" if i: "i < n" for i
  proof (cases "i = idx k")
    case True
    have at: "at_shard idx k f ss ! i = f (ss ! idx k)" using i True len by (simp add: at_shard_def)
    have "\<forall>k' \<in> fst ` set (ss ! idx k). idx k' = i" using assms(1) i True unfolding shards_inv_def by blast
    then show ?thesis using assms(2,3) True unfolding at by blast
  next
    case False
    then have at: "at_shard idx k f ss ! i = ss ! i" by (simp add: at_shard_def)
    show ?thesis using assms(1) i unfolding at shards_inv_def by blast
  qed
  then show ?thesis using len by (simp add: shards_inv_def at_shard_def)
qed

end

definition failure_index :: "(ip_addr \<Rightarrow> u64) \<Rightarrow> nat \<Rightarrow> ip_addr \<Rightarrow> nat" where
  "failure_index hash max_entries ip = unat (hash ip) mod client_failure_backoff_shard_count max_entries"

lemma shard_count_pos: "0 < client_failure_backoff_shard_count max_entries"
  by (simp add: client_failure_backoff_shard_count_def)

interpretation failure_map: shard_family "failure_index hash max_entries" "client_failure_backoff_shard_count max_entries"
  for hash max_entries
  by unfold_locales (simp add: failure_index_def shard_count_pos)

definition per_shard :: "nat \<Rightarrow> nat" where
  "per_shard max_entries =
     (let n = client_failure_backoff_shard_count max_entries in max 1 ((max_entries + n - 1) div n))"

definition backoff_inv :: "(ip_addr \<Rightarrow> u64) \<Rightarrow> backoff_policy \<Rightarrow> client_failure_backoff \<Rightarrow> bool" where
  "backoff_inv hash policy bo \<longleftrightarrow>
     bo_policy bo = policy \<and>
     shards_inv (failure_index hash (bp_max_entries policy)) (client_failure_backoff_shard_count (bp_max_entries policy)) (bo_shards bo) \<and>
     (\<forall>shard \<in> set (bo_shards bo). length shard \<le> per_shard (bp_max_entries policy))"

lemma backoff_invD:
  assumes "backoff_inv hash policy bo"
  shows "shard_of hash bo = failure_index hash (bp_max_entries policy)"
    and "max_entries_per_shard bo = per_shard (bp_max_entries policy)"
    and "length (bo_shards bo ! failure_index hash (bp_max_entries policy) ip) \<le> per_shard (bp_max_entries policy)"
    and "hm_wf (bo_shards bo ! failure_index hash (bp_max_entries policy) ip)"
proof -
  have inv: "shards_inv (failure_index hash (bp_max_entries policy)) (client_failure_backoff_shard_count (bp_max_entries policy)) (bo_shards bo)"
    and pol: "bo_policy bo = policy"
    and bound: "\<forall>shard \<in> set (bo_shards bo). length shard \<le> per_shard (bp_max_entries policy)"
    using assms by (simp_all add: backoff_inv_def)
  have len: "length (bo_shards bo) = client_failure_backoff_shard_count (bp_max_entries policy)"
    by (rule shards_inv_nth(3) [OF inv])
  show "shard_of hash bo = failure_index hash (bp_max_entries policy)"
    by (rule ext) (simp add: shard_of_def failure_index_def len)
  show "max_entries_per_shard bo = per_shard (bp_max_entries policy)"
    by (simp add: max_entries_per_shard_def per_shard_def len pol)
  have "failure_index hash (bp_max_entries policy) ip < length (bo_shards bo)"
    unfolding len by (rule failure_map.idx_less)
  then show "length (bo_shards bo ! failure_index hash (bp_max_entries policy) ip) \<le> per_shard (bp_max_entries policy)"
    using bound nth_mem by blast
  show "hm_wf (bo_shards bo ! failure_index hash (bp_max_entries policy) ip)"
    by (rule shards_inv_nth(1) [OF inv failure_map.idx_less])
qed

text \<open>A change of the shard of \<open>ip\<close> that adds at most \<open>ip\<close> and respects the bound keeps the invariant.\<close>

lemma backoff_inv_at:
  assumes "backoff_inv hash policy bo" "bo_policy bo' = policy"
    and "bo_shards bo' = at_shard (shard_of hash bo) ip f (bo_shards bo)"
    and "m = bo_shards bo ! shard_of hash bo ip"
    and "hm_wf (f m) \<and> fst ` set (f m) \<subseteq> insert ip (fst ` set m) \<and> length (f m) \<le> per_shard (bp_max_entries policy)"
  shows "backoff_inv hash policy bo'"
proof -
  let ?i = "failure_index hash (bp_max_entries policy)"
  note D = backoff_invD [OF assms(1)]
  have f: "hm_wf (f (bo_shards bo ! ?i ip))" "fst ` set (f (bo_shards bo ! ?i ip)) \<subseteq> insert ip (fst ` set (bo_shards bo ! ?i ip))"
    "length (f (bo_shards bo ! ?i ip)) \<le> per_shard (bp_max_entries policy)"
    using assms(5) unfolding assms(4) D(1) by blast+
  have inv: "shards_inv ?i (client_failure_backoff_shard_count (bp_max_entries policy)) (bo_shards bo)"
    using assms(1) by (simp add: backoff_inv_def)
  have "set (bo_shards bo') \<subseteq> insert (f (bo_shards bo ! ?i ip)) (set (bo_shards bo))"
    unfolding assms(3) D(1) at_shard_def by (rule set_update_subset_insert)
  then have "\<forall>shard \<in> set (bo_shards bo'). length shard \<le> per_shard (bp_max_entries policy)"
    using f(3) assms(1) by (auto simp: backoff_inv_def)
  then show ?thesis
    using failure_map.inv_shard [OF inv, where f = f and k = ip] f(1,2) assms(2) by (simp add: backoff_inv_def assms(3) D(1))
qed

definition picks :: "key_choice \<Rightarrow> bool" where
  "picks pick \<longleftrightarrow> (\<forall>m. m \<noteq> [] \<longrightarrow> pick m \<in> fst ` set m)"

lemma make_room_ok:
  assumes "hm_wf m" "length m \<le> limit" "1 \<le> limit" "picks pick"
  shows "hm_wf (make_room pick limit now window m)" "set (make_room pick limit now window m) \<subseteq> set m"
    and "length (make_room pick limit now window m) < limit"
proof -
  let ?m = "hm_retain (\<lambda>_ e. \<not> is_expired now window e) m"
  have m: "hm_wf ?m" "set ?m \<subseteq> set m" "length ?m \<le> limit"
    using assms(1,2) le_trans [OF length_filter_le] by (auto simp: hm_retain_def intro: hm_wf_filter)
  have "length (hm_remove (pick ?m) ?m) < limit" if "?m \<noteq> []"
  proof -
    have "hm_contains ?m (pick ?m)" using assms(4) that by (simp add: picks_def hm_contains_iff)
    then show ?thesis using length_hm_remove [OF m(1)] m(3) that assms(3) by simp
  qed
  then show "hm_wf (make_room pick limit now window m)" "set (make_room pick limit now window m) \<subseteq> set m"
    "length (make_room pick limit now window m) < limit"
    using assms m by (auto simp: make_room_def Let_def set_hm_remove)
qed

lemma per_shard_pos: "1 \<le> per_shard max_entries"
  by (simp add: per_shard_def Let_def)

lemma backoff_inv_metrics [simp]:
  "backoff_inv hash policy (bo\<lparr>bo_failure_total := x\<rparr>) = backoff_inv hash policy bo"
  "backoff_inv hash policy (bo\<lparr>bo_reject_total := y\<rparr>) = backoff_inv hash policy bo"
  by (simp_all add: backoff_inv_def)

lemma backoff_inv_new: "backoff_inv hash policy (new_backoff policy)"
  by (auto simp: backoff_inv_def new_backoff_def shards_inv_empty) (simp add: empty_shards_def)

lemma add_failure_ok:
  assumes "hm_wf m" "length m \<le> limit" "1 \<le> limit" "picks pick"
  shows "hm_wf (add_failure pick limit policy ip now m) \<and>
    fst ` set (add_failure pick limit policy ip now m) \<subseteq> insert ip (fst ` set m) \<and>
    length (add_failure pick limit policy ip now m) \<le> limit"
proof -
  note r = make_room_ok [OF assms, of now "bp_window policy"]
  have "hm_wf (hm_insert ip e (make_room pick limit now (bp_window policy) m)) \<and>
      fst ` set (hm_insert ip e (make_room pick limit now (bp_window policy) m)) \<subseteq> insert ip (fst ` set m) \<and>
      length (hm_insert ip e (make_room pick limit now (bp_window policy) m)) \<le> limit" for e
    using r by (auto simp: set_hm_insert length_hm_insert)
  then show ?thesis unfolding add_failure_def Let_def by blast
qed

lemma backoff_inv_failure:
  assumes "backoff_inv hash policy bo" "picks pick"
  shows "backoff_inv hash policy (record_failure_at hash pick ip now bo)"
proof (rule backoff_inv_at [OF assms(1) _ _ refl])
  note D = backoff_invD [OF assms(1)]
  show "bo_shards (record_failure_at hash pick ip now bo) = at_shard (shard_of hash bo) ip
      (add_failure pick (max_entries_per_shard bo) (bo_policy bo) ip now) (bo_shards bo)"
    "bo_policy (record_failure_at hash pick ip now bo) = policy"
    using assms(1) by (simp_all add: record_failure_at_def backoff_inv_def)
  show "hm_wf (add_failure pick (max_entries_per_shard bo) (bo_policy bo) ip now (bo_shards bo ! shard_of hash bo ip)) \<and>
      fst ` set (add_failure pick (max_entries_per_shard bo) (bo_policy bo) ip now (bo_shards bo ! shard_of hash bo ip))
        \<subseteq> insert ip (fst ` set (bo_shards bo ! shard_of hash bo ip)) \<and>
      length (add_failure pick (max_entries_per_shard bo) (bo_policy bo) ip now (bo_shards bo ! shard_of hash bo ip))
        \<le> per_shard (bp_max_entries policy)"
    unfolding D(1,2) by (rule add_failure_ok [OF D(4,3) per_shard_pos assms(2)])
qed

lemma backoff_inv_success:
  assumes "backoff_inv hash policy bo"
  shows "backoff_inv hash policy (record_success hash ip bo)"
proof (rule backoff_inv_at [OF assms _ _ refl, where f = "hm_remove ip"])
  note D = backoff_invD [OF assms]
  show "hm_wf (hm_remove ip (bo_shards bo ! shard_of hash bo ip)) \<and>
      fst ` set (hm_remove ip (bo_shards bo ! shard_of hash bo ip)) \<subseteq> insert ip (fst ` set (bo_shards bo ! shard_of hash bo ip)) \<and>
      length (hm_remove ip (bo_shards bo ! shard_of hash bo ip)) \<le> per_shard (bp_max_entries policy)"
    unfolding D(1) using D(3) [of ip] D(4) [of ip] by (auto simp: set_hm_remove length_hm_remove)
qed (use assms in \<open>simp_all add: record_success_def backoff_inv_def\<close>)

lemma backoff_inv_query:
  assumes "backoff_inv hash policy bo"
  shows "backoff_inv hash policy (snd (is_blocked hash ip now bo))"
proof -
  note D = backoff_invD [OF assms]
  have "backoff_inv hash policy (bo\<lparr>bo_shards := at_shard (shard_of hash bo) ip (hm_insert ip e') (bo_shards bo)\<rparr>)"
    if "hm_get (bo_shards bo ! shard_of hash bo ip) ip = Some e" for e e'
  proof (rule backoff_inv_at [OF assms _ _ refl, where f = "hm_insert ip e'"])
    have "hm_contains (bo_shards bo ! shard_of hash bo ip) ip" using that by (simp add: hm_contains_def)
    then show "hm_wf (hm_insert ip e' (bo_shards bo ! shard_of hash bo ip)) \<and>
        fst ` set (hm_insert ip e' (bo_shards bo ! shard_of hash bo ip)) \<subseteq> insert ip (fst ` set (bo_shards bo ! shard_of hash bo ip)) \<and>
        length (hm_insert ip e' (bo_shards bo ! shard_of hash bo ip)) \<le> per_shard (bp_max_entries policy)"
      unfolding D(1) using D(3) [of ip] D(4) [of ip] by (auto simp: set_hm_insert length_hm_insert)
  qed (use assms in \<open>simp_all add: backoff_inv_def\<close>)
  then show ?thesis
    using assms by (auto simp: is_blocked_def is_blocked_at_def split: option.split)
qed

inductive backoff_reach :: "(ip_addr \<Rightarrow> u64) \<Rightarrow> key_choice \<Rightarrow> backoff_policy \<Rightarrow> client_failure_backoff \<Rightarrow> bool"
  for hash pick policy where
  start: "backoff_reach hash pick policy (new_backoff policy)"
| failure: "backoff_reach hash pick policy bo \<Longrightarrow> backoff_reach hash pick policy (record_failure hash pick ip now bo)"
| success: "backoff_reach hash pick policy bo \<Longrightarrow> backoff_reach hash pick policy (record_success hash ip bo)"
| query: "backoff_reach hash pick policy bo \<Longrightarrow> backoff_reach hash pick policy (snd (is_blocked hash ip now bo))"

lemma backoff_reach_inv: "backoff_reach hash pick policy bo \<Longrightarrow> picks pick \<Longrightarrow> backoff_inv hash policy bo"
  by (induction rule: backoff_reach.induct)
     (simp_all add: backoff_inv_new record_failure_def backoff_inv_failure backoff_inv_success backoff_inv_query)

text \<open>
  Whatever clients do, the backoff never keeps more entries than its policy allows, when the number
  of shards divides the bound as it does for both policies in use.
\<close>

theorem backoff_entries_bounded:
  assumes "backoff_reach hash pick policy bo" "picks pick" "0 < bp_max_entries policy"
    and "client_failure_backoff_shard_count (bp_max_entries policy) dvd bp_max_entries policy"
  shows "backoff_len bo \<le> bp_max_entries policy"
proof -
  let ?n = "client_failure_backoff_shard_count (bp_max_entries policy)" and ?M = "bp_max_entries policy"
  note inv = backoff_reach_inv [OF assms(1,2)]
  have n: "0 < ?n" "length (bo_shards bo) = ?n"
    using inv shard_count_pos shards_inv_nth(3) by (auto simp: backoff_inv_def)
  obtain q where q: "?M = ?n * q" using assms(4) by (auto simp: dvd_def)
  then have "(?M + ?n - 1) div ?n = q"
    using n(1) div_mult_self2 [of ?n "?n - 1" q] by (simp add: add.commute)
  moreover have "1 \<le> q" using q assms(3) by (cases q) auto
  ultimately have ps: "per_shard ?M = q" by (simp add: per_shard_def Let_def)
  have "sum_list (map length (bo_shards bo)) \<le> sum_list (map (\<lambda>_. q) (bo_shards bo))"
    using inv ps by (intro sum_list_mono) (simp add: backoff_inv_def)
  then show ?thesis using q n(2) by (simp add: backoff_len_def sum_list_triv)
qed

definition first_key :: key_choice where
  "first_key m = fst (hd m)"

lemma first_key_picks: "picks first_key"
  by (auto simp: picks_def first_key_def)

theorem backoff_entries_bounded_witness:
  "backoff_len (record_failure (\<lambda>_. 0) first_key (V4 1) 0 tls_handshake) \<le> 4096"
proof -
  have p: "bp_max_entries policy_tls_handshake = 4096" "client_failure_backoff_shard_count 4096 = 16" by code_simp+
  have "backoff_reach (\<lambda>_. 0) first_key policy_tls_handshake (record_failure (\<lambda>_. 0) first_key (V4 1) 0 tls_handshake)"
    unfolding tls_handshake_def by (intro backoff_reach.intros)
  from backoff_entries_bounded [OF this first_key_picks] show ?thesis by (simp add: p)
qed

section \<open>Blocking\<close>

definition fail_all :: "(ip_addr \<Rightarrow> u64) \<Rightarrow> key_choice \<Rightarrow> ip_addr \<Rightarrow> instant list \<Rightarrow> client_failure_backoff \<Rightarrow> client_failure_backoff" where
  "fail_all hash pick ip ts bo = fold (record_failure_at hash pick ip) ts bo"

definition shard_for :: "(ip_addr \<Rightarrow> u64) \<Rightarrow> client_failure_backoff \<Rightarrow> ip_addr \<Rightarrow> (ip_addr, failure_entry) hmap" where
  "shard_for hash bo ip = bo_shards bo ! shard_of hash bo ip"

text \<open>With room in its shard, a failure only changes the entry of its address.\<close>

lemma record_failure_entry:
  assumes "backoff_inv hash policy bo" "length (shard_for hash bo ip) < max_entries_per_shard bo"
  shows "shard_for hash (record_failure_at hash pick ip now bo) ip =
    hm_insert ip (count_failure policy now
      (case hm_get (shard_for hash bo ip) ip of Some e \<Rightarrow> e
       | None \<Rightarrow> \<lparr>fe_failures = 0, fe_window_started = now, fe_blocked_until = None\<rparr>)) (shard_for hash bo ip)"
    and "max_entries_per_shard (record_failure_at hash pick ip now bo) = max_entries_per_shard bo"
proof -
  note D = backoff_invD [OF assms(1)]
  have "shard_of hash bo ip < length (bo_shards bo)" "bo_policy bo = policy"
    using assms(1) shards_inv_nth(3) [of _ _ "bo_shards bo"] failure_map.idx_less unfolding D(1)
    by (auto simp: backoff_inv_def)
  then show "shard_for hash (record_failure_at hash pick ip now bo) ip =
    hm_insert ip (count_failure policy now
      (case hm_get (shard_for hash bo ip) ip of Some e \<Rightarrow> e
       | None \<Rightarrow> \<lparr>fe_failures = 0, fe_window_started = now, fe_blocked_until = None\<rparr>)) (shard_for hash bo ip)"
    using assms(2)
    by (simp add: shard_for_def record_failure_at_def shard_of_def at_shard_def add_failure_def make_room_def Let_def)
qed (simp add: max_entries_per_shard_def record_failure_at_def at_shard_def)

text \<open>The entry after \<open>k\<close> failures from \<open>first\<close> to \<open>recent\<close> in one window.\<close>

definition entry_after :: "backoff_policy \<Rightarrow> nat \<Rightarrow> instant \<Rightarrow> instant \<Rightarrow> failure_entry" where
  "entry_after policy k first recent =
     \<lparr>fe_failures = of_nat (min k (2 ^ 32 - 1)), fe_window_started = first,
      fe_blocked_until = (if unat (bp_threshold policy) \<le> k then Some (recent + bp_block_duration policy) else None)\<rparr>"

lemma threshold_sat: "unat (t :: u32) \<le> min k (2 ^ 32 - 1) \<longleftrightarrow> unat t \<le> k"
proof -
  have "unat t < 2 ^ LENGTH(32)" by (rule unsigned_less)
  then show ?thesis by simp
qed

lemma unat_count: "unat (of_nat (min j (2 ^ 32 - 1)) :: u32) = min j (2 ^ 32 - 1)"
  by (simp add: unat_of_nat)

lemma count_sat: "saturating_add (of_nat (min k (2 ^ 32 - 1)) :: u32) 1 = of_nat (min (Suc k) (2 ^ 32 - 1))"
proof -
  have "unat (saturating_add (of_nat (min k (2 ^ 32 - 1)) :: u32) 1) = unat (of_nat (min (Suc k) (2 ^ 32 - 1)) :: u32)"
    unfolding unat_saturating_add unat_count by simp
  then show ?thesis by (simp only: word_unat_eq_iff)
qed

lemma count_failure_next:
  assumes "first \<le> now" "now - first \<le> bp_window policy"
    and "e = entry_after policy k first last' \<or> k = 0 \<and> e = \<lparr>fe_failures = 0, fe_window_started = first, fe_blocked_until = None\<rparr>"
  shows "count_failure policy now e = entry_after policy (Suc k) first now"
proof -
  define c :: u32 where "c = of_nat (min (Suc k) (2 ^ 32 - 1))"
  have f: "fe_failures e = of_nat (min k (2 ^ 32 - 1))" "fe_window_started e = first"
    using assms(3) by (auto simp: entry_after_def)
  have c: "saturating_add (fe_failures e) 1 = c" unfolding f c_def by (rule count_sat)
  have "unat c = min (Suc k) (2 ^ 32 - 1)" unfolding c_def by (rule unat_count)
  then have t: "bp_threshold policy \<le> c \<longleftrightarrow> unat (bp_threshold policy) \<le> Suc k"
    by (simp only: word_le_nat_alt threshold_sat)
  have e: "count_failure policy now e = (if unat (bp_threshold policy) \<le> Suc k
      then e\<lparr>fe_failures := c, fe_blocked_until := Some (now + bp_block_duration policy)\<rparr> else e\<lparr>fe_failures := c\<rparr>)"
    using assms(1,2) by (simp add: count_failure_def Let_def f(2) c t)
  show ?thesis using assms(3) unfolding e entry_after_def [of policy "Suc k"] c_def [symmetric]
    by (auto simp: entry_after_def)
qed

lemma fail_all_entry:
  assumes "backoff_inv hash policy bo" "picks pick" "hm_get (shard_for hash bo ip) ip = None"
    and "Suc (length (shard_for hash bo ip)) < max_entries_per_shard bo" "ts \<noteq> []" "sorted ts" "last ts - hd ts \<le> bp_window policy"
  shows "backoff_inv hash policy (fail_all hash pick ip ts bo) \<and>
    hm_get (shard_for hash (fail_all hash pick ip ts bo) ip) ip = Some (entry_after policy (length ts) (hd ts) (last ts)) \<and>
    length (shard_for hash (fail_all hash pick ip ts bo) ip) = Suc (length (shard_for hash bo ip)) \<and>
    max_entries_per_shard (fail_all hash pick ip ts bo) = max_entries_per_shard bo"
  using assms(5-7)
proof (induction ts rule: rev_induct)
  case (snoc t ts)
  let ?bo = "fail_all hash pick ip ts bo"
  have step: "fail_all hash pick ip (ts @ [t]) bo = record_failure_at hash pick ip t ?bo" by (simp add: fail_all_def)
  show ?case
  proof (cases "ts = []")
    case True
    then have "?bo = bo" by (simp add: fail_all_def)
    moreover have "count_failure policy t \<lparr>fe_failures = 0, fe_window_started = t, fe_blocked_until = None\<rparr> = entry_after policy 1 t t"
      using count_failure_next [of t t policy _ 0] by simp
    ultimately show ?thesis
      using True record_failure_entry [OF assms(1), of ip pick t] assms(1-4) backoff_inv_failure [OF assms(1,2)]
      unfolding step by (simp add: length_hm_insert hm_contains_def)
  next
    case False
    have t: "hd ts \<le> t" "t - hd ts \<le> bp_window policy" "sorted ts" "last ts \<le> t"
      using snoc.prems False by (auto simp: sorted_append hd_append)
    then have "last ts - hd ts \<le> bp_window policy" by linarith
    note ih = snoc.IH [OF False t(3) this]
    have "count_failure policy t (entry_after policy (length ts) (hd ts) (last ts)) = entry_after policy (Suc (length ts)) (hd ts) t"
      using count_failure_next [OF t(1,2)] by blast
    then show ?thesis
      using ih False record_failure_entry [of hash policy ?bo ip pick t] assms(4) backoff_inv_failure [of hash policy ?bo pick ip t] assms(2)
      unfolding step by (simp add: length_hm_insert hm_contains_def hd_append)
  qed
qed simp



text \<open>
  A failure that arrives after the window of a blocked address, from a connection accepted before the
  block, forgets the block: an address blocked until second 39 is admitted again at second 32.
\<close>

theorem stale_failure_lifts_block:
  "let bo = fail_all (\<lambda>_. 0) first_key (V4 1) (map secs [0, 25, 26, 27, 28, 29]) tls_handshake;
       bo' = record_failure_at (\<lambda>_. 0) first_key (V4 1) (secs 31) bo
   in fst (is_blocked_at (\<lambda>_. 0) (V4 1) (secs 38) bo) \<and> \<not> fst (is_blocked_at (\<lambda>_. 0) (V4 1) (secs 32) bo')"
  by code_simp

end
