(* ===== verification/Service.thy ===== *)
theory Service
  imports Servers Traffic Abuse Config_Facts
begin

text \<open>
  The service of \<^verbatim>\<open>src/service.rs\<close>: which listeners a configuration asks for, starting them, the hot updates of
  users, routes and changed listeners, user deltas with their revisions, and stopping. The operating system is a
  set of running accept loops; whether an address resolves and whether a listener can be opened (socket, TLS
  files, threads) are arguments. The accept loops themselves, logging and the DNS settings are not part of it.
\<close>

section \<open>Data\<close>

datatype service_error =
    InvalidConfig string
  | Bind string string
  | UnsupportedFeature string string
  | UnsupportedProtocol string protocol
  | Crash

text \<open>\<open>Crash\<close> is a panic, which ends the process.\<close>

record service_env =
  vx_server :: server_env
  vx_externals :: externals
  vx_lookup :: "string \<Rightarrow> u16 \<Rightarrow> string + sock_addr list"
  vx_open :: "nat \<Rightarrow> inbound_config \<Rightarrow> sock_addr \<Rightarrow> string + sock_addr"
  vx_user_hash :: "core_user \<Rightarrow> u64"
  vx_connect_env :: "string option"

text \<open>A listener is known by the number of the attempt that opened it.\<close>

record world =
  wd_attempts :: nat
  wd_running :: "nat list"

record listener_handle =
  lh_id :: nat
  lh_tag :: string
  lh_protocol :: protocol
  lh_local_addr :: sock_addr
  lh_connect_timeout :: nat
  lh_server :: server

type_synonym user_fingerprints = "(string, u64) hmap"

record core_service =
  cs_config :: core_config
  cs_listeners :: "listener_handle list"
  cs_traffic :: traffic_registry
  cs_sessions :: session_tracker
  cs_bandwidth :: user_bandwidth_limiters
  cs_quic_connections :: "nat option"
  cs_tls_failures :: client_failure_backoff
  cs_user_revisions :: "(string, string) hmap"
  cs_user_fingerprints :: "(string, user_fingerprints) hmap"
  cs_stopped :: bool

record listener_status =
  ls_tag :: string
  ls_protocol :: protocol
  ls_local_addr :: sock_addr

definition listeners :: "core_service \<Rightarrow> listener_status list" where
  "listeners svc = map (\<lambda>h. \<lparr>ls_tag = lh_tag h, ls_protocol = lh_protocol h, ls_local_addr = lh_local_addr h\<rparr>) (cs_listeners svc)"

section \<open>Comparing configurations\<close>

definition inbound_without_users :: "inbound_config \<Rightarrow> inbound_config" where
  "inbound_without_users ib = ib\<lparr>ib_users := []\<rparr>"

definition config_without_users :: "core_config \<Rightarrow> core_config" where
  "config_without_users cfg = cfg\<lparr>cc_inbounds := map inbound_without_users (cc_inbounds cfg)\<rparr>"

definition inbound_eq_without_users_routes :: "inbound_config \<Rightarrow> inbound_config \<Rightarrow> bool" where
  "inbound_eq_without_users_routes l r \<longleftrightarrow>
     ib_tag l = ib_tag r \<and> ib_protocol l = ib_protocol r \<and> ib_listen l = ib_listen r \<and> ib_port l = ib_port r \<and>
     ib_cipher l = ib_cipher r \<and> ib_flow l = ib_flow r \<and> ib_padding_scheme l = ib_padding_scheme r \<and>
     ib_transport l = ib_transport r \<and> ib_tls l = ib_tls r \<and> ib_sniffing l = ib_sniffing r"

definition inbound_eq_without_users :: "inbound_config \<Rightarrow> inbound_config \<Rightarrow> bool" where
  "inbound_eq_without_users l r \<longleftrightarrow> inbound_eq_without_users_routes l r \<and> ib_routes l = ib_routes r"

definition inbounds_eq_without_users :: "inbound_config list \<Rightarrow> inbound_config list \<Rightarrow> bool" where
  "inbounds_eq_without_users ls rs = list_all2 inbound_eq_without_users ls rs"

definition inbounds_eq_without_users_routes :: "inbound_config list \<Rightarrow> inbound_config list \<Rightarrow> bool" where
  "inbounds_eq_without_users_routes ls rs = list_all2 inbound_eq_without_users_routes ls rs"

definition config_allows_listener_level_update :: "core_config \<Rightarrow> core_config \<Rightarrow> bool" where
  "config_allows_listener_level_update l r \<longleftrightarrow>
     cc_instance_id l = cc_instance_id r \<and> cc_log_level l = cc_log_level r \<and> cc_dns l = cc_dns r \<and>
     cc_policy l = cc_policy r \<and> cc_stats l = cc_stats r"

definition config_eq_without_users_routes_and_outbounds :: "core_config \<Rightarrow> core_config \<Rightarrow> bool" where
  "config_eq_without_users_routes_and_outbounds l r \<longleftrightarrow>
     cc_instance_id l = cc_instance_id r \<and> cc_log_level l = cc_log_level r \<and> cc_dns l = cc_dns r \<and>
     cc_policy l = cc_policy r \<and> cc_stats l = cc_stats r \<and>
     inbounds_eq_without_users_routes (cc_inbounds l) (cc_inbounds r)"

definition config_eq_without_users :: "core_config \<Rightarrow> core_config \<Rightarrow> bool" where
  "config_eq_without_users l r \<longleftrightarrow>
     cc_instance_id l = cc_instance_id r \<and> cc_log_level l = cc_log_level r \<and> cc_dns l = cc_dns r \<and>
     cc_policy l = cc_policy r \<and> cc_outbounds l = cc_outbounds r \<and> cc_routes l = cc_routes r \<and>
     cc_stats l = cc_stats r \<and> inbounds_eq_without_users (cc_inbounds l) (cc_inbounds r)"

definition can_update_users :: "core_service \<Rightarrow> core_config \<Rightarrow> bool" where
  "can_update_users svc cfg = config_eq_without_users (cs_config svc) cfg"

definition can_update_routes :: "core_service \<Rightarrow> core_config \<Rightarrow> bool" where
  "can_update_routes svc cfg = config_eq_without_users_routes_and_outbounds (cs_config svc) cfg"

definition inbounds_same_tags :: "inbound_config list \<Rightarrow> inbound_config list \<Rightarrow> bool" where
  "inbounds_same_tags ls rs = list_all2 (\<lambda>l r. ib_tag l = ib_tag r) ls rs"

definition listener_bind_eq :: "inbound_config \<Rightarrow> inbound_config \<Rightarrow> bool" where
  "listener_bind_eq l r \<longleftrightarrow> ib_listen l = ib_listen r \<and> ib_port l = ib_port r"

definition naive_uses_quic :: "inbound_config \<Rightarrow> bool" where
  "naive_uses_quic ib \<longleftrightarrow> ib_protocol ib = Naive \<and>
     (eq_ignore_ascii_case (trim (tp_network (ib_transport ib))) ''quic'' \<or>
      (case ib_tls ib of None \<Rightarrow> False
       | Some tls \<Rightarrow> list_ex (\<lambda>value. eq_ignore_ascii_case (trim value) ''h3'') (tl_alpn tls)))"

definition inbound_binds_quic :: "inbound_config \<Rightarrow> bool" where
  "inbound_binds_quic ib \<longleftrightarrow> ib_protocol ib \<in> {Hysteria2, Tuic} \<or> naive_uses_quic ib"

definition quic_listener_structures_unchanged :: "inbound_config list \<Rightarrow> inbound_config list \<Rightarrow> bool" where
  "quic_listener_structures_unchanged ls rs \<longleftrightarrow>
     (let by_tag = (\<lambda>ibs. hm_collect (map (\<lambda>ib. (ib_tag ib, ib)) (filter inbound_binds_quic ibs)));
          l = by_tag ls; r = by_tag rs
      in length l = length r \<and>
         list_all (\<lambda>(tag, lib). case hm_get r tag of None \<Rightarrow> False | Some rib \<Rightarrow> inbound_eq_without_users_routes lib rib) l)"

section \<open>Binding\<close>

record bind_spec =
  bn_tag :: string
  bn_protocol :: protocol
  bn_network :: string
  bn_addr :: sock_addr

definition shadowsocks_udp_enabled :: "transport_config \<Rightarrow> bool" where
  "shadowsocks_udp_enabled tp = list_ex (\<lambda>item. eq_ignore_ascii_case (trim item) ''udp'') (split_on (CHR '','') (tp_network tp))"

definition protocol_binds_tcp :: "inbound_config \<Rightarrow> bool" where
  "protocol_binds_tcp ib \<longleftrightarrow>
     ib_protocol ib \<in> {Socks, Http, Vless, Vmess, Trojan, Shadowsocks, AnyTls, Mieru} \<or>
     ib_protocol ib = Naive \<and> \<not> naive_uses_quic ib"

definition protocol_binds_udp :: "inbound_config \<Rightarrow> bool" where
  "protocol_binds_udp ib \<longleftrightarrow>
     inbound_binds_quic ib \<or> ib_protocol ib = Shadowsocks \<and> shadowsocks_udp_enabled (ib_transport ib)"

definition is_unspecified :: "ip_addr \<Rightarrow> bool" where
  "is_unspecified ip \<longleftrightarrow> ip = V4 0 \<or> ip = V6 0"

definition listen_addrs_conflict :: "sock_addr \<Rightarrow> sock_addr \<Rightarrow> bool" where
  "listen_addrs_conflict l r \<longleftrightarrow>
     snd l = snd r \<and> (fst l = fst r \<or> is_unspecified (fst l) \<or> is_unspecified (fst r))"

definition resolve_listen_addr :: "service_env \<Rightarrow> string \<Rightarrow> u16 \<Rightarrow> string + sock_addr" where
  "resolve_listen_addr env listen0 port =
     (let trimmed = trim listen0;
          listen = (if trimmed \<in> {[], ''0.0.0.0'', ''::'', ''[::]''} then ''::'' else trimmed);
          addrs = (case parse_ip listen of Some ip \<Rightarrow> Inr [(ip, port)] | None \<Rightarrow> vx_lookup env listen port) in
      case addrs of
        Inl e \<Rightarrow> Inl e
      | Inr [] \<Rightarrow> Inl ''listen address did not resolve''
      | Inr (addr # _) \<Rightarrow> Inr addr)"

definition show_sock_addr :: "sock_addr \<Rightarrow> string" where
  "show_sock_addr = (\<lambda>(ip, port).
     (case ip of V4 _ \<Rightarrow> show_ip ip | V6 _ \<Rightarrow> ''['' @ show_ip ip @ '']'') @ '':'' @ show_nat (unat port))"

definition protocol_debug :: "protocol \<Rightarrow> string" where
  "protocol_debug p = (case p of
       Shadowsocks \<Rightarrow> ''Shadowsocks'' | Vmess \<Rightarrow> ''Vmess'' | Vless \<Rightarrow> ''Vless'' | Trojan \<Rightarrow> ''Trojan''
     | Hysteria2 \<Rightarrow> ''Hysteria2'' | Tuic \<Rightarrow> ''Tuic'' | AnyTls \<Rightarrow> ''AnyTls'' | Socks \<Rightarrow> ''Socks''
     | Http \<Rightarrow> ''Http'' | Naive \<Rightarrow> ''Naive'' | Mieru \<Rightarrow> ''Mieru'')"

definition listener_bind_specs :: "service_env \<Rightarrow> inbound_config \<Rightarrow> string + bind_spec list" where
  "listener_bind_specs env ib =
     (case resolve_listen_addr env (ib_listen ib) (ib_port ib) of
        Inl e \<Rightarrow> Inl (concat [''inbound '', ib_tag ib, '' listen '', ib_listen ib, '':'', show_nat (unat (ib_port ib)),
                          '' did not resolve: '', e])
      | Inr addr \<Rightarrow>
          (let spec = (\<lambda>network. \<lparr>bn_tag = ib_tag ib, bn_protocol = ib_protocol ib, bn_network = network, bn_addr = addr\<rparr>)
           in Inr ((if protocol_binds_tcp ib then [spec ''tcp''] else []) @
                   (if protocol_binds_udp ib then [spec ''udp''] else []))))"

definition specs_conflict :: "bind_spec \<Rightarrow> bind_spec \<Rightarrow> bool" where
  "specs_conflict existing spec \<longleftrightarrow>
     bn_network existing = bn_network spec \<and> listen_addrs_conflict (bn_addr existing) (bn_addr spec)"

fun add_specs :: "bind_spec list \<Rightarrow> bind_spec list \<Rightarrow> string + bind_spec list" where
  "add_specs seen [] = Inr seen"
| "add_specs seen (spec # specs) =
     (case find (\<lambda>existing. specs_conflict existing spec) seen of
        Some existing \<Rightarrow>
          Inl (concat [''duplicate '', bn_network spec, '' listen '', show_sock_addr (bn_addr spec), '' for inbound '',
             bn_tag spec, '' ('', protocol_debug (bn_protocol spec), '') conflicts with '', bn_tag existing, '' ('',
             protocol_debug (bn_protocol existing), ''); change one node server port or listen address''])
      | None \<Rightarrow> add_specs (seen @ [spec]) specs)"

fun unique_binds_from :: "service_env \<Rightarrow> bind_spec list \<Rightarrow> inbound_config list \<Rightarrow> string + bind_spec list" where
  "unique_binds_from env seen [] = Inr seen"
| "unique_binds_from env seen (ib # ibs) =
     (case listener_bind_specs env ib of
        Inl e \<Rightarrow> Inl e
      | Inr specs \<Rightarrow>
          (case add_specs seen specs of Inl e \<Rightarrow> Inl e | Inr seen' \<Rightarrow> unique_binds_from env seen' ibs))"

definition validate_unique_listener_binds :: "service_env \<Rightarrow> inbound_config list \<Rightarrow> string + unit" where
  "validate_unique_listener_binds env ibs =
     (case unique_binds_from env [] ibs of Inl e \<Rightarrow> Inl e | Inr _ \<Rightarrow> Inr ())"

section \<open>Timeouts\<close>

definition clamp :: "nat \<Rightarrow> nat \<Rightarrow> nat \<Rightarrow> nat" where
  "clamp lo hi n = (if n < lo then lo else if hi < n then hi else n)"

definition outbound_connect_timeout_from_env :: "string option \<Rightarrow> u64 \<Rightarrow> duration" where
  "outbound_connect_timeout_from_env value default_secs =
     (case value of
        None \<Rightarrow> secs (clamp 1 60 (unat default_secs))
      | Some text \<Rightarrow>
          (case parse_u64 (trim text) of
             None \<Rightarrow> secs (clamp 1 60 (unat default_secs))
           | Some n \<Rightarrow> if 0 < n then secs (clamp 1 60 n) else secs (clamp 1 60 (unat default_secs))))"

definition outbound_connect_timeout :: "service_env \<Rightarrow> policy_config \<Rightarrow> duration" where
  "outbound_connect_timeout env policy = outbound_connect_timeout_from_env (vx_connect_env env) (po_connect_timeout_secs policy)"

section \<open>Starting\<close>

definition start_listener_handle ::
    "service_env \<Rightarrow> inbound_config \<Rightarrow> core_config \<Rightarrow> duration \<Rightarrow> nat option \<Rightarrow> world \<Rightarrow> (service_error + listener_handle) \<times> world" where
  "start_listener_handle env ib active connect_timeout quic w =
     (let routes = resolved_inbound_routes active ib; tag = ib_tag ib; p = ib_protocol ib; k = wd_attempts w in
      if inbound_binds_quic ib \<and> quic = None then (Inl Crash, w)
      else case resolve_listen_addr env (ib_listen ib) (ib_port ib) of
        Inl e \<Rightarrow> (Inl (Bind tag e), w)
      | Inr addr \<Rightarrow>
          (if p \<in> {Tuic, Hysteria2, Naive} \<and> ib_tls ib = None then (Inl (Bind tag (protocol_label p @ '' requires tls config'')), w)
           else case new_server (vx_server env) p (ib_users ib) routes of
             Inl _ \<Rightarrow> (Inl Crash, w)
           | Inr srv \<Rightarrow>
               (case vx_open env k ib addr of
                  Inl e \<Rightarrow> (Inl (Bind tag e), w\<lparr>wd_attempts := Suc k\<rparr>)
                | Inr local_addr \<Rightarrow>
                    (Inr \<lparr>lh_id = k, lh_tag = tag, lh_protocol = p, lh_local_addr = local_addr,
                          lh_connect_timeout = connect_timeout, lh_server = srv\<rparr>,
                     \<lparr>wd_attempts = Suc k, wd_running = wd_running w @ [k]\<rparr>))))"

text \<open>A handle has no destructor: dropping the handles already opened leaves their accept loops running.\<close>

fun start_listeners ::
    "service_env \<Rightarrow> core_config \<Rightarrow> duration \<Rightarrow> nat option \<Rightarrow> inbound_config list \<Rightarrow> world \<Rightarrow> (service_error + listener_handle list) \<times> world" where
  "start_listeners env active t quic [] w = (Inr [], w)"
| "start_listeners env active t quic (ib # ibs) w =
     (case start_listener_handle env ib active t quic w of
        (Inl e, w') \<Rightarrow> (Inl e, w')
      | (Inr h, w') \<Rightarrow>
          (case start_listeners env active t quic ibs w' of
             (Inl e, w'') \<Rightarrow> (Inl e, w'')
           | (Inr hs, w'') \<Rightarrow> (Inr (h # hs), w'')))"

definition from_users :: "service_env \<Rightarrow> core_user list \<Rightarrow> user_fingerprints" where
  "from_users env users = hm_collect (map (\<lambda>u. (cu_uuid u, vx_user_hash env u)) (filter (\<lambda>u. \<not> user_is_empty u) users))"

definition user_fingerprints_for_inbounds :: "service_env \<Rightarrow> inbound_config list \<Rightarrow> (string, user_fingerprints) hmap" where
  "user_fingerprints_for_inbounds env ibs = hm_collect (map (\<lambda>ib. (ib_tag ib, from_users env (ib_users ib))) ibs)"

definition check_config :: "service_env \<Rightarrow> core_config \<Rightarrow> service_error + unit" where
  "check_config env cfg =
     (case validate (vx_externals env) cfg of
        Inl (Err e) \<Rightarrow> Inl (InvalidConfig e)
      | Inl Panic \<Rightarrow> Inl Crash
      | Inr _ \<Rightarrow>
          (case validate_unique_listener_binds env (cc_inbounds cfg) of Inl e \<Rightarrow> Inl (InvalidConfig e) | Inr _ \<Rightarrow> Inr ()))"

definition quic_limiter :: "inbound_config list \<Rightarrow> nat option" where
  "quic_limiter ibs = (let n = length (filter inbound_binds_quic ibs) in if 0 < n then Some n else None)"

definition core_service_start :: "service_env \<Rightarrow> core_config \<Rightarrow> world \<Rightarrow> (service_error + core_service) \<times> world" where
  "core_service_start env cfg w =
     (case check_config env cfg of
        Inl e \<Rightarrow> (Inl e, w)
      | Inr _ \<Rightarrow>
          (let active = config_without_users cfg; quic = quic_limiter (cc_inbounds cfg) in
           case start_listeners env active (outbound_connect_timeout env (cc_policy cfg)) quic (cc_inbounds cfg) w of
             (Inl e, w') \<Rightarrow> (Inl e, w')
           | (Inr hs, w') \<Rightarrow>
               (Inr \<lparr>cs_config = active, cs_listeners = hs, cs_traffic = traffic_default, cs_sessions = default_tracker,
                     cs_bandwidth = default_limiters, cs_quic_connections = quic, cs_tls_failures = tls_handshake,
                     cs_user_revisions = [], cs_user_fingerprints = user_fingerprints_for_inbounds env (cc_inbounds cfg),
                     cs_stopped = False\<rparr>, w')))"

section \<open>Updating users and routes\<close>

fun update_first :: "('a \<Rightarrow> bool) \<Rightarrow> ('a \<Rightarrow> 'a) \<Rightarrow> 'a list \<Rightarrow> 'a list" where
  "update_first P f [] = []"
| "update_first P f (x # xs) = (if P x then f x # xs else x # update_first P f xs)"

definition find_listener :: "string \<Rightarrow> core_service \<Rightarrow> listener_handle option" where
  "find_listener tag svc = find (\<lambda>h. lh_tag h = tag) (cs_listeners svc)"

definition put_server :: "string \<Rightarrow> server \<Rightarrow> core_service \<Rightarrow> core_service" where
  "put_server tag srv svc =
     svc\<lparr>cs_listeners := update_first (\<lambda>h. lh_tag h = tag) (\<lambda>h. h\<lparr>lh_server := srv\<rparr>) (cs_listeners svc)\<rparr>"

text \<open>Hash maps are equal when they hold the same entries.\<close>

definition fingerprints_changed :: "service_env \<Rightarrow> inbound_config \<Rightarrow> core_service \<Rightarrow> bool" where
  "fingerprints_changed env ib svc =
     (case hm_get (cs_user_fingerprints svc) (ib_tag ib) of
        None \<Rightarrow> True
      | Some old \<Rightarrow> set old \<noteq> set (from_users env (ib_users ib)))"

text \<open>The users of one inbound, installed in \<open>srv\<close> unless their fingerprints are already recorded.\<close>

definition refresh_users ::
    "service_env \<Rightarrow> inbound_config \<Rightarrow> server \<Rightarrow> core_service \<Rightarrow> (server \<times> core_service) vresult" where
  "refresh_users env ib srv svc =
     (if fingerprints_changed env ib svc then
        and_then (replace_users (vx_server env) (ib_users ib) srv (cs_bandwidth svc, cs_sessions svc)) (\<lambda>(srv', bw, se).
          Inr (srv', svc\<lparr>cs_bandwidth := bw, cs_sessions := se,
                        cs_user_revisions := hm_remove (ib_tag ib) (cs_user_revisions svc),
                        cs_user_fingerprints := hm_insert (ib_tag ib) (from_users env (ib_users ib)) (cs_user_fingerprints svc)\<rparr>))
      else Inr (srv, svc))"

definition refresh_inbound :: "service_env \<Rightarrow> (server \<Rightarrow> server) \<Rightarrow> inbound_config \<Rightarrow> core_service \<Rightarrow> core_service vresult" where
  "refresh_inbound env routes ib svc =
     (case find_listener (ib_tag ib) svc of
        None \<Rightarrow> Inr svc
      | Some h \<Rightarrow>
          and_then (refresh_users env ib (lh_server h) svc) (\<lambda>(srv, svc'). Inr (put_server (ib_tag ib) (routes srv) svc')))"

fun refresh_inbounds :: "(inbound_config \<Rightarrow> core_service \<Rightarrow> core_service vresult) \<Rightarrow> inbound_config list \<Rightarrow> core_service \<Rightarrow> core_service vresult" where
  "refresh_inbounds f [] svc = Inr svc"
| "refresh_inbounds f (ib # ibs) svc = and_then (f ib svc) (refresh_inbounds f ibs)"

definition update_users :: "service_env \<Rightarrow> core_config \<Rightarrow> core_service \<Rightarrow> core_service vresult" where
  "update_users env cfg svc =
     and_then (refresh_inbounds (refresh_inbound env (\<lambda>srv. srv)) (cc_inbounds cfg) svc) (\<lambda>svc'.
       Inr (svc'\<lparr>cs_config := config_without_users cfg\<rparr>))"

definition update_routes_and_users :: "service_env \<Rightarrow> core_config \<Rightarrow> core_service \<Rightarrow> core_service vresult" where
  "update_routes_and_users env cfg svc =
     (let active = config_without_users cfg in
      and_then (refresh_inbounds (\<lambda>ib. refresh_inbound env (replace_routes (resolved_inbound_routes active ib)) ib) (cc_inbounds cfg) svc)
        (\<lambda>svc'. Inr (svc'\<lparr>cs_config := active\<rparr>)))"

definition reroute_inbound :: "core_config \<Rightarrow> inbound_config \<Rightarrow> core_service \<Rightarrow> core_service" where
  "reroute_inbound active ib svc =
     (case find_listener (ib_tag ib) svc of
        None \<Rightarrow> svc
      | Some h \<Rightarrow> put_server (ib_tag ib) (replace_routes (resolved_inbound_routes active ib) (lh_server h)) svc)"

definition update_routes :: "core_config \<Rightarrow> core_service \<Rightarrow> core_service" where
  "update_routes cfg svc =
     (let active = config_without_users cfg
      in (fold (reroute_inbound active) (cc_inbounds active) svc)\<lparr>cs_config := active\<rparr>)"

section \<open>Changed listeners\<close>

definition stop_listener_handle :: "listener_handle \<Rightarrow> world \<Rightarrow> world" where
  "stop_listener_handle h w = w\<lparr>wd_running := removeAll (lh_id h) (wd_running w)\<rparr>"

definition stop_new_listener_handles :: "(string, listener_handle) hmap \<Rightarrow> world \<Rightarrow> world" where
  "stop_new_listener_handles handles w = fold (\<lambda>(_, h). stop_listener_handle h) handles w"

definition needs_new_listener :: "(string, inbound_config) hmap \<Rightarrow> inbound_config \<Rightarrow> bool" where
  "needs_new_listener old ib =
     (case hm_get old (ib_tag ib) of None \<Rightarrow> True | Some prev \<Rightarrow> \<not> inbound_eq_without_users_routes prev (inbound_without_users ib))"

definition keeps_bind :: "(string, inbound_config) hmap \<Rightarrow> inbound_config \<Rightarrow> bool" where
  "keeps_bind old ib = (case hm_get old (ib_tag ib) of None \<Rightarrow> False | Some prev \<Rightarrow> listener_bind_eq prev (inbound_without_users ib))"

text \<open>
  The loop that opens new and changed listeners. \<open>Inr None\<close> is \<^verbatim>\<open>Ok(false)\<close>: a changed listener keeps its
  address and cannot be opened beside the old one.
\<close>

fun open_changed ::
    "service_env \<Rightarrow> core_config \<Rightarrow> duration \<Rightarrow> nat option \<Rightarrow> (string, inbound_config) hmap \<Rightarrow> inbound_config list \<Rightarrow>
     (string, listener_handle) hmap \<Rightarrow> world \<Rightarrow> (service_error + (string, listener_handle) hmap option) \<times> world" where
  "open_changed env active t quic old [] new w = (Inr (Some new), w)"
| "open_changed env active t quic old (ib # ibs) new w =
     (if \<not> needs_new_listener old ib then open_changed env active t quic old ibs new w
      else if keeps_bind old ib then (Inr None, stop_new_listener_handles new w)
      else case start_listener_handle env ib active t quic w of
        (Inl e, w') \<Rightarrow> (Inl e, stop_new_listener_handles new w')
      | (Inr h, w') \<Rightarrow> open_changed env active t quic old ibs (hm_insert (ib_tag ib) h new) w')"

record hot_update =
  hu_service :: core_service
  hu_new :: "(string, listener_handle) hmap"
  hu_old :: "(string, listener_handle) hmap"
  hu_listeners :: "listener_handle list"
  hu_world :: world

definition install_new :: "service_env \<Rightarrow> inbound_config \<Rightarrow> listener_handle \<Rightarrow> hot_update \<Rightarrow> hot_update" where
  "install_new env ib h hu =
     hu\<lparr>hu_world := (case hm_get (hu_old hu) (ib_tag ib) of None \<Rightarrow> hu_world hu | Some old \<Rightarrow> stop_listener_handle old (hu_world hu)),
        hu_new := hm_remove (ib_tag ib) (hu_new hu),
        hu_old := hm_remove (ib_tag ib) (hu_old hu),
        hu_service := (hu_service hu)\<lparr>
          cs_user_revisions := hm_remove (ib_tag ib) (cs_user_revisions (hu_service hu)),
          cs_user_fingerprints := hm_insert (ib_tag ib) (from_users env (ib_users ib)) (cs_user_fingerprints (hu_service hu))\<rparr>,
        hu_listeners := hu_listeners hu @ [h]\<rparr>"

definition keep_old :: "service_env \<Rightarrow> core_config \<Rightarrow> inbound_config \<Rightarrow> listener_handle \<Rightarrow> hot_update \<Rightarrow> hot_update vresult" where
  "keep_old env active ib h hu =
     and_then (refresh_users env ib (lh_server h) (hu_service hu)) (\<lambda>(srv, svc).
       Inr (hu\<lparr>hu_service := svc, hu_old := hm_remove (ib_tag ib) (hu_old hu),
               hu_listeners := hu_listeners hu @ [h\<lparr>lh_server := replace_routes (resolved_inbound_routes active ib) srv\<rparr>]\<rparr>))"

fun swap_listeners :: "service_env \<Rightarrow> core_config \<Rightarrow> inbound_config list \<Rightarrow> hot_update \<Rightarrow> hot_update vresult" where
  "swap_listeners env active [] hu = Inr hu"
| "swap_listeners env active (ib # ibs) hu =
     (case hm_get (hu_new hu) (ib_tag ib) of
        Some h \<Rightarrow> swap_listeners env active ibs (install_new env ib h hu)
      | None \<Rightarrow>
          (case hm_get (hu_old hu) (ib_tag ib) of
             None \<Rightarrow> swap_listeners env active ibs hu
           | Some h \<Rightarrow> and_then (keep_old env active ib h hu) (swap_listeners env active ibs)))"

definition drop_old :: "string list \<Rightarrow> string \<times> listener_handle \<Rightarrow> core_service \<times> world \<Rightarrow> core_service \<times> world" where
  "drop_old desired = (\<lambda>(tag, h) (svc, w).
     (if tag \<in> set desired then svc
      else svc\<lparr>cs_user_revisions := hm_remove tag (cs_user_revisions svc),
               cs_user_fingerprints := hm_remove tag (cs_user_fingerprints svc)\<rparr>,
      stop_listener_handle h w))"

definition finish_update :: "core_config \<Rightarrow> hot_update \<Rightarrow> core_service \<times> world" where
  "finish_update active hu =
     (let (svc, w) = fold (drop_old (map ib_tag (cc_inbounds active))) (hu_old hu) (hu_service hu, hu_world hu)
      in (svc\<lparr>cs_listeners := hu_listeners hu, cs_config := active\<rparr>, w))"

definition by_tag :: "inbound_config list \<Rightarrow> (string, inbound_config) hmap" where
  "by_tag ibs = hm_collect (map (\<lambda>ib. (ib_tag ib, ib)) ibs)"

definition update_changed_listeners_and_users ::
    "service_env \<Rightarrow> core_config \<Rightarrow> core_service \<Rightarrow> world \<Rightarrow> (service_error + bool) \<times> core_service \<times> world" where
  "update_changed_listeners_and_users env cfg svc w =
     (case check_config env cfg of
        Inl e \<Rightarrow> (Inl e, svc, w)
      | Inr _ \<Rightarrow>
          (let active = config_without_users cfg; t = outbound_connect_timeout env (cc_policy cfg) in
           if \<not> config_allows_listener_level_update (cs_config svc) active \<or>
              \<not> quic_listener_structures_unchanged (cc_inbounds (cs_config svc)) (cc_inbounds active) then (Inr False, svc, w)
           else case open_changed env active t (cs_quic_connections svc) (by_tag (cc_inbounds (cs_config svc))) (cc_inbounds cfg) [] w of
             (Inl e, w') \<Rightarrow> (Inl e, svc, w')
           | (Inr None, w') \<Rightarrow> (Inr False, svc, w')
           | (Inr (Some new), w') \<Rightarrow>
               (if new = [] \<and> inbounds_same_tags (cc_inbounds (cs_config svc)) (cc_inbounds active) then (Inr False, svc, w')
                else
                  (let old = hm_collect (map (\<lambda>h. (lh_tag h, h)) (cs_listeners svc)) in
                   case swap_listeners env active (cc_inbounds cfg)
                          \<lparr>hu_service = svc, hu_new = new, hu_old = old, hu_listeners = [], hu_world = w'\<rparr> of
                     Inl _ \<Rightarrow> (Inl Crash, svc, w')
                   | Inr hu \<Rightarrow> (Inr True, finish_update active hu)))))"

section \<open>User deltas and stopping\<close>

definition fingerprints_apply_delta :: "service_env \<Rightarrow> core_user_delta \<Rightarrow> user_fingerprints \<Rightarrow> user_fingerprints" where
  "fingerprints_apply_delta env delta fs =
     (case d_full delta of
        Some full \<Rightarrow> from_users env full
      | None \<Rightarrow>
          fold hm_remove (d_deleted delta)
            (fold (\<lambda>u m. if user_is_empty u then m else hm_insert (cu_uuid u) (vx_user_hash env u) m) (d_added delta @ d_updated delta) fs))"

definition check_revision :: "string \<Rightarrow> core_user_delta \<Rightarrow> core_service \<Rightarrow> unit vresult" where
  "check_revision tag delta svc =
     (case (d_full delta, d_base_revision delta) of
        (None, Some base) \<Rightarrow>
          (case hm_get (cs_user_revisions svc) tag of
             Some current \<Rightarrow>
               (if current \<noteq> base then Inl (Err (concat [''revision mismatch for inbound '', tag, '': current '', current, '', base '', base]))
                else Inr ())
           | None \<Rightarrow> Inl (Err (concat [''revision mismatch for inbound '', tag, '': current <missing>, base '', base,
                                  ''; full snapshot required''])))
      | _ \<Rightarrow> Inr ())"

definition service_apply_user_delta ::
    "service_env \<Rightarrow> string \<Rightarrow> core_user_delta \<Rightarrow> core_service \<Rightarrow> (core_user_delta_result \<times> core_service) vresult" where
  "service_apply_user_delta env tag delta svc =
     (case find_listener tag svc of
        None \<Rightarrow> Inl (Err (''unknown inbound node_tag '' @ tag))
      | Some h \<Rightarrow>
          and_then (check_revision tag delta svc) (\<lambda>_.
          and_then (apply_user_delta (vx_server env) delta (lh_server h) (cs_bandwidth svc, cs_sessions svc)) (\<lambda>(r, srv, bw, se).
            let svc1 = put_server tag srv (svc\<lparr>cs_bandwidth := bw, cs_sessions := se\<rparr>);
                fs = (case hm_get (cs_user_fingerprints svc) tag of Some fs \<Rightarrow> fs | None \<Rightarrow> []);
                svc2 = svc1\<lparr>cs_user_fingerprints := hm_insert tag (fingerprints_apply_delta env delta fs) (cs_user_fingerprints svc)\<rparr>;
                revs = cs_user_revisions svc
            in Inr (r, svc2\<lparr>cs_user_revisions :=
                        (case d_revision delta of
                           Some revision \<Rightarrow> hm_insert tag revision revs
                         | None \<Rightarrow> if d_full delta \<noteq> None then hm_remove tag revs else revs)\<rparr>))))"

definition core_service_stop :: "core_service \<Rightarrow> world \<Rightarrow> core_service \<times> world" where
  "core_service_stop svc w =
     (if cs_stopped svc then (svc, w)
      else (svc\<lparr>cs_stopped := True, cs_bandwidth := close_all_connections (cs_bandwidth svc)\<rparr>,
            fold stop_listener_handle (cs_listeners svc) w))"

definition service_drain_traffic :: "u64 \<Rightarrow> core_service \<Rightarrow> traffic_delta list \<times> core_service" where
  "service_drain_traffic minimum svc =
     (let (records, reg) = drain_minimum minimum (cs_traffic svc) in (records, svc\<lparr>cs_traffic := reg\<rparr>))"

definition service_requeue_traffic :: "(tkey \<Rightarrow> u64) \<Rightarrow> traffic_delta list \<Rightarrow> core_service \<Rightarrow> core_service" where
  "service_requeue_traffic hash records svc = svc\<lparr>cs_traffic := add_deltas hash records (cs_traffic svc)\<rparr>"

end
