(* ===== verification/Service_Facts.thy ===== *)
theory Service_Facts
  imports Service
begin

text \<open>
  What the service guarantees: the listeners a checked configuration asks for never compete for an address, a hot
  update that fails leaves the listeners as they were, stopping ends every listener, user deltas apply in the
  order of their revisions, and the listeners always follow the configuration in force.
\<close>

section \<open>Addresses\<close>

lemma add_specs_ok:
  "add_specs seen specs = Inr r \<longleftrightarrow>
     r = seen @ specs \<and> sorted_wrt (\<lambda>a b. \<not> specs_conflict a b) specs \<and> (\<forall>a \<in> set seen. \<forall>b \<in> set specs. \<not> specs_conflict a b)"
proof (induction specs arbitrary: seen)
  case (Cons spec specs)
  show ?case
  proof (cases "find (\<lambda>existing. specs_conflict existing spec) seen")
    case None
    then have "\<forall>a \<in> set seen. \<not> specs_conflict a spec" by (auto simp: find_None_iff)
    with None Cons.IH [of "seen @ [spec]"] show ?thesis by auto
  next
    case (Some a)
    then have "a \<in> set seen" "specs_conflict a spec" by (auto simp: find_Some_iff)
    with Some show ?thesis by auto
  qed
qed auto

definition resolves :: "service_env \<Rightarrow> inbound_config \<Rightarrow> bool" where
  "resolves env ib = (case listener_bind_specs env ib of Inl _ \<Rightarrow> False | Inr _ \<Rightarrow> True)"

definition specs_of :: "service_env \<Rightarrow> inbound_config \<Rightarrow> bind_spec list" where
  "specs_of env ib = (case listener_bind_specs env ib of Inl _ \<Rightarrow> [] | Inr specs \<Rightarrow> specs)"

abbreviation specs_apart :: "bind_spec list \<Rightarrow> bool" where
  "specs_apart specs \<equiv> sorted_wrt (\<lambda>a b. \<not> specs_conflict a b) specs"

lemma unique_binds_from_ok:
  "unique_binds_from env seen ibs = Inr r \<longleftrightarrow>
     list_all (resolves env) ibs \<and> r = seen @ concat (map (specs_of env) ibs) \<and>
     specs_apart (concat (map (specs_of env) ibs)) \<and>
     (\<forall>a \<in> set seen. \<forall>b \<in> set (concat (map (specs_of env) ibs)). \<not> specs_conflict a b)"
proof (induction ibs arbitrary: seen)
  case (Cons ib ibs)
  show ?case
  proof (cases "listener_bind_specs env ib")
    case (Inr specs)
    then have ib: "resolves env ib" "specs_of env ib = specs" by (simp_all add: resolves_def specs_of_def)
    let ?apart = "specs_apart specs \<and> (\<forall>a \<in> set seen. \<forall>b \<in> set specs. \<not> specs_conflict a b)"
    show ?thesis
    proof (cases ?apart)
      case True
      then have "add_specs seen specs = Inr (seen @ specs)" by (simp add: add_specs_ok)
      with True Inr ib Cons.IH [of "seen @ specs"] show ?thesis by (simp add: sorted_wrt_append ball_Un) blast
    next
      case False
      then obtain e where "add_specs seen specs = Inl e" using add_specs_ok [of seen specs] by (cases "add_specs seen specs") auto
      with False Inr ib show ?thesis by (simp add: sorted_wrt_append ball_Un) blast
    qed
  qed (simp add: resolves_def)
qed auto


section \<open>Starting and stopping\<close>

definition world_wf :: "world \<Rightarrow> bool" where
  "world_wf w \<longleftrightarrow> (\<forall>k \<in> set (wd_running w). k < wd_attempts w)"

lemma start_handle_ok:
  assumes "start_listener_handle env ib active t quic w = (Inr h, w')"
  shows "lh_id h = wd_attempts w \<and> lh_tag h = ib_tag ib \<and> lh_protocol h = ib_protocol ib \<and>
    new_server (vx_server env) (ib_protocol ib) (ib_users ib) (resolved_inbound_routes active ib) = Inr (lh_server h) \<and>
    w' = \<lparr>wd_attempts = Suc (wd_attempts w), wd_running = wd_running w @ [wd_attempts w]\<rparr>"
  using assms by (auto simp: start_listener_handle_def Let_def split: if_splits sum.splits)

lemma start_handle_failed:
  assumes "start_listener_handle env ib active t quic w = (Inl e, w')"
  shows "wd_running w' = wd_running w \<and> wd_attempts w \<le> wd_attempts w'"
  using assms by (auto simp: start_listener_handle_def Let_def split: if_splits sum.splits)

lemma start_listeners_ok:
  "start_listeners env active t quic ibs w = (Inr hs, w') \<Longrightarrow>
   wd_running w' = wd_running w @ map lh_id hs \<and> map lh_id hs = [wd_attempts w..<wd_attempts w'] \<and> wd_attempts w \<le> wd_attempts w' \<and>
   list_all2 (\<lambda>h ib. lh_tag h = ib_tag ib \<and> lh_protocol h = ib_protocol ib \<and>
     new_server (vx_server env) (ib_protocol ib) (ib_users ib) (resolved_inbound_routes active ib) = Inr (lh_server h)) hs ibs"
proof (induction ibs arbitrary: w hs)
  case (Cons ib ibs)
  then obtain h w1 hs' where h: "start_listener_handle env ib active t quic w = (Inr h, w1)"
    and hs: "start_listeners env active t quic ibs w1 = (Inr hs', w')" "hs = h # hs'"
    by (auto split: prod.splits sum.splits)
  from Cons.IH [OF hs(1)] start_handle_ok [OF h] hs(2) show ?case by (auto simp: upt_conv_Cons)
qed simp

lemma stop_handles: "wd_running (fold stop_listener_handle hs w) = filter (\<lambda>k. k \<notin> lh_id ` set hs) (wd_running w)"
proof (induction hs arbitrary: w)
  case (Cons h hs)
  have "removeAll x ys = filter (\<lambda>k. k \<noteq> x) ys" for x and ys :: "nat list" by (induction ys) auto
  with Cons show ?case by (auto simp: stop_listener_handle_def intro: filter_cong)
qed simp

text \<open>
  Stopping a service that was just started ends every listener it opened and no other.
\<close>

theorem stop_undoes_start:
  assumes "core_service_start env cfg w = (Inr svc, w')" "world_wf w"
  shows "wd_running (snd (core_service_stop svc w')) = wd_running w"
proof -
  from assms(1) obtain quic t hs where s: "start_listeners env (config_without_users cfg) t quic (cc_inbounds cfg) w = (Inr hs, w')"
    and svc: "cs_listeners svc = hs" "\<not> cs_stopped svc"
    by (auto simp: core_service_start_def Let_def split: sum.splits prod.splits)
  note ok = start_listeners_ok [OF s]
  then have ids: "lh_id ` set hs = {wd_attempts w..<wd_attempts w'}" by (metis set_map set_upt)
  have "filter (\<lambda>k. k \<notin> lh_id ` set hs) (wd_running w) = wd_running w"
    using assms(2) unfolding ids world_wf_def filter_id_conv by auto
  moreover have "filter (\<lambda>k. k \<notin> lh_id ` set hs) (map lh_id hs) = []" by (auto simp: filter_empty_conv)
  ultimately show ?thesis using ok svc by (simp add: core_service_stop_def stop_handles)
qed

text \<open>
  When the listener of one inbound cannot be opened, starting fails, and the listeners already opened for the
  inbounds before it stay running with no service that could stop them.
\<close>

theorem failed_start_leaks_listeners:
  assumes "check_config env cfg = Inr ()" "cc_inbounds cfg = pre @ ib # post"
    and "t = outbound_connect_timeout env (cc_policy cfg)" "quic = quic_limiter (cc_inbounds cfg)"
    and "start_listeners env (config_without_users cfg) t quic pre w = (Inr hs, w1)"
    and "start_listener_handle env ib (config_without_users cfg) t quic w1 = (Inl e, w2)"
  shows "core_service_start env cfg w = (Inl e, w2) \<and> wd_running w2 = wd_running w @ map lh_id hs"
proof -
  have "start_listeners env a t quic (pre @ ib # post) w = (Inl e, w2)"
    if "start_listeners env a t quic pre w = (Inr hs, w1)" "start_listener_handle env ib a t quic w1 = (Inl e, w2)" for a hs w
    using that by (induction pre arbitrary: w hs) (auto split: prod.splits sum.splits)
  from this [OF assms(5,6)] show ?thesis
    using assms start_listeners_ok [OF assms(5)] start_handle_failed [OF assms(6)]
    by (simp add: core_service_start_def Let_def)
qed

section \<open>Hot updates that do not happen\<close>

text \<open>The accept loops running are those of before and the ones of the new handles, which have later numbers.\<close>

definition opened :: "nat \<Rightarrow> nat list \<Rightarrow> (string, listener_handle) hmap \<Rightarrow> world \<Rightarrow> bool" where
  "opened n base new w \<longleftrightarrow> (\<forall>k \<in> set base. k < n) \<and> n \<le> wd_attempts w \<and>
     (\<exists>extra. wd_running w = base @ extra \<and> set extra = lh_id ` snd ` set new \<and> (\<forall>k \<in> set extra. n \<le> k))"

lemma stop_new_handles:
  "wd_running (stop_new_listener_handles new w) = filter (\<lambda>k. k \<notin> lh_id ` snd ` set new) (wd_running w)"
proof -
  have "stop_new_listener_handles new w = fold stop_listener_handle (map snd new) w"
    by (simp add: stop_new_listener_handles_def fold_map comp_def case_prod_beta')
  then show ?thesis by (simp add: stop_handles)
qed

lemma opened_stop: "opened n base new w \<Longrightarrow> wd_running (stop_new_listener_handles new w) = base"
proof -
  assume o: "opened n base new w"
  then obtain extra where e: "wd_running w = base @ extra" "set extra = lh_id ` snd ` set new" "\<forall>k \<in> set extra. n \<le> k"
    by (auto simp: opened_def)
  have "filter (\<lambda>k. k \<notin> set extra) extra = []" by (simp add: filter_empty_conv)
  moreover have "filter (\<lambda>k. k \<notin> set extra) base = base"
    using o e(3) unfolding filter_id_conv opened_def by (meson not_le)
  ultimately show ?thesis using e by (simp add: stop_new_handles)
qed

lemma hm_insert_fresh_set: "k \<notin> fst ` set m \<Longrightarrow> set (hm_insert k v m) = insert (k, v) (set m)"
  using hm_insert_fresh [of k m v] by simp

lemma opened_start:
  assumes "opened n base new w" "start_listener_handle env ib active t quic w = (Inr h, w')" "tag \<notin> fst ` set new"
  shows "opened n base (hm_insert tag h new) w'"
proof -
  from assms(1) obtain extra where e: "wd_running w = base @ extra" "set extra = lh_id ` snd ` set new" "\<forall>k \<in> set extra. n \<le> k"
    by (auto simp: opened_def)
  have "wd_running w' = base @ (extra @ [lh_id h])" "n \<le> lh_id h" "n \<le> wd_attempts w'"
    using e start_handle_ok [OF assms(2)] assms(1) by (auto simp: opened_def)
  moreover have "set (extra @ [lh_id h]) = lh_id ` snd ` set (hm_insert tag h new)"
    using e(2) hm_insert_fresh_set [OF assms(3), of h] by auto
  ultimately show ?thesis using assms(1) e(3) unfolding opened_def
    by (metis Un_iff empty_iff empty_set insert_iff list.simps(15) set_append)
qed

lemma opened_failed: "opened n base new w \<Longrightarrow> start_listener_handle env ib active t quic w = (Inl e, w') \<Longrightarrow> opened n base new w'"
  using start_handle_failed [of env ib active t quic w e w'] by (auto simp: opened_def)

lemma open_changed_world:
  assumes "open_changed env active t quic old ibs new w = (r, w')" "opened n base new w"
    and "distinct (map ib_tag ibs)" "fst ` set new \<inter> ib_tag ` set ibs = {}"
  shows "case r of Inr (Some new') \<Rightarrow> opened n base new' w' | _ \<Rightarrow> wd_running w' = base"
  using assms
proof (induction ibs arbitrary: new w)
  case (Cons ib ibs)
  show ?case
  proof (cases "\<not> needs_new_listener old ib \<or> keeps_bind old ib")
    case True
    with Cons show ?thesis by (auto simp: opened_stop split: if_splits)
  next
    case False
    obtain s w1 where s: "start_listener_handle env ib active t quic w = (s, w1)" by force
    show ?thesis
    proof (cases s)
      case (Inl e)
      with s Cons.prems(2) have "opened n base new w1" by (blast intro: opened_failed)
      with opened_stop [OF this] False s Inl Cons.prems(1) show ?thesis by auto
    next
      case (Inr h)
      have "ib_tag ib \<notin> fst ` set new" using Cons.prems(4) by auto
      with Inr s Cons.prems(2) have "opened n base (hm_insert (ib_tag ib) h new) w1" by (blast intro: opened_start)
      moreover have "fst ` set (hm_insert (ib_tag ib) h new) \<inter> ib_tag ` set ibs = {}"
        using Cons.prems(3,4) by (auto simp: hm_insert_keys)
      ultimately show ?thesis using False s Inr Cons by simp
    qed
  qed
qed auto

lemma check_config_ok: "check_config env cfg = Inr () \<Longrightarrow> validate (vx_externals env) cfg = Inr ()"
  by (auto simp: check_config_def split: sum.splits verr.splits)

lemma refused_update:
  assumes "update_changed_listeners_and_users env cfg svc w = (r, svc', w')" "world_wf w"
    and "r \<noteq> Inr True" "r \<noteq> Inl Crash"
  shows "svc' = svc \<and> wd_running w' = wd_running w"
proof -
  let ?active = "config_without_users cfg" and ?old = "by_tag (cc_inbounds (cs_config svc))"
  obtain s w1 where s: "open_changed env ?active (outbound_connect_timeout env (cc_policy cfg)) (cs_quic_connections svc)
      ?old (cc_inbounds cfg) [] w = (s, w1)" by force
  have "opened (wd_attempts w) (wd_running w) [] w" using assms(2) by (simp add: opened_def world_wf_def)
  moreover have "distinct (map ib_tag (cc_inbounds cfg))" if "check_config env cfg = Inr ()"
    using validate_okD(3) [OF check_config_ok [OF that]] .
  ultimately have world: "case s of Inr (Some new) \<Rightarrow> opened (wd_attempts w) (wd_running w) new w1 | _ \<Rightarrow> wd_running w1 = wd_running w"
    if "check_config env cfg = Inr ()" using open_changed_world [OF s] that by simp
  have none: "opened (wd_attempts w) (wd_running w) [] w1 \<Longrightarrow> wd_running w1 = wd_running w" by (auto simp: opened_def)
  show ?thesis
    using assms(1,3,4) s world none
    by (auto simp: update_changed_listeners_and_users_def Let_def split: sum.splits if_splits option.splits prod.splits)
qed

text \<open>
  C13. A hot update of changed listeners that is refused or fails leaves the service as it was and exactly the
  listeners running that ran before, also when some of the new ones had already been opened.
\<close>

theorem failed_hot_update_changes_nothing:
  assumes "update_changed_listeners_and_users env cfg svc w = (r, svc', w')" "world_wf w"
    and "r \<noteq> Inr True" "r \<noteq> Inl Crash"
  shows "svc' = svc \<and> wd_running w' = wd_running w"
  by (rule refused_update [OF assms])

section \<open>Revisions\<close>

lemma find_update_first:
  "find (\<lambda>h. lh_tag h = tag') (update_first (\<lambda>h. lh_tag h = tag) (\<lambda>h. h\<lparr>lh_server := srv\<rparr>) hs) =
     (if tag' = tag then map_option (\<lambda>h. h\<lparr>lh_server := srv\<rparr>) (find (\<lambda>h. lh_tag h = tag) hs) else find (\<lambda>h. lh_tag h = tag') hs)"
  by (induction hs) auto

lemma find_put_server:
  "find_listener tag' (put_server tag srv svc) =
     (if tag' = tag then map_option (\<lambda>h. h\<lparr>lh_server := srv\<rparr>) (find_listener tag svc) else find_listener tag' svc)"
  using find_update_first [of tag' tag srv "cs_listeners svc"] by (simp add: find_listener_def put_server_def)

lemma find_listener_cong: "cs_listeners svc = cs_listeners svc' \<Longrightarrow> find_listener tag svc = find_listener tag svc'"
  by (simp add: find_listener_def)

lemma service_delta_ok:
  assumes "service_apply_user_delta env tag delta svc = Inr (r, svc')"
  obtains h srv bw se where "find_listener tag svc = Some h" "check_revision tag delta svc = Inr ()"
    "apply_user_delta (vx_server env) delta (lh_server h) (cs_bandwidth svc, cs_sessions svc) = Inr (r, srv, bw, se)"
    "cs_bandwidth svc' = bw" "cs_sessions svc' = se" "cs_config svc' = cs_config svc" "cs_traffic svc' = cs_traffic svc"
    "cs_listeners svc' = cs_listeners (put_server tag srv svc)"
    "cs_user_revisions svc' = (case d_revision delta of Some revision \<Rightarrow> hm_insert tag revision (cs_user_revisions svc)
       | None \<Rightarrow> if d_full delta \<noteq> None then hm_remove tag (cs_user_revisions svc) else cs_user_revisions svc)"
    "cs_user_fingerprints svc' = hm_insert tag (fingerprints_apply_delta env delta
       (case hm_get (cs_user_fingerprints svc) tag of Some fs \<Rightarrow> fs | None \<Rightarrow> [])) (cs_user_fingerprints svc)"
  using assms by (auto simp: service_apply_user_delta_def result_simps Let_def put_server_def split: option.splits)


section \<open>Snapshots and the other inbounds\<close>

text \<open>
  Limiters and sessions are shared by all inbounds. A delta to one inbound that removes a user there, or a full
  list without the user, revokes the limiter of that user and clears their sessions on every inbound, while another
  inbound still has the user in its table.
\<close>

theorem delta_cuts_user_of_other_inbound:
  assumes "service_apply_user_delta env tag delta svc = Inr (r, svc')" "cut_by delta uuid"
    and "limiters_wf (sx_hash (vx_server env)) (cs_bandwidth svc)" "sessions_wf (sx_hash (vx_server env)) (cs_sessions svc)"
    and "other \<noteq> tag" "find_listener other svc = Some h"
  shows "find_listener other svc' = Some h \<and> cut_off (sx_hash (vx_server env)) (cs_bandwidth svc') uuid \<and>
    active_count (sx_hash (vx_server env)) (cs_sessions svc') uuid = 0"
proof -
  from assms(1) obtain g :: listener_handle and srv bw se where
    app: "apply_user_delta (vx_server env) delta (lh_server g) (cs_bandwidth svc, cs_sessions svc) = Inr (r, srv, bw, se)"
    and svc': "cs_bandwidth svc' = bw" "cs_sessions svc' = se" "cs_listeners svc' = cs_listeners (put_server tag srv svc)"
    by (rule service_delta_ok) blast
  from apply_user_delta_frame [OF app] assms(2) obtain d where d: "cut_by d uuid"
    "(bw, se) = sync_user_limit_delta (sx_hash (vx_server env)) d (cs_bandwidth svc, cs_sessions svc)" by auto
  have "find_listener other svc' = Some h"
    using svc'(3) assms(5,6) find_put_server [of other tag srv svc] find_listener_cong [of svc' "put_server tag srv svc" other] by simp
  moreover have "cut_off (sx_hash (vx_server env)) bw uuid" "active_count (sx_hash (vx_server env)) se uuid = 0"
    using limiters_cut [OF assms(3) d(1), of "cs_sessions svc"] sessions_cut [OF assms(4) d(1), of "cs_bandwidth svc"] d(2)
    by (metis fst_conv, metis snd_conv)
  ultimately show ?thesis using svc' by simp
qed

section \<open>Fingerprints\<close>

lemma hm_collect_snoc: "hm_collect (ps @ [(k, v)]) = hm_insert k v (hm_collect ps)"
  by (simp add: hm_collect_def)

text \<open>
  An update of a user an inbound does not have is counted as missing and not installed, but the user is
  recorded among the fingerprints. A configuration that lists the user after the users last installed is then taken
  to be in force already, and the user is still not installed.
\<close>

theorem missing_update_hides_user:
  assumes "find_listener tag svc = Some h" "se_protocol (lh_server h) = Socks" "se_table (lh_server h) = Uuid_Store m"
    and "hm_get m (cu_uuid u) = None" "\<not> user_is_empty u"
    and "hm_get (cs_user_fingerprints svc) tag = Some (from_users env users)"
    and "delta = \<lparr>d_added = [], d_updated = [u], d_deleted = [], d_full = None, d_base_revision = None, d_revision = None\<rparr>"
    and "ib_tag ib = tag" "ib_users ib = users @ [u]"
    and "service_apply_user_delta env tag delta svc = Inr (r, svc')" "refresh_inbound env (\<lambda>srv. srv) ib svc' = Inr svc''"
  shows "r_missing_updated r = 1 \<and>
    (\<exists>h'. find_listener tag svc'' = Some h' \<and> se_table (lh_server h') = Uuid_Store m)"
proof -
  from assms(10) obtain srv bw se where
    app: "apply_user_delta (vx_server env) delta (lh_server h) (cs_bandwidth svc, cs_sessions svc) = Inr (r, srv, bw, se)"
    and svc': "cs_listeners svc' = cs_listeners (put_server tag srv svc)"
      "cs_user_fingerprints svc' = hm_insert tag (fingerprints_apply_delta env delta (from_users env users)) (cs_user_fingerprints svc)"
    by (rule service_delta_ok) (simp add: assms(1,6))
  have "apply_uuid_delta delta m = (m, default_result\<lparr>r_missing_updated := 1, r_active_users := length m\<rparr>)"
    using assms(4,5) by (simp add: assms(7) apply_uuid_delta_def uuid_update_one_def hm_contains_def finish_delta_def
        count_missing_updated_def default_result_def)
  then have srv: "se_table srv = Uuid_Store m" "r_missing_updated r = 1"
    using app assms(2,3) by (auto simp: delta_defs with_table_def table_map_def)
  have find: "find_listener tag svc' = Some (h\<lparr>lh_server := srv\<rparr>)"
    using svc'(1) assms(1) find_put_server [of tag tag srv svc] find_listener_cong [of svc' "put_server tag srv svc" tag] by simp
  have "fingerprints_apply_delta env delta (from_users env users) = from_users env (users @ [u])"
    using assms(5) by (simp add: assms(7) fingerprints_apply_delta_def from_users_def hm_collect_snoc)
  then have "\<not> fingerprints_changed env ib svc'" using svc'(2) assms(8,9) by (simp add: fingerprints_changed_def)
  with assms(8,11) find have "svc'' = put_server tag srv svc'"
    by (simp add: refresh_inbound_def refresh_users_def and_then_def)
  then show ?thesis using find srv find_put_server [of tag tag srv svc'] by simp
qed

section \<open>Listeners follow the configuration\<close>

definition serves :: "service_env \<Rightarrow> core_config \<Rightarrow> listener_handle \<Rightarrow> inbound_config \<Rightarrow> bool" where
  "serves env cfg h ib \<longleftrightarrow>
     lh_tag h = ib_tag ib \<and> lh_protocol h = ib_protocol ib \<and> se_protocol (lh_server h) = ib_protocol ib \<and>
     se_routes (lh_server h) = resolved_inbound_routes cfg ib \<and> server_reach (vx_server env) (lh_server h)"

definition follows :: "service_env \<Rightarrow> core_service \<Rightarrow> bool" where
  "follows env svc \<longleftrightarrow> distinct (map ib_tag (cc_inbounds (cs_config svc))) \<and>
     list_all2 (serves env (cs_config svc)) (cs_listeners svc) (cc_inbounds (cs_config svc))"

lemma without_users [simp]:
  "ib_tag (inbound_without_users ib) = ib_tag ib" "ib_protocol (inbound_without_users ib) = ib_protocol ib"
  "ib_routes (inbound_without_users ib) = ib_routes ib"
  "cc_inbounds (config_without_users cfg) = map inbound_without_users (cc_inbounds cfg)"
  "resolved_inbound_routes cfg (inbound_without_users ib) = resolved_inbound_routes cfg ib"
  by (simp_all add: inbound_without_users_def config_without_users_def resolved_inbound_routes_def)

lemma resolved_without_users [simp]: "resolved_inbound_routes (config_without_users cfg) ib = resolved_inbound_routes cfg ib"
proof -
  have "resolve_route (config_without_users cfg) = resolve_route cfg"
    by (simp add: fun_eq_iff resolve_route_def config_without_users_def split: option.splits route_action.splits)
  then show ?thesis by (simp add: resolved_inbound_routes_def config_without_users_def)
qed

lemma serves_without_users [simp]:
  "serves env cfg h (inbound_without_users ib) = serves env cfg h ib"
  "serves env (config_without_users cfg) = serves env cfg"
  by (simp_all add: serves_def fun_eq_iff)

lemma follows_by_tag:
  assumes "distinct (map ib_tag ibs)"
  shows "list_all2 (serves env cfg) hs ibs \<longleftrightarrow>
    map lh_tag hs = map ib_tag ibs \<and> (\<forall>ib \<in> set ibs. \<forall>h. find (\<lambda>h. lh_tag h = ib_tag ib) hs = Some h \<longrightarrow> serves env cfg h ib)"
  using assms
proof (induction ibs arbitrary: hs)
  case (Cons ib ibs)
  show ?case
  proof (cases hs)
    case (Cons h hs')
    have "find (\<lambda>h. lh_tag h = ib_tag j) hs = find (\<lambda>h. lh_tag h = ib_tag j) hs'" if "j \<in> set ibs" "lh_tag h = ib_tag ib" for j
      using Cons that \<open>distinct (map ib_tag (ib # ibs))\<close> by auto
    then show ?thesis
      using Cons Cons.IH [of hs'] \<open>distinct (map ib_tag (ib # ibs))\<close> by (auto simp: serves_def)
  qed simp
qed simp

lemma start_follows:
  assumes "core_service_start env cfg w = (Inr svc, w')"
  shows "follows env svc"
proof -
  let ?a = "config_without_users cfg"
  from assms obtain t quic hs where s: "start_listeners env ?a t quic (cc_inbounds cfg) w = (Inr hs, w')"
    and svc: "cs_listeners svc = hs" "cs_config svc = ?a" and ok: "check_config env cfg = Inr ()"
    by (auto simp: core_service_start_def Let_def split: sum.splits prod.splits)
  have "list_all2 (serves env ?a) hs (cc_inbounds cfg)"
    using start_listeners_ok [OF s, THEN conjunct2, THEN conjunct2, THEN conjunct2]
    by (rule list_all2_mono) (auto simp: serves_def dest: new_server_frame intro: server_reach.build)
  then have "list_all2 (serves env ?a) hs (cc_inbounds ?a)"
    by (simp add: list_all2_map2)
  moreover have "distinct (map ib_tag (cc_inbounds ?a))"
    using validate_okD(3) [OF check_config_ok [OF ok]] by (simp add: comp_def)
  ultimately show ?thesis using svc by (simp add: follows_def)
qed

text \<open>What a refresh of one inbound does to the listeners.\<close>

lemma refresh_users_server:
  assumes "refresh_users env ib srv svc = Inr (srv', svc')"
  shows "cs_listeners svc' = cs_listeners svc \<and> cs_config svc' = cs_config svc \<and> cs_quic_connections svc' = cs_quic_connections svc \<and>
    se_protocol srv' = se_protocol srv \<and> se_routes srv' = se_routes srv \<and>
    (server_reach (vx_server env) srv \<longrightarrow> server_reach (vx_server env) srv')"
  using assms
  by (auto simp: refresh_users_def result_simps split: if_splits dest: replace_users_frame intro: server_reach.users)

definition refreshed :: "service_env \<Rightarrow> listener_handle \<Rightarrow> listener_handle \<Rightarrow> bool" where
  "refreshed env h h' \<longleftrightarrow> lh_tag h' = lh_tag h \<and> lh_protocol h' = lh_protocol h \<and>
     se_protocol (lh_server h') = se_protocol (lh_server h) \<and>
     (server_reach (vx_server env) (lh_server h) \<longrightarrow> server_reach (vx_server env) (lh_server h'))"

lemma map_tag_put_server [simp]: "map lh_tag (cs_listeners (put_server tag srv svc)) = map lh_tag (cs_listeners svc)"
proof -
  have "map lh_tag (update_first P (\<lambda>h. h\<lparr>lh_server := srv\<rparr>) hs) = map lh_tag hs" for P hs by (induction hs) auto
  then show ?thesis by (simp add: put_server_def)
qed

lemma put_server_frame [simp]:
  "cs_config (put_server tag srv svc) = cs_config svc" "cs_quic_connections (put_server tag srv svc) = cs_quic_connections svc"
  by (simp_all add: put_server_def)

definition refreshes :: "service_env \<Rightarrow> (server \<Rightarrow> server) \<Rightarrow> inbound_config \<Rightarrow> core_service \<Rightarrow> core_service \<Rightarrow> bool" where
  "refreshes env f ib svc svc' \<longleftrightarrow>
     map lh_tag (cs_listeners svc') = map lh_tag (cs_listeners svc) \<and> cs_config svc' = cs_config svc \<and>
     cs_quic_connections svc' = cs_quic_connections svc \<and>
     (\<forall>tag. tag \<noteq> ib_tag ib \<longrightarrow> find_listener tag svc' = find_listener tag svc) \<and>
     (\<forall>h. find_listener (ib_tag ib) svc = Some h \<longrightarrow>
       (\<exists>srv. find_listener (ib_tag ib) svc' = Some (h\<lparr>lh_server := f srv\<rparr>) \<and> refreshed env h (h\<lparr>lh_server := f srv\<rparr>) \<and>
         se_routes srv = se_routes (lh_server h)))"

lemma refresh_inbound_refreshes:
  assumes "refresh_inbound env f ib svc = Inr svc'"
    and "\<And>srv. se_protocol (f srv) = se_protocol srv" "\<And>srv. server_reach (vx_server env) srv \<Longrightarrow> server_reach (vx_server env) (f srv)"
  shows "refreshes env f ib svc svc'"
proof (cases "find_listener (ib_tag ib) svc")
  case None
  with assms(1) show ?thesis by (simp add: refresh_inbound_def refreshes_def)
next
  case (Some h)
  with assms(1) obtain srv svc1 where r: "refresh_users env ib (lh_server h) svc = Inr (srv, svc1)"
    and svc': "svc' = put_server (ib_tag ib) (f srv) svc1"
    by (auto simp: refresh_inbound_def result_simps)
  note fr = refresh_users_server [OF r]
  then have "find_listener tag svc1 = find_listener tag svc" for tag by (simp add: find_listener_def)
  with fr Some svc' assms(2,3) show ?thesis by (auto simp: refreshes_def find_put_server refreshed_def intro!: exI [of _ srv])
qed

lemma refreshed_trans: "refreshed env a b \<Longrightarrow> refreshed env b c \<Longrightarrow> refreshed env a c"
  by (simp add: refreshed_def)

lemma refresh_inbounds_server:
  assumes "refresh_inbounds step ibs svc = Inr svc'" "distinct (map ib_tag ibs)"
    and step: "\<And>ib svc svc'. step ib svc = Inr svc' \<Longrightarrow> refreshes env (f ib) ib svc svc'"
  shows "map lh_tag (cs_listeners svc') = map lh_tag (cs_listeners svc) \<and> cs_quic_connections svc' = cs_quic_connections svc \<and>
    (\<forall>tag. tag \<notin> ib_tag ` set ibs \<longrightarrow> find_listener tag svc' = find_listener tag svc) \<and>
    (\<forall>ib \<in> set ibs. \<forall>h. find_listener (ib_tag ib) svc = Some h \<longrightarrow>
      (\<exists>srv. find_listener (ib_tag ib) svc' = Some (h\<lparr>lh_server := f ib srv\<rparr>) \<and> refreshed env h (h\<lparr>lh_server := f ib srv\<rparr>) \<and>
        se_routes srv = se_routes (lh_server h)))"
  using assms(1,2)
proof (induction ibs arbitrary: svc)
  case (Cons ib ibs)
  then obtain svc1 where s1: "step ib svc = Inr svc1"
    and rest: "refresh_inbounds step ibs svc1 = Inr svc'" by (auto simp: result_simps)
  note one = step [OF s1, unfolded refreshes_def]
  have "distinct (map ib_tag ibs)" "ib_tag ib \<notin> ib_tag ` set ibs" using Cons.prems(2) by auto
  note many = Cons.IH [OF rest this(1)] and this(2)
  show ?case
  proof (intro conjI ballI allI impI)
    fix j h assume j: "j \<in> set (ib # ibs)" "find_listener (ib_tag j) svc = Some h"
    show "\<exists>srv. find_listener (ib_tag j) svc' = Some (h\<lparr>lh_server := f j srv\<rparr>) \<and> refreshed env h (h\<lparr>lh_server := f j srv\<rparr>) \<and>
        se_routes srv = se_routes (lh_server h)"
    proof (cases "j = ib")
      case True
      with one many \<open>ib_tag ib \<notin> ib_tag ` set ibs\<close> j show ?thesis by simp
    next
      case False
      with j have j': "j \<in> set ibs" by simp
      with \<open>ib_tag ib \<notin> ib_tag ` set ibs\<close> have "ib_tag j \<noteq> ib_tag ib" by (metis imageI)
      with one many j(2) j' show ?thesis by simp
    qed
  qed (use one many in auto)
qed auto

text \<open>Inbounds that a listener can be kept for: they agree in tag and protocol.\<close>

definition same_listener :: "inbound_config \<Rightarrow> inbound_config \<Rightarrow> bool" where
  "same_listener l r \<longleftrightarrow> ib_tag l = ib_tag r \<and> ib_protocol l = ib_protocol r"

lemma same_listener_tags: "list_all2 same_listener ls rs \<Longrightarrow> map ib_tag ls = map ib_tag rs"
  by (induction rule: list_all2_induct) (auto simp: same_listener_def)

lemma eq_without_users_same:
  "inbound_eq_without_users l r \<Longrightarrow> same_listener l r \<and> ib_routes l = ib_routes r"
  "inbound_eq_without_users_routes l r \<Longrightarrow> same_listener l r"
  by (simp_all add: inbound_eq_without_users_def inbound_eq_without_users_routes_def same_listener_def)

lemma list_all2_partner: "list_all2 P ls rs \<Longrightarrow> r \<in> set rs \<Longrightarrow> \<exists>l \<in> set ls. P l r"
  by (induction rule: list_all2_induct) auto

lemma follows_handle:
  assumes "follows env svc" "ib \<in> set (cc_inbounds (cs_config svc))" "find_listener (ib_tag ib) svc = Some h"
  shows "serves env (cs_config svc) h ib"
  using assms follows_by_tag [of "cc_inbounds (cs_config svc)" env "cs_config svc" "cs_listeners svc"]
  by (simp add: follows_def find_listener_def)

lemma follows_tags: "follows env svc \<Longrightarrow> map lh_tag (cs_listeners svc) = map ib_tag (cc_inbounds (cs_config svc))"
  using follows_by_tag [of "cc_inbounds (cs_config svc)" env "cs_config svc" "cs_listeners svc"] by (simp add: follows_def)

lemma find_listener_exists: "tag \<in> lh_tag ` set (cs_listeners svc) \<Longrightarrow> \<exists>h. find_listener tag svc = Some h"
  by (auto simp: find_listener_def find_None_iff not_None_eq [symmetric])

lemma followsI:
  assumes "distinct (map ib_tag ibs)" "map lh_tag (cs_listeners svc) = map ib_tag ibs" "cs_config svc = config_without_users cfg"
    and "cc_inbounds cfg = ibs" "\<And>ib h. ib \<in> set ibs \<Longrightarrow> find_listener (ib_tag ib) svc = Some h \<Longrightarrow> serves env cfg h ib"
  shows "follows env svc"
proof -
  have "list_all2 (serves env cfg) (cs_listeners svc) ibs"
    using follows_by_tag [OF assms(1), of env cfg "cs_listeners svc"] assms(2,5) by (simp add: find_listener_def)
  then show ?thesis using assms(1,3,4) by (simp add: follows_def list_all2_map2 comp_def)
qed

text \<open>A refresh of every inbound carries the invariant from the old configuration to the new one.\<close>

lemma refresh_follows:
  assumes "follows env svc" "list_all2 P (cc_inbounds (cs_config svc)) (cc_inbounds cfg)"
    and P: "\<And>l r. P l r \<Longrightarrow> same_listener l r"
    and u: "refresh_inbounds step (cc_inbounds cfg) svc = Inr svc'"
    and step: "\<And>ib svc svc'. step ib svc = Inr svc' \<Longrightarrow> refreshes env (f ib) ib svc svc'"
    and routes: "\<And>l ib srv. P l ib \<Longrightarrow> se_routes srv = resolved_inbound_routes (cs_config svc) l \<Longrightarrow>
      se_routes (f ib srv) = resolved_inbound_routes cfg ib"
  shows "follows env (svc'\<lparr>cs_config := config_without_users cfg\<rparr>)"
proof -
  let ?old = "cs_config svc" and ?ibs = "cc_inbounds cfg"
  have "list_all2 same_listener (cc_inbounds ?old) ?ibs" using assms(2) P by (rule list_all2_mono)
  then have tags: "map ib_tag (cc_inbounds ?old) = map ib_tag ?ibs" by (rule same_listener_tags)
  with assms(1) have dist: "distinct (map ib_tag ?ibs)" by (simp add: follows_def)
  note r = refresh_inbounds_server [OF u dist step]
  show ?thesis
  proof (rule followsI [OF dist, where cfg = cfg])
    fix ib h' assume ib: "ib \<in> set ?ibs" "find_listener (ib_tag ib) (svc'\<lparr>cs_config := config_without_users cfg\<rparr>) = Some h'"
    then have h': "find_listener (ib_tag ib) svc' = Some h'" by (simp add: find_listener_def)
    obtain l where l: "l \<in> set (cc_inbounds ?old)" "P l ib" using list_all2_partner [OF assms(2) ib(1)] by blast
    then have lt: "ib_tag l = ib_tag ib" "ib_protocol l = ib_protocol ib" using P by (auto simp: same_listener_def)
    have "ib_tag ib \<in> lh_tag ` set (cs_listeners svc)" using follows_tags [OF assms(1)] l(1) lt(1) by (metis image_eqI list.set_map)
    then obtain h where h: "find_listener (ib_tag ib) svc = Some h" using find_listener_exists by blast
    have sv: "serves env ?old h l" using follows_handle [OF assms(1) l(1)] h lt by simp
    from r ib(1) h obtain srv where srv: "find_listener (ib_tag ib) svc' = Some (h\<lparr>lh_server := f ib srv\<rparr>)"
      "refreshed env h (h\<lparr>lh_server := f ib srv\<rparr>)" "se_routes srv = se_routes (lh_server h)" by blast
    have "se_routes (f ib srv) = resolved_inbound_routes cfg ib" using routes [OF l(2)] srv(3) sv by (simp add: serves_def)
    then show "serves env cfg h' ib" using h' srv lt sv by (auto simp: serves_def refreshed_def)
  qed (use r tags follows_tags [OF assms(1)] in simp_all)
qed

lemma resolved_routes_eq:
  assumes "cc_outbounds a = cc_outbounds b" "cc_routes a = cc_routes b" "ib_routes l = ib_routes r"
  shows "resolved_inbound_routes a l = resolved_inbound_routes b r"
proof -
  have "resolve_route a = resolve_route b"
    using assms(1) by (simp add: fun_eq_iff resolve_route_def split: option.splits route_action.splits)
  then show ?thesis using assms by (simp add: resolved_inbound_routes_def)
qed

lemma update_users_follows:
  assumes "follows env svc" "can_update_users svc cfg" "update_users env cfg svc = Inr svc'"
  shows "follows env svc'"
proof -
  from assms(3) obtain svc1 where u: "refresh_inbounds (\<lambda>ib. refresh_inbound env (\<lambda>srv. srv) ib) (cc_inbounds cfg) svc = Inr svc1"
    and svc': "svc' = svc1\<lparr>cs_config := config_without_users cfg\<rparr>" by (auto simp: update_users_def result_simps)
  have same: "list_all2 inbound_eq_without_users (cc_inbounds (cs_config svc)) (cc_inbounds cfg)"
    "cc_outbounds (cs_config svc) = cc_outbounds cfg" "cc_routes (cs_config svc) = cc_routes cfg"
    using assms(2) by (simp_all add: can_update_users_def config_eq_without_users_def inbounds_eq_without_users_def)
  show ?thesis unfolding svc'
    by (rule refresh_follows [OF assms(1) same(1) _ u, where f = "\<lambda>_ srv. srv"])
      (use eq_without_users_same(1) resolved_routes_eq [OF same(2,3)] in \<open>auto intro: refresh_inbound_refreshes\<close>)
qed

lemma replace_routes_frame [simp]:
  "se_protocol (replace_routes routes srv) = se_protocol srv" "se_routes (replace_routes routes srv) = routes"
  by (simp_all add: replace_routes_def)

lemma update_routes_and_users_follows:
  assumes "follows env svc" "can_update_routes svc cfg" "update_routes_and_users env cfg svc = Inr svc'"
  shows "follows env svc'"
proof -
  let ?f = "\<lambda>ib. replace_routes (resolved_inbound_routes (config_without_users cfg) ib)"
  from assms(3) obtain svc1 where u: "refresh_inbounds (\<lambda>ib. refresh_inbound env (?f ib) ib) (cc_inbounds cfg) svc = Inr svc1"
    and svc': "svc' = svc1\<lparr>cs_config := config_without_users cfg\<rparr>"
    by (auto simp: update_routes_and_users_def Let_def result_simps)
  have same: "list_all2 inbound_eq_without_users_routes (cc_inbounds (cs_config svc)) (cc_inbounds cfg)"
    using assms(2) by (simp add: can_update_routes_def config_eq_without_users_routes_and_outbounds_def inbounds_eq_without_users_routes_def)
  show ?thesis unfolding svc'
    by (rule refresh_follows [OF assms(1) same _ u, where f = ?f])
      (use eq_without_users_same(2) in \<open>auto intro!: refresh_inbound_refreshes intro: server_reach.routes simp: replace_routes_frame\<close>)
qed

lemma reroute_refreshes:
  "refreshes env (replace_routes (resolved_inbound_routes active ib)) ib svc (reroute_inbound active ib svc)"
  by (auto simp: refreshes_def reroute_inbound_def find_put_server refreshed_def intro: server_reach.routes split: option.split)

lemma reroute_fold: "fold (reroute_inbound active) ibs svc = svc' \<longleftrightarrow> refresh_inbounds (\<lambda>ib svc. Inr (reroute_inbound active ib svc)) ibs svc = Inr svc'"
  by (induction ibs arbitrary: svc) (auto simp: and_then_def)

lemma update_routes_follows:
  assumes "follows env svc" "can_update_routes svc cfg"
  shows "follows env (update_routes cfg svc)"
proof -
  let ?a = "config_without_users cfg"
  have same: "list_all2 inbound_eq_without_users_routes (cc_inbounds (cs_config svc)) (cc_inbounds cfg)"
    using assms(2) by (simp add: can_update_routes_def config_eq_without_users_routes_and_outbounds_def inbounds_eq_without_users_routes_def)
  have "refresh_inbounds (\<lambda>ib svc. Inr (reroute_inbound ?a ib svc)) (cc_inbounds cfg) svc = Inr (fold (reroute_inbound ?a) (cc_inbounds cfg) svc)"
    using reroute_fold by blast
  from refresh_follows [OF assms(1) same eq_without_users_same(2) this, where f = "\<lambda>ib. replace_routes (resolved_inbound_routes ?a ib)"]
  have "follows env ((fold (reroute_inbound ?a) (cc_inbounds cfg) svc)\<lparr>cs_config := ?a\<rparr>)" using reroute_refreshes [of env ?a] by simp
  moreover have "reroute_inbound ?a \<circ> inbound_without_users = reroute_inbound ?a"
    by (simp add: fun_eq_iff reroute_inbound_def split: option.split)
  then have "fold (reroute_inbound ?a) (cc_inbounds ?a) svc = fold (reroute_inbound ?a) (cc_inbounds cfg) svc"
    by (simp add: fold_map)
  ultimately show ?thesis by (simp add: update_routes_def Let_def)
qed

lemma delta_follows:
  assumes "follows env svc" "service_apply_user_delta env tag delta svc = Inr (r, svc')"
  shows "follows env svc'"
proof -
  from assms(2) obtain h :: listener_handle and srv bw se where h: "find_listener tag svc = Some h"
    and app: "apply_user_delta (vx_server env) delta (lh_server h) (cs_bandwidth svc, cs_sessions svc) = Inr (r, srv, bw, se)"
    and svc': "cs_config svc' = cs_config svc" "cs_listeners svc' = cs_listeners (put_server tag srv svc)"
    by (rule service_delta_ok) blast
  have srv: "se_protocol srv = se_protocol (lh_server h)" "se_routes srv = se_routes (lh_server h)"
    "server_reach (vx_server env) (lh_server h) \<Longrightarrow> server_reach (vx_server env) srv"
    using apply_user_delta_frame [OF app] server_reach.delta [OF _ app] by auto
  have dist: "distinct (map ib_tag (cc_inbounds (cs_config svc)))" using assms(1) by (simp add: follows_def)
  have "list_all2 (serves env (cs_config svc)) (cs_listeners svc') (cc_inbounds (cs_config svc))"
    unfolding follows_by_tag [OF dist]
  proof (intro conjI ballI allI impI)
    show "map lh_tag (cs_listeners svc') = map ib_tag (cc_inbounds (cs_config svc))" using svc' follows_tags [OF assms(1)] by simp
    fix ib g assume ib: "ib \<in> set (cc_inbounds (cs_config svc))" "find (\<lambda>h. lh_tag h = ib_tag ib) (cs_listeners svc') = Some g"
    then have "find_listener (ib_tag ib) (put_server tag srv svc) = Some g" using svc' by (simp add: find_listener_def)
    with h srv follows_handle [OF assms(1) ib(1)] show "serves env (cs_config svc) g ib"
      by (auto simp: find_put_server serves_def split: if_splits)
  qed
  then show ?thesis using dist svc' by (simp add: follows_def)
qed

section \<open>Hot updates that happen\<close>

definition handles_ok :: "(listener_handle \<Rightarrow> bool) \<Rightarrow> (string, listener_handle) hmap \<Rightarrow> bool" where
  "handles_ok P m \<longleftrightarrow> (\<forall>tag h. hm_get m tag = Some h \<longrightarrow> lh_tag h = tag \<and> P h)"

text \<open>Every inbound has a new handle that serves it, or an old one of its protocol.\<close>

definition provided :: "service_env \<Rightarrow> core_config \<Rightarrow> hot_update \<Rightarrow> inbound_config \<Rightarrow> bool" where
  "provided env active hu ib \<longleftrightarrow>
     (case hm_get (hu_new hu) (ib_tag ib) of
        Some h \<Rightarrow> serves env active h ib
      | None \<Rightarrow>
          (case hm_get (hu_old hu) (ib_tag ib) of
             None \<Rightarrow> False
           | Some h \<Rightarrow> lh_tag h = ib_tag ib \<and> lh_protocol h = ib_protocol ib \<and> se_protocol (lh_server h) = ib_protocol ib \<and>
               server_reach (vx_server env) (lh_server h)))"

lemma provided_cong:
  "hm_get (hu_new hu') (ib_tag j) = hm_get (hu_new hu) (ib_tag j) \<Longrightarrow> hm_get (hu_old hu') (ib_tag j) = hm_get (hu_old hu) (ib_tag j) \<Longrightarrow>
   provided env active hu' j = provided env active hu j"
  by (simp add: provided_def cong: option.case_cong)

lemma install_new_sel [simp]:
  "hu_new (install_new env ib h hu) = hm_remove (ib_tag ib) (hu_new hu)"
  "hu_old (install_new env ib h hu) = hm_remove (ib_tag ib) (hu_old hu)"
  "hu_listeners (install_new env ib h hu) = hu_listeners hu @ [h]"
  "cs_quic_connections (hu_service (install_new env ib h hu)) = cs_quic_connections (hu_service hu)"
  by (simp_all add: install_new_def)

lemma swap_listeners_serve:
  assumes "swap_listeners env active ibs hu = Inr hu'" "distinct (map ib_tag ibs)" "\<forall>ib \<in> set ibs. provided env active hu ib"
  shows "\<exists>hs. hu_listeners hu' = hu_listeners hu @ hs \<and> list_all2 (serves env active) hs ibs \<and>
    cs_quic_connections (hu_service hu') = cs_quic_connections (hu_service hu)"
  using assms
proof (induction ibs arbitrary: hu)
  case (Cons ib ibs)
  have ib: "provided env active hu ib" and dist: "distinct (map ib_tag ibs)"
    and other: "\<And>j. j \<in> set ibs \<Longrightarrow> ib_tag j \<noteq> ib_tag ib \<and> provided env active hu j"
    using Cons.prems(2,3) by (auto simp: image_iff)
  show ?case
  proof (cases "hm_get (hu_new hu) (ib_tag ib)")
    case (Some h)
    with Cons.prems(1) have s: "swap_listeners env active ibs (install_new env ib h hu) = Inr hu'" by simp
    have "\<forall>j \<in> set ibs. provided env active (install_new env ib h hu) j"
    proof
      fix j assume "j \<in> set ibs"
      with other [of j] provided_cong [of "install_new env ib h hu" j hu] show "provided env active (install_new env ib h hu) j" by simp
    qed
    from Cons.IH [OF s dist this] Some ib show ?thesis by (auto simp: provided_def)
  next
    case None
    with ib obtain h where h: "hm_get (hu_old hu) (ib_tag ib) = Some h" "lh_tag h = ib_tag ib" "lh_protocol h = ib_protocol ib"
      "se_protocol (lh_server h) = ib_protocol ib" "server_reach (vx_server env) (lh_server h)"
      by (auto simp: provided_def split: option.splits)
    with None Cons.prems(1) obtain srv svc where r: "refresh_users env ib (lh_server h) (hu_service hu) = Inr (srv, svc)"
      and s: "swap_listeners env active ibs (hu\<lparr>hu_service := svc, hu_old := hm_remove (ib_tag ib) (hu_old hu),
        hu_listeners := hu_listeners hu @ [h\<lparr>lh_server := replace_routes (resolved_inbound_routes active ib) srv\<rparr>]\<rparr>) = Inr hu'"
      (is "swap_listeners env active ibs ?hu = _")
      by (auto simp: keep_old_def result_simps)
    have "\<forall>j \<in> set ibs. provided env active ?hu j"
    proof
      fix j assume "j \<in> set ibs"
      with other [of j] provided_cong [of ?hu j hu] show "provided env active ?hu j" by simp
    qed
    moreover have "serves env active (h\<lparr>lh_server := replace_routes (resolved_inbound_routes active ib) srv\<rparr>) ib"
      using h refresh_users_server [OF r] by (auto simp: serves_def intro: server_reach.routes)
    ultimately show ?thesis using Cons.IH [OF s dist] refresh_users_server [OF r] by auto
  qed
qed simp

lemma start_handle_serves:
  "start_listener_handle env ib active t quic w = (Inr h, w') \<Longrightarrow> serves env active h ib"
  using start_handle_ok [of env ib active t quic w h w']
  by (auto simp: serves_def dest: new_server_frame intro: server_reach.build)

lemma open_changed_provides:
  assumes "open_changed env active t quic old ibs new w = (Inr (Some new'), w')" "distinct (map ib_tag ibs)"
    and "\<forall>ib \<in> set ibs. hm_get new (ib_tag ib) = None"
  shows "(\<forall>tag. tag \<notin> ib_tag ` set ibs \<longrightarrow> hm_get new' tag = hm_get new tag) \<and>
    (\<forall>ib \<in> set ibs. case hm_get new' (ib_tag ib) of None \<Rightarrow> \<not> needs_new_listener old ib | Some h \<Rightarrow> serves env active h ib)"
  using assms
proof (induction ibs arbitrary: new w)
  case (Cons ib ibs)
  have fresh: "ib_tag ib \<notin> ib_tag ` set ibs" "distinct (map ib_tag ibs)" using Cons.prems(2) by auto
  show ?case
  proof (cases "needs_new_listener old ib")
    case False
    with Cons.prems(1) have "open_changed env active t quic old ibs new w = (Inr (Some new'), w')" by simp
    from Cons.IH [OF this fresh(2)] Cons.prems(3) False fresh(1) show ?thesis by auto
  next
    case True
    with Cons.prems(1) obtain h w1 where h: "start_listener_handle env ib active t quic w = (Inr h, w1)"
      and rest: "open_changed env active t quic old ibs (hm_insert (ib_tag ib) h new) w1 = (Inr (Some new'), w')"
      by (auto split: if_splits prod.splits sum.splits)
    have "\<forall>j \<in> set ibs. hm_get (hm_insert (ib_tag ib) h new) (ib_tag j) = None"
      using Cons.prems(3) fresh(1) by (auto simp: image_iff)
    from Cons.IH [OF rest fresh(2) this] fresh(1) start_handle_serves [OF h] show ?thesis by auto
  qed
qed simp

lemma hm_get_collect_tag:
  assumes "distinct (map f xs)" "x \<in> set xs"
  shows "hm_get (hm_collect (map (\<lambda>x. (f x, x)) xs)) (f x) = Some x"
proof -
  have "map fst (rev (map (\<lambda>x. (f x, x)) xs)) = rev (map f xs)" by (simp add: rev_map comp_def)
  then have "distinct (map fst (rev (map (\<lambda>x. (f x, x)) xs)))" using assms(1) distinct_rev by metis
  then show ?thesis using assms(2) by (auto simp: hm_get_collect intro!: map_of_is_SomeI)
qed

lemma hm_get_collect_mem: "hm_get (hm_collect (map (\<lambda>x. (f x, x)) xs)) k = Some x \<Longrightarrow> x \<in> set xs \<and> f x = k"
  by (auto simp: hm_get_collect dest!: map_of_SomeD)

lemma drop_old_frame:
  "cs_quic_connections (fst (fold (drop_old desired) old (svc, w))) = cs_quic_connections svc"
  by (induction old arbitrary: svc w) (auto simp: drop_old_def)

lemma not_needed:
  assumes "\<not> needs_new_listener (by_tag ibs) ib"
  shows "\<exists>l \<in> set ibs. inbound_eq_without_users_routes l (inbound_without_users ib)"
  using assms by (auto simp: needs_new_listener_def by_tag_def split: option.splits dest: hm_get_collect_mem)

lemma hot_update_follows:
  assumes "follows env svc" "update_changed_listeners_and_users env cfg svc w = (Inr True, svc', w')"
  shows "follows env svc'"
proof -
  let ?a = "config_without_users cfg" and ?ibs = "cc_inbounds cfg" and ?old = "cc_inbounds (cs_config svc)"
  let ?handles = "hm_collect (map (\<lambda>h. (lh_tag h, h)) (cs_listeners svc))"
  from assms(2) obtain t new w1 hu where ok: "check_config env cfg = Inr ()"
    and opn: "open_changed env ?a t (cs_quic_connections svc) (by_tag ?old) ?ibs [] w = (Inr (Some new), w1)"
    and swap: "swap_listeners env ?a ?ibs \<lparr>hu_service = svc, hu_new = new, hu_old = ?handles, hu_listeners = [], hu_world = w1\<rparr> = Inr hu"
      (is "swap_listeners _ _ _ ?hu = _")
    and fin: "(svc', w') = finish_update ?a hu"
    by (auto simp: update_changed_listeners_and_users_def Let_def split: sum.splits if_splits option.splits prod.splits)
  have dist: "distinct (map ib_tag ?ibs)" using validate_okD(3) [OF check_config_ok [OF ok]] .
  have tags: "distinct (map lh_tag (cs_listeners svc))" using follows_tags [OF assms(1)] assms(1) by (simp add: follows_def)
  have "provided env ?a ?hu ib" if ib: "ib \<in> set ?ibs" for ib
  proof (cases "hm_get new (ib_tag ib)")
    case (Some h)
    with open_changed_provides [OF opn dist] ib show ?thesis by (auto simp: provided_def)
  next
    case None
    with open_changed_provides [OF opn dist] ib obtain l where l: "l \<in> set ?old" "inbound_eq_without_users_routes l (inbound_without_users ib)"
      using not_needed [of ?old ib] by fastforce
    then have lt: "ib_tag l = ib_tag ib" "ib_protocol l = ib_protocol ib" using eq_without_users_same(2) [OF l(2)] by (auto simp: same_listener_def)
    have "ib_tag l \<in> lh_tag ` set (cs_listeners svc)" using follows_tags [OF assms(1)] l(1) by (metis image_eqI list.set_map)
    then obtain h where h: "find_listener (ib_tag l) svc = Some h" using find_listener_exists by blast
    then have "h \<in> set (cs_listeners svc)" "lh_tag h = ib_tag ib" using lt by (auto simp: find_listener_def find_Some_iff)
    with hm_get_collect_tag [OF tags] have "hm_get ?handles (ib_tag ib) = Some h" by metis
    then show ?thesis using None follows_handle [OF assms(1) l(1) h] lt by (simp add: provided_def serves_def)
  qed
  with swap_listeners_serve [OF swap dist] have "list_all2 (serves env ?a) (hu_listeners hu) ?ibs" by auto
  moreover have "cs_listeners svc' = hu_listeners hu" "cs_config svc' = ?a"
    using fin by (auto simp: finish_update_def Let_def split: prod.splits)
  ultimately show ?thesis using dist by (simp add: follows_def list_all2_map2 comp_def)
qed

section \<open>Reachable services\<close>

text \<open>
  The operations as the controller calls them, and whatever clients do to traffic, sessions, limiters and failure
  counts in between.
\<close>

inductive service_reach :: "service_env \<Rightarrow> core_service \<Rightarrow> bool" for env where
  start: "core_service_start env cfg w = (Inr svc, w') \<Longrightarrow> service_reach env svc"
| users: "service_reach env svc \<Longrightarrow> can_update_users svc cfg \<Longrightarrow> update_users env cfg svc = Inr svc' \<Longrightarrow> service_reach env svc'"
| routes_and_users: "service_reach env svc \<Longrightarrow> can_update_routes svc cfg \<Longrightarrow> update_routes_and_users env cfg svc = Inr svc' \<Longrightarrow> service_reach env svc'"
| routes: "service_reach env svc \<Longrightarrow> can_update_routes svc cfg \<Longrightarrow> service_reach env (update_routes cfg svc)"
| changed: "service_reach env svc \<Longrightarrow> update_changed_listeners_and_users env cfg svc w = (Inr True, svc', w') \<Longrightarrow> service_reach env svc'"
| delta: "service_reach env svc \<Longrightarrow> service_apply_user_delta env tag delta svc = Inr (r, svc') \<Longrightarrow> service_reach env svc'"
| stop: "service_reach env svc \<Longrightarrow> core_service_stop svc w = (svc', w') \<Longrightarrow> service_reach env svc'"
| activity: "service_reach env svc \<Longrightarrow>
    service_reach env (svc\<lparr>cs_traffic := traffic, cs_sessions := sessions, cs_bandwidth := bandwidth, cs_tls_failures := failures\<rparr>)"

lemma follows_cong: "cs_config svc' = cs_config svc \<Longrightarrow> cs_listeners svc' = cs_listeners svc \<Longrightarrow> follows env svc \<Longrightarrow> follows env svc'"
  by (simp add: follows_def)

lemma reach_follows: "service_reach env svc \<Longrightarrow> follows env svc"
proof (induction rule: service_reach.induct)
  case (stop svc w svc' w')
  then show ?case by (auto simp: core_service_stop_def follows_def split: if_splits)
next
  case (activity svc traffic sessions bandwidth failures)
  then show ?case by (simp add: follows_def)
qed (blast intro: start_follows update_users_follows update_routes_and_users_follows update_routes_follows hot_update_follows delta_follows)+

text \<open>
  C10. However a running service has been updated, its listeners are those of the configuration in force, in its
  order: one for each inbound, with its tag and protocol, routing by the routes that configuration resolves for it.
\<close>

theorem listeners_follow_config:
  assumes "service_reach env svc"
  shows "list_all2 (\<lambda>h ib. lh_tag h = ib_tag ib \<and> lh_protocol h = ib_protocol ib \<and>
      se_routes (lh_server h) = resolved_inbound_routes (cs_config svc) ib) (cs_listeners svc) (cc_inbounds (cs_config svc))"
proof -
  have "list_all2 (serves env (cs_config svc)) (cs_listeners svc) (cc_inbounds (cs_config svc))"
    using reach_follows [OF assms] by (simp add: follows_def)
  then show ?thesis by (rule list_all2_mono) (simp add: serves_def)
qed

section \<open>The QUIC limiter\<close>

lemma binds_quic_without_users [simp]: "inbound_binds_quic (inbound_without_users ib) = inbound_binds_quic ib"
  by (simp add: inbound_binds_quic_def naive_uses_quic_def inbound_without_users_def)

lemma card_keys: "hm_wf m \<Longrightarrow> card (fst ` set m) = length m"
  by (metis hm_wf_def distinct_card length_map list.set_map)

lemma subset_keys_eq:
  assumes "hm_wf l" "hm_wf r" "length l = length r" "fst ` set l \<subseteq> fst ` set r"
  shows "fst ` set l = fst ` set r"
  using card_keys [OF assms(1)] card_keys [OF assms(2)] assms(3) by (intro card_subset_eq assms(4)) simp_all

lemma quic_unchanged_not_needed:
  assumes "distinct (map ib_tag old)" "quic_listener_structures_unchanged old new" "ib \<in> set new" "inbound_binds_quic ib"
    and "distinct (map ib_tag new)"
  shows "\<exists>l \<in> set old. ib_tag l = ib_tag ib \<and> inbound_eq_without_users_routes l ib"
proof -
  define l where "l = hm_collect (map (\<lambda>ib. (ib_tag ib, ib)) (filter inbound_binds_quic old))"
  define r where "r = hm_collect (map (\<lambda>ib. (ib_tag ib, ib)) (filter inbound_binds_quic new))"
  have wf: "hm_wf l" "hm_wf r" by (simp_all add: l_def r_def)
  have u: "length l = length r" "\<And>tag x. (tag, x) \<in> set l \<Longrightarrow> \<exists>y. hm_get r tag = Some y \<and> inbound_eq_without_users_routes x y"
    using assms(2) by (auto simp: quic_listener_structures_unchanged_def Let_def l_def r_def list_all_iff split: option.splits)
  have "fst ` set l \<subseteq> fst ` set r" using u(2) by (force dest: map_of_SomeD)
  then have keys: "fst ` set l = fst ` set r" using subset_keys_eq wf u(1) by blast
  have "distinct (map ib_tag (filter inbound_binds_quic new))" using assms(5) by (simp add: distinct_map_filter)
  then have "hm_get r (ib_tag ib) = Some ib" using hm_get_collect_tag [where f = ib_tag and x = ib] assms(3,4) by (simp add: r_def)
  then have "ib_tag ib \<in> fst ` set l" using keys by (force dest: map_of_SomeD)
  then obtain x where x: "(ib_tag ib, x) \<in> set l" by force
  then have "hm_get l (ib_tag ib) = Some x" using wf(1) by (simp add: hm_wf_def)
  then have "x \<in> set old" "ib_tag x = ib_tag ib" by (auto simp: l_def dest: hm_get_collect_mem)
  moreover have "inbound_eq_without_users_routes x ib" using u(2) [OF x] \<open>hm_get r (ib_tag ib) = Some ib\<close> by simp
  ultimately show ?thesis by blast
qed

text \<open>
  A hot update never opens a QUIC listener: when it gets to opening listeners, every inbound that uses QUIC is
  one the service already has. So the limiter that \<^verbatim>\<open>start_listener_handle\<close> expects for QUIC inbounds is never
  missing there, and the \<^verbatim>\<open>expect\<close> does not panic.
\<close>

theorem hot_update_opens_no_quic:
  assumes "service_reach env svc" "check_config env cfg = Inr ()"
    and "quic_listener_structures_unchanged (cc_inbounds (cs_config svc)) (cc_inbounds (config_without_users cfg))"
    and "ib \<in> set (cc_inbounds cfg)" "inbound_binds_quic ib"
  shows "\<not> needs_new_listener (by_tag (cc_inbounds (cs_config svc))) ib"
proof -
  let ?old = "cc_inbounds (cs_config svc)"
  have old: "distinct (map ib_tag ?old)" using reach_follows [OF assms(1)] by (simp add: follows_def)
  have "distinct (map ib_tag (cc_inbounds (config_without_users cfg)))"
    using validate_okD(3) [OF check_config_ok [OF assms(2)]] by (simp add: comp_def)
  from quic_unchanged_not_needed [OF old assms(3) _ _ this, of "inbound_without_users ib"] assms(4,5)
  obtain l where l: "l \<in> set ?old" "ib_tag l = ib_tag ib" "inbound_eq_without_users_routes l (inbound_without_users ib)" by auto
  have "hm_get (by_tag ?old) (ib_tag ib) = Some l" using hm_get_collect_tag [OF old l(1)] l(2) by (simp add: by_tag_def)
  then show ?thesis using l(3) by (simp add: needs_new_listener_def)
qed

section \<open>A service with two inbounds\<close>

definition example_senv :: service_env where
  "example_senv = \<lparr>vx_server = example_env, vx_externals = example_ext,
     vx_lookup = (\<lambda>host port. Inl ''no such host''),
     vx_open = (\<lambda>attempt ib addr. if ib_port ib = 1 then Inl ''permission denied'' else Inr addr),
     vx_user_hash = (\<lambda>u. word_of_nat (length (cu_uuid u))), vx_connect_env = None\<rparr>"

definition two_inbounds :: "u16 \<Rightarrow> core_config" where
  "two_inbounds port = (example_config (example_inbound Socks None))\<lparr>cc_inbounds :=
     [example_inbound Socks None\<lparr>ib_users := [example_user ''a'' ''p'']\<rparr>,
      example_inbound Socks None\<lparr>ib_tag := ''in2'', ib_port := port, ib_users := [example_user ''a'' ''p'']\<rparr>]\<rparr>"

definition idle_world :: world where
  "idle_world = \<lparr>wd_attempts = 0, wd_running = []\<rparr>"

definition example_handle :: "nat \<Rightarrow> string \<Rightarrow> u16 \<Rightarrow> listener_handle" where
  "example_handle k tag port = \<lparr>lh_id = k, lh_tag = tag, lh_protocol = Socks, lh_local_addr = (V4 0x7f000001, port),
     lh_connect_timeout = secs 15,
     lh_server = server_of Socks (Uuid_Store [(''a'', example_user ''a'' ''p'')]) True
       [example_route\<lparr>rr_outbound := Some example_outbound\<rparr>]\<rparr>"

definition example_service :: core_service where
  "example_service = \<lparr>cs_config = config_without_users (two_inbounds 1081),
     cs_listeners = [example_handle 0 ''in'' 1080, example_handle 1 ''in2'' 1081],
     cs_traffic = traffic_default, cs_sessions = default_tracker, cs_bandwidth = default_limiters,
     cs_quic_connections = None, cs_tls_failures = tls_handshake, cs_user_revisions = [],
     cs_user_fingerprints = [(''in'', [(''a'', 1)]), (''in2'', [(''a'', 1)])], cs_stopped = False\<rparr>"

lemma two_inbounds_ok: "check_config example_senv (two_inbounds 1081) = Inr ()" "check_config example_senv (two_inbounds 1) = Inr ()"
  by code_simp+

lemma two_inbounds_parts:
  "start_listeners example_senv (config_without_users (two_inbounds 1081)) (outbound_connect_timeout example_senv (cc_policy (two_inbounds 1081))) (quic_limiter (cc_inbounds (two_inbounds 1081)))
     (cc_inbounds (two_inbounds 1081)) idle_world =
     (Inr [example_handle 0 ''in'' 1080, example_handle 1 ''in2'' 1081], \<lparr>wd_attempts = 2, wd_running = [0, 1]\<rparr>)"
  "user_fingerprints_for_inbounds example_senv (cc_inbounds (two_inbounds 1081)) = [(''in'', [(''a'', 1)]), (''in2'', [(''a'', 1)])]"
  "quic_limiter (cc_inbounds (two_inbounds 1081)) = None"
  by code_simp+

lemma example_started:
  "core_service_start example_senv (two_inbounds 1081) idle_world = (Inr example_service, \<lparr>wd_attempts = 2, wd_running = [0, 1]\<rparr>)"
  using two_inbounds_parts two_inbounds_ok by (simp add: core_service_start_def example_service_def Let_def)

theorem stop_undoes_start_witness:
  "wd_running (snd (core_service_stop example_service \<lparr>wd_attempts = 2, wd_running = [0, 1]\<rparr>)) = []"
  using stop_undoes_start [OF example_started] by (simp add: world_wf_def idle_world_def)

theorem failed_start_leaks_listeners_witness:
  "core_service_start example_senv (two_inbounds 1) idle_world =
     (Inl (Bind ''in2'' ''permission denied''), \<lparr>wd_attempts = 2, wd_running = [0]\<rparr>)"
proof -
  let ?cfg = "two_inbounds 1"
  have "cc_inbounds ?cfg = [hd (cc_inbounds ?cfg)] @ last (cc_inbounds ?cfg) # []" by (simp add: two_inbounds_def)
  moreover have "start_listeners example_senv (config_without_users ?cfg) (outbound_connect_timeout example_senv (cc_policy ?cfg))
      (quic_limiter (cc_inbounds ?cfg)) [hd (cc_inbounds ?cfg)] idle_world =
      (Inr [example_handle 0 ''in'' 1080], \<lparr>wd_attempts = 1, wd_running = [0]\<rparr>)" by code_simp
  moreover have "start_listener_handle example_senv (last (cc_inbounds ?cfg)) (config_without_users ?cfg)
      (outbound_connect_timeout example_senv (cc_policy ?cfg)) (quic_limiter (cc_inbounds ?cfg)) \<lparr>wd_attempts = 1, wd_running = [0]\<rparr> =
      (Inl (Bind ''in2'' ''permission denied''), \<lparr>wd_attempts = 2, wd_running = [0]\<rparr>)" by code_simp
  ultimately show ?thesis using failed_start_leaks_listeners [OF two_inbounds_ok(2)] by blast
qed

definition example_running :: world where
  "example_running = \<lparr>wd_attempts = 2, wd_running = [0, 1]\<rparr>"

lemma example_update_refused:
  "fst (update_changed_listeners_and_users example_senv (two_inbounds 1) example_service example_running) =
     Inl (Bind ''in2'' ''permission denied'')"
  by code_simp

theorem failed_hot_update_changes_nothing_witness:
  "\<exists>w. update_changed_listeners_and_users example_senv (two_inbounds 1) example_service example_running =
     (Inl (Bind ''in2'' ''permission denied''), example_service, w) \<and> wd_running w = [0, 1]"
proof -
  obtain r svc w where u: "update_changed_listeners_and_users example_senv (two_inbounds 1) example_service example_running = (r, svc, w)"
    by (metis prod_cases3)
  then have "r = Inl (Bind ''in2'' ''permission denied'')" using example_update_refused by simp
  then show ?thesis
    using failed_hot_update_changes_nothing [OF u] u by (simp add: example_running_def world_wf_def)
qed

definition revision_delta :: "string option \<Rightarrow> string option \<Rightarrow> core_user list \<Rightarrow> core_user_delta" where
  "revision_delta base revision users = \<lparr>d_added = users, d_updated = [], d_deleted = [], d_full = None, d_base_revision = base, d_revision = revision\<rparr>"

lemma revision_applied: "\<not> isl (service_apply_user_delta example_senv ''in'' (revision_delta None (Some ''r2'') [example_user ''b'' ''q'']) example_service)"
  by code_simp

lemma applied_delta:
  assumes "\<not> isl (service_apply_user_delta env tag delta svc)"
  obtains r svc' where "service_apply_user_delta env tag delta svc = Inr (r, svc')"
  using assms by (metis isl_def sumE surj_pair)

definition busy_service :: core_service where
  "busy_service = example_service\<lparr>cs_bandwidth := snd (limiter_for (\<lambda>_. 0) 0 (Some (example_user ''a'' ''p'')) default_limiters)\<rparr>"

definition delete_a :: core_user_delta where
  "delete_a = (revision_delta None None [])\<lparr>d_deleted := [''a'']\<rparr>"

theorem delta_cuts_user_of_other_inbound_witness:
  "limiter_of (\<lambda>_. 0) (cs_bandwidth busy_service) ''a'' \<noteq> None \<and>
   (\<exists>r svc. service_apply_user_delta example_senv ''in'' delete_a busy_service = Inr (r, svc) \<and>
      find_listener ''in2'' svc = Some (example_handle 1 ''in2'' 1081) \<and> cut_off (\<lambda>_. 0) (cs_bandwidth svc) ''a'')"
proof -
  have "\<not> isl (service_apply_user_delta example_senv ''in'' delete_a busy_service)" by code_simp
  then obtain r svc where a: "service_apply_user_delta example_senv ''in'' delete_a busy_service = Inr (r, svc)"
    by (rule applied_delta)
  have cut: "cut_by delete_a ''a''" and env: "sx_hash (vx_server example_senv) = (\<lambda>_. 0)"
    by (simp_all add: delete_a_def revision_delta_def cut_by_def example_senv_def example_env_def)
  have "limiters_wf (\<lambda>_. 0) default_limiters" by (simp add: default_limiters_def shards_inv_empty)
  then have wf: "limiters_wf (\<lambda>_. 0) (cs_bandwidth busy_service)"
    by (simp add: busy_service_def limiter_for_def Let_def put_limiter_wf)
  have "sessions_wf (\<lambda>_. 0) (cs_sessions busy_service)"
    using default_tracker_wf by (simp add: busy_service_def example_service_def)
  moreover have "find_listener ''in2'' busy_service = Some (example_handle 1 ''in2'' 1081)"
    "limiter_of (\<lambda>_. 0) (cs_bandwidth busy_service) ''a'' \<noteq> None" by code_simp+
  ultimately show ?thesis
    using delta_cuts_user_of_other_inbound [OF a cut, unfolded env, OF wf, of "''in2''" "example_handle 1 ''in2'' 1081"] a by simp
qed

definition update_b :: core_user_delta where
  "update_b = \<lparr>d_added = [], d_updated = [example_user ''b'' ''q''], d_deleted = [], d_full = None, d_base_revision = None, d_revision = None\<rparr>"

theorem missing_update_hides_user_witness:
  "\<exists>r svc svc' h. service_apply_user_delta example_senv ''in'' update_b example_service = Inr (r, svc) \<and>
     refresh_inbound example_senv (\<lambda>srv. srv)
       (example_inbound Socks None\<lparr>ib_users := [example_user ''a'' ''p'', example_user ''b'' ''q'']\<rparr>) svc = Inr svc' \<and>
     find_listener ''in'' svc' = Some h \<and> se_table (lh_server h) = Uuid_Store [(''a'', example_user ''a'' ''p'')]"
proof -
  let ?ib = "example_inbound Socks None\<lparr>ib_users := [example_user ''a'' ''p'', example_user ''b'' ''q'']\<rparr>"
  have "\<not> isl (service_apply_user_delta example_senv ''in'' update_b example_service)" by code_simp
  then obtain r svc where a: "service_apply_user_delta example_senv ''in'' update_b example_service = Inr (r, svc)"
    by (rule applied_delta)
  have "\<not> isl (refresh_inbound example_senv (\<lambda>srv. srv) ?ib (snd (projr (service_apply_user_delta example_senv ''in'' update_b example_service))))"
    by code_simp
  then obtain svc' where b: "refresh_inbound example_senv (\<lambda>srv. srv) ?ib svc = Inr svc'"
    unfolding a by (auto simp: isl_def) (metis sumE)
  have "find_listener ''in'' example_service = Some (example_handle 0 ''in'' 1080)"
    "hm_get (cs_user_fingerprints example_service) ''in'' = Some (from_users example_senv [example_user ''a'' ''p''])"
    "\<not> user_is_empty (example_user ''b'' ''q'')" by code_simp+
  then have "\<exists>h. find_listener ''in'' svc' = Some h \<and> se_table (lh_server h) = Uuid_Store [(''a'', example_user ''a'' ''p'')]"
    using missing_update_hides_user [of "''in''" example_service "example_handle 0 ''in'' 1080" "[(''a'', example_user ''a'' ''p'')]"
        "example_user ''b'' ''q''" example_senv "[example_user ''a'' ''p'']" update_b ?ib r svc svc'] a b
    by (simp add: example_handle_def server_of_def update_b_def example_inbound_def example_user_def)
  then show ?thesis using a b by blast
qed

theorem listeners_follow_config_witness:
  "map lh_tag (cs_listeners example_service) = [''in'', ''in2'']"
  using listeners_follow_config [OF service_reach.start [OF example_started]]
  by (simp add: example_service_def list_all2_Cons2 config_without_users_def two_inbounds_def inbound_without_users_def example_inbound_def)

definition quic_config :: core_config where
  "quic_config = example_config (example_inbound Hysteria2 (Some \<lparr>tl_server_name = ''a.b'', tl_cert_file = Some ''c.pem'',
     tl_key_file = Some ''k.pem'', tl_alpn = [], tl_reject_unknown_sni = False, tl_reality = None\<rparr>)\<lparr>ib_transport := default_transport\<lparr>tp_network := ''hysteria2''\<rparr>\<rparr>)"

lemma quic_config_ok: "check_config example_senv quic_config = Inr ()"
  by code_simp

lemma quic_started: "\<not> isl (fst (core_service_start example_senv quic_config idle_world))"
  by code_simp

lemma started_config: "core_service_start env cfg w = (Inr svc, w') \<Longrightarrow> cs_config svc = config_without_users cfg"
  by (auto simp: core_service_start_def Let_def split: sum.splits prod.splits)

theorem hot_update_opens_no_quic_witness:
  "\<not> needs_new_listener (by_tag (cc_inbounds (config_without_users quic_config))) (hd (cc_inbounds quic_config)) \<and>
   inbound_binds_quic (hd (cc_inbounds quic_config))"
proof -
  obtain svc w where s: "core_service_start example_senv quic_config idle_world = (Inr svc, w)"
    using quic_started by (metis isl_def prod.collapse sumE)
  have "quic_listener_structures_unchanged (cc_inbounds (config_without_users quic_config)) (cc_inbounds (config_without_users quic_config))"
    "inbound_binds_quic (hd (cc_inbounds quic_config))" by code_simp+
  moreover have "hd (cc_inbounds quic_config) \<in> set (cc_inbounds quic_config)" by (simp add: quic_config_def example_config_def)
  ultimately show ?thesis
    using hot_update_opens_no_quic [OF service_reach.start [OF s] quic_config_ok] started_config [OF s] by simp
qed

end
