(* ===== verification/Loops.thy ===== *)
theory Loops
  imports Service_Facts "HOL-Library.Multiset"
begin

text \<open>
  Which accept loops run: starting, hot updates and stopping change the running loops by exactly those of the
  listeners the service gains and loses.
\<close>

section \<open>Running loops\<close>

definition world_ok :: "world \<Rightarrow> bool" where
  "world_ok w \<longleftrightarrow> world_wf w \<and> distinct (wd_running w)"

definition loops_of :: "listener_handle list \<Rightarrow> nat multiset" where
  "loops_of hs = mset (map lh_id hs)"

definition loops_in :: "(string, listener_handle) hmap \<Rightarrow> nat multiset" where
  "loops_in m = mset (map (\<lambda>(_, h). lh_id h) m)"

text \<open>The running loops are those of the listeners of a service and \<open>others\<close>.\<close>

definition runs :: "nat multiset \<Rightarrow> core_service \<Rightarrow> world \<Rightarrow> bool" where
  "runs others svc w \<longleftrightarrow> world_ok w \<and> mset (wd_running w) = others + loops_of (cs_listeners svc)"

lemma loops_of_simps [simp]:
  "loops_of [] = {#}" "loops_of (hs @ hs') = loops_of hs + loops_of hs'" "loops_of (h # hs) = {#lh_id h#} + loops_of hs"
  by (simp_all add: loops_of_def)

lemma loops_in_Nil [simp]: "loops_in [] = {#}"
  by (simp add: loops_in_def)

lemma loops_in_remove:
  assumes "hm_wf m" "hm_get m k = Some h"
  shows "loops_in m = {#lh_id h#} + loops_in (hm_remove k m)"
proof -
  from assms(2) obtain a b where m: "m = a @ (k, h) # b" by (meson map_of_SomeD split_list)
  with assms(1) have "k \<notin> fst ` set a" "k \<notin> fst ` set b" by (auto simp: hm_wf_def)
  then have "hm_remove k a = a" "hm_remove k b = b" by (force simp: hm_remove_def filter_id_conv)+
  then have "hm_remove k m = a @ b" by (simp add: m hm_remove_def)
  then show ?thesis by (simp add: m loops_in_def)
qed

lemma loops_in_insert: "hm_get m k = None \<Longrightarrow> loops_in (hm_insert k h m) = {#lh_id h#} + loops_in m"
  by (simp add: loops_in_def hm_insert_fresh map_of_eq_None_iff)

lemma loops_in_collect:
  assumes "distinct (map f hs)"
  shows "loops_in (hm_collect (map (\<lambda>h. (f h, h)) hs)) = loops_of hs"
  using assms
proof (induction hs rule: rev_induct)
  case (snoc h hs)
  have "hm_collect (map (\<lambda>h. (f h, h)) (hs @ [h])) = hm_insert (f h) h (hm_collect (map (\<lambda>h. (f h, h)) hs))"
    by (simp add: hm_collect_def)
  moreover have "hm_get (hm_collect (map (\<lambda>h. (f h, h)) hs)) (f h) = None"
  proof (rule ccontr)
    assume "hm_get (hm_collect (map (\<lambda>h. (f h, h)) hs)) (f h) \<noteq> None"
    then obtain x where "hm_get (hm_collect (map (\<lambda>h. (f h, h)) hs)) (f h) = Some x" by blast
    from hm_get_collect_mem [OF this] show False using snoc.prems by (auto simp: image_iff)
  qed
  ultimately show ?case using snoc by (simp add: loops_in_insert)
qed (simp add: hm_collect_def)

lemma stop_loop:
  assumes "world_ok w"
  shows "world_ok (stop_listener_handle h w) \<and> mset (wd_running (stop_listener_handle h w)) = mset (wd_running w) - {#lh_id h#} \<and>
    wd_attempts (stop_listener_handle h w) = wd_attempts w"
proof -
  have "removeAll (lh_id h) (wd_running w) = remove1 (lh_id h) (wd_running w)"
    using assms by (simp add: world_ok_def distinct_remove1_removeAll)
  then have "mset (wd_running (stop_listener_handle h w)) = mset (wd_running w) - {#lh_id h#}"
    by (simp add: stop_listener_handle_def)
  then show ?thesis using assms by (simp add: world_ok_def world_wf_def stop_listener_handle_def distinct_removeAll)
qed

section \<open>Swapping listeners\<close>

definition swap_inv :: "nat multiset \<Rightarrow> hot_update \<Rightarrow> bool" where
  "swap_inv others hu \<longleftrightarrow> world_ok (hu_world hu) \<and> hm_wf (hu_new hu) \<and> hm_wf (hu_old hu) \<and>
     mset (wd_running (hu_world hu)) = others + loops_of (hu_listeners hu) + loops_in (hu_new hu) + loops_in (hu_old hu)"

lemma hm_remove_absent: "hm_get m k = None \<Longrightarrow> hm_remove k m = m"
  by (force simp: hm_remove_def filter_id_conv map_of_eq_None_iff)

lemma install_new_inv:
  assumes "swap_inv others hu" "hm_get (hu_new hu) (ib_tag ib) = Some h"
  shows "swap_inv others (install_new env ib h hu)"
proof -
  have new: "loops_in (hu_new hu) = {#lh_id h#} + loops_in (hm_remove (ib_tag ib) (hu_new hu))"
    using assms loops_in_remove by (simp add: swap_inv_def)
  show ?thesis
  proof (cases "hm_get (hu_old hu) (ib_tag ib)")
    case None
    then show ?thesis using assms(1) new hm_remove_absent [OF None] by (auto simp: swap_inv_def install_new_def)
  next
    case (Some old)
    then have "loops_in (hu_old hu) = {#lh_id old#} + loops_in (hm_remove (ib_tag ib) (hu_old hu))"
      using assms loops_in_remove by (simp add: swap_inv_def)
    then show ?thesis
      using assms(1) new Some stop_loop [of "hu_world hu" old] by (simp add: swap_inv_def install_new_def)
  qed
qed

lemma keep_old_inv:
  assumes "swap_inv others hu" "hm_get (hu_old hu) (ib_tag ib) = Some h" "keep_old env active ib h hu = Inr hu'"
  shows "swap_inv others hu' \<and> hu_new hu' = hu_new hu"
proof -
  have "loops_in (hu_old hu) = {#lh_id h#} + loops_in (hm_remove (ib_tag ib) (hu_old hu))"
    using assms loops_in_remove by (simp add: swap_inv_def)
  then show ?thesis using assms by (auto simp: keep_old_def result_simps swap_inv_def)
qed

lemma swap_listeners_inv:
  assumes "swap_listeners env active ibs hu = Inr hu'" "swap_inv others hu"
  shows "swap_inv others hu' \<and> fst ` set (hu_new hu') = fst ` set (hu_new hu) - ib_tag ` set ibs"
  using assms
proof (induction ibs arbitrary: hu)
  case (Cons ib ibs)
  show ?case
  proof (cases "hm_get (hu_new hu) (ib_tag ib)")
    case (Some h)
    then have "swap_inv others (install_new env ib h hu)" using Cons.prems(2) install_new_inv by blast
    with Cons.IH [of "install_new env ib h hu"] Cons.prems(1) Some show ?thesis by (auto simp: hm_remove_def)
  next
    case None
    then have out: "ib_tag ib \<notin> fst ` set (hu_new hu)" by (simp add: map_of_eq_None_iff)
    show ?thesis
    proof (cases "hm_get (hu_old hu) (ib_tag ib)")
      case None
      with \<open>hm_get (hu_new hu) (ib_tag ib) = None\<close> Cons out show ?thesis by auto
    next
      case (Some h)
      with None Cons.prems(1) obtain hu1 where k: "keep_old env active ib h hu = Inr hu1"
        and s: "swap_listeners env active ibs hu1 = Inr hu'" by (auto simp: result_simps)
      note k1 = keep_old_inv [OF Cons.prems(2) Some k]
      with Cons.IH [OF s] out show ?thesis by auto
    qed
  qed
qed simp

lemma drop_old_world: "snd (fold (drop_old desired) old (svc, w)) = fold (\<lambda>(_, h). stop_listener_handle h) old w"
  by (induction old arbitrary: svc w) (auto simp: drop_old_def)

lemma stop_loops:
  assumes "world_ok w" "mset (wd_running w) = rest + loops_in hs"
  shows "world_ok (fold (\<lambda>(_, h). stop_listener_handle h) hs w) \<and>
    mset (wd_running (fold (\<lambda>(_, h). stop_listener_handle h) hs w)) = rest"
  using assms
proof (induction hs arbitrary: w)
  case (Cons p hs)
  obtain tag h where p: "p = (tag, h)" by force
  have "mset (wd_running (stop_listener_handle h w)) = rest + loops_in hs"
    using stop_loop [OF Cons.prems(1), of h] Cons.prems(2) p by (simp add: loops_in_def)
  with Cons.IH [of "stop_listener_handle h w"] stop_loop [OF Cons.prems(1), of h] p show ?case by simp
qed simp

section \<open>The operations\<close>

lemma start_handle_runs:
  assumes "start_listener_handle env ib active t quic w = (Inr h, w')" "world_ok w"
  shows "world_ok w' \<and> mset (wd_running w') = mset (wd_running w) + {#lh_id h#}"
  using start_handle_ok [OF assms(1)] assms(2) by (auto simp: world_ok_def world_wf_def less_Suc_eq)

lemma start_handle_failed_ok:
  assumes "start_listener_handle env ib active t quic w = (Inl e, w')" "world_ok w"
  shows "world_ok w' \<and> wd_running w' = wd_running w"
  using start_handle_failed [OF assms(1)] assms(2) by (auto simp: world_ok_def world_wf_def)

lemma start_listeners_runs:
  "start_listeners env active t quic ibs w = (Inr hs, w') \<Longrightarrow> world_ok w \<Longrightarrow>
     world_ok w' \<and> mset (wd_running w') = mset (wd_running w) + loops_of hs"
proof (induction ibs arbitrary: w hs)
  case (Cons ib ibs)
  then obtain h w1 hs' where h: "start_listener_handle env ib active t quic w = (Inr h, w1)"
    and hs: "start_listeners env active t quic ibs w1 = (Inr hs', w')" "hs = h # hs'"
    by (auto split: prod.splits sum.splits)
  note r = start_handle_runs [OF h Cons.prems(2)]
  from Cons.IH [OF hs(1)] r hs(2) show ?case by simp
qed simp

lemma start_listeners_world:
  "start_listeners env active t quic ibs w = (Inl e, w') \<Longrightarrow> world_ok w \<Longrightarrow> world_ok w'"
proof (induction ibs arbitrary: w)
  case (Cons ib ibs)
  obtain s w1 where s: "start_listener_handle env ib active t quic w = (s, w1)" by force
  then show ?case
    using Cons start_handle_runs [of env ib active t quic w _ w1] start_handle_failed_ok [of env ib active t quic w _ w1]
    by (cases s) (auto split: prod.splits sum.splits)
qed simp

lemma open_changed_runs:
  assumes "open_changed env active t quic old ibs new w = (Inr (Some new'), w')" "distinct (map ib_tag ibs)"
    and "fst ` set new \<inter> ib_tag ` set ibs = {}" "world_ok w" "hm_wf new"
  shows "world_ok w' \<and> hm_wf new' \<and> mset (wd_running w') + loops_in new = mset (wd_running w) + loops_in new' \<and>
    fst ` set new' \<subseteq> fst ` set new \<union> ib_tag ` set ibs"
  using assms
proof (induction ibs arbitrary: new w)
  case (Cons ib ibs)
  show ?case
  proof (cases "needs_new_listener old ib")
    case False
    then have "open_changed env active t quic old ibs new w = (Inr (Some new'), w')" using Cons.prems(1) by simp
    from Cons.IH [OF this] Cons.prems show ?thesis by auto
  next
    case True
    with Cons.prems(1) obtain h w1 where h: "start_listener_handle env ib active t quic w = (Inr h, w1)"
      and rest: "open_changed env active t quic old ibs (hm_insert (ib_tag ib) h new) w1 = (Inr (Some new'), w')"
      by (auto split: if_splits prod.splits sum.splits)
    have "ib_tag ib \<notin> fst ` set new" using Cons.prems(3) by auto
    then have ins: "loops_in (hm_insert (ib_tag ib) h new) = {#lh_id h#} + loops_in new" by (simp add: loops_in_insert map_of_eq_None_iff)
    have dis: "fst ` set (hm_insert (ib_tag ib) h new) \<inter> ib_tag ` set ibs = {}" "distinct (map ib_tag ibs)"
      using Cons.prems(2,3) by (auto simp: hm_insert_keys)
    from Cons.IH [OF rest dis(2,1)] start_handle_runs [OF h Cons.prems(4)] Cons.prems(5) ins
    show ?thesis by (auto simp: hm_insert_keys)
  qed
qed simp

lemma stop_handles_runs:
  assumes "world_ok w" "mset (wd_running w) = others + loops_of hs"
  shows "world_ok (fold stop_listener_handle hs w) \<and> mset (wd_running (fold stop_listener_handle hs w)) = others"
proof -
  have "fold stop_listener_handle hs w = fold (\<lambda>(_, h). stop_listener_handle h) (map (\<lambda>h. ([] :: string, h)) hs) w"
    by (simp add: fold_map comp_def)
  moreover have "loops_of hs = loops_in (map (\<lambda>h. ([] :: string, h)) hs)" by (simp add: loops_of_def loops_in_def comp_def)
  ultimately show ?thesis using stop_loops [OF assms(1), of others "map (\<lambda>h. ([] :: string, h)) hs"] assms(2) by simp
qed

lemma start_runs:
  assumes "core_service_start env cfg w = (Inr svc, w')" "world_ok w"
  shows "runs (mset (wd_running w)) svc w'"
  using assms start_listeners_runs
  by (fastforce simp: core_service_start_def Let_def runs_def split: sum.splits prod.splits)

lemma start_world_ok:
  assumes "core_service_start env cfg w = (Inl e, w')" "world_ok w"
  shows "world_ok w'"
  using assms start_listeners_world by (fastforce simp: core_service_start_def Let_def split: sum.splits prod.splits)

lemma stop_runs:
  assumes "runs others svc w" "\<not> cs_stopped svc"
  shows "world_ok (snd (core_service_stop svc w)) \<and> mset (wd_running (snd (core_service_stop svc w))) = others"
  using assms stop_handles_runs by (simp add: core_service_stop_def runs_def)

lemma hot_update_runs:
  assumes "runs others svc w" "distinct (map lh_tag (cs_listeners svc))"
    and "update_changed_listeners_and_users env cfg svc w = (Inr True, svc', w')"
  shows "runs others svc' w'"
proof -
  let ?a = "config_without_users cfg" and ?ibs = "cc_inbounds cfg" and ?old = "cc_inbounds (cs_config svc)"
  let ?handles = "hm_collect (map (\<lambda>h. (lh_tag h, h)) (cs_listeners svc))"
  from assms(3) obtain t new w1 hu where ok: "check_config env cfg = Inr ()"
    and opn: "open_changed env ?a t (cs_quic_connections svc) (by_tag ?old) ?ibs [] w = (Inr (Some new), w1)"
    and swap: "swap_listeners env ?a ?ibs \<lparr>hu_service = svc, hu_new = new, hu_old = ?handles, hu_listeners = [], hu_world = w1\<rparr> = Inr hu"
      (is "swap_listeners _ _ _ ?hu = _")
    and fin: "(svc', w') = finish_update ?a hu"
    by (auto simp: update_changed_listeners_and_users_def Let_def split: sum.splits if_splits option.splits prod.splits)
  have dist: "distinct (map ib_tag ?ibs)" using validate_okD(3) [OF check_config_ok [OF ok]] .
  have w: "world_ok w" "mset (wd_running w) = others + loops_of (cs_listeners svc)" using assms(1) by (simp_all add: runs_def)
  have new: "world_ok w1" "hm_wf new" "mset (wd_running w1) = mset (wd_running w) + loops_in new" "fst ` set new \<subseteq> ib_tag ` set ?ibs"
    using open_changed_runs [OF opn dist _ w(1)] by (auto simp: hm_wf_def)
  have "swap_inv others ?hu" using new w(2) loops_in_collect [OF assms(2)] by (simp add: swap_inv_def)
  from swap_listeners_inv [OF swap this] new(4)
  have hu: "swap_inv others hu" "hu_new hu = []" by (simp_all add: Diff_eq_empty_iff [THEN iffD2])
  then have "mset (wd_running (hu_world hu)) = (others + loops_of (hu_listeners hu)) + loops_in (hu_old hu)" "world_ok (hu_world hu)"
    by (simp_all add: swap_inv_def)
  from stop_loops [OF this(2,1)] fin show ?thesis
    using drop_old_world [of "map ib_tag (cc_inbounds ?a)" "hu_old hu" "hu_service hu" "hu_world hu"]
    by (auto simp: finish_update_def runs_def Let_def split: prod.splits)
qed

lemma stop_new_attempts [simp]: "wd_attempts (stop_new_listener_handles new w) = wd_attempts w"
  by (induction new arbitrary: w) (auto simp: stop_new_listener_handles_def stop_listener_handle_def)

lemma open_changed_attempts:
  "open_changed env active t quic old ibs new w = (r, w') \<Longrightarrow> wd_attempts w \<le> wd_attempts w'"
proof (induction ibs arbitrary: new w)
  case (Cons ib ibs)
  obtain s w1 where s: "start_listener_handle env ib active t quic w = (s, w1)" by force
  have "wd_attempts w \<le> wd_attempts w1"
    using s start_handle_ok [of env ib active t quic w _ w1] start_handle_failed [of env ib active t quic w _ w1] by (cases s) auto
  then show ?case using Cons s stop_new_attempts by (fastforce split: if_splits sum.splits)
qed simp

lemma refused_update_world_ok:
  assumes "update_changed_listeners_and_users env cfg svc w = (r, svc', w')" "world_ok w" "r \<noteq> Inr True" "r \<noteq> Inl Crash"
  shows "svc' = svc \<and> world_ok w' \<and> wd_running w' = wd_running w"
proof -
  have "svc' = svc \<and> wd_running w' = wd_running w" using refused_update [OF assms(1)] assms(2-4) by (simp add: world_ok_def)
  moreover have "wd_attempts w \<le> wd_attempts w'"
    using assms(1,3,4) open_changed_attempts
    by (fastforce simp: update_changed_listeners_and_users_def Let_def split: sum.splits if_splits option.splits prod.splits)
  ultimately show ?thesis using assms(2) by (auto simp: world_ok_def world_wf_def)
qed

section \<open>Updates that keep the listeners\<close>

definition ids :: "core_service \<Rightarrow> nat list" where
  "ids svc = map lh_id (cs_listeners svc)"

lemma update_first_ids: "(\<And>x. g (f x) = g x) \<Longrightarrow> map g (update_first P f xs) = map g xs"
  by (induction xs) auto

lemma put_server_ids: "ids (put_server tag srv svc) = ids svc"
  by (simp add: ids_def put_server_def update_first_ids)

lemma refresh_inbound_ids:
  assumes "refresh_inbound env f ib svc = Inr svc'"
  shows "ids svc' = ids svc \<and> cs_stopped svc' = cs_stopped svc"
proof (cases "find_listener (ib_tag ib) svc")
  case (Some h)
  with assms obtain srv svc1 where r: "refresh_users env ib (lh_server h) svc = Inr (srv, svc1)"
    and svc': "svc' = put_server (ib_tag ib) (f srv) svc1" by (auto simp: refresh_inbound_def result_simps)
  have "cs_stopped svc1 = cs_stopped svc" using r by (auto simp: refresh_users_def result_simps split: if_splits)
  then show ?thesis using refresh_users_server [OF r] by (simp add: svc' put_server_ids, simp add: ids_def put_server_def)
qed (use assms in \<open>simp add: refresh_inbound_def\<close>)

lemma refresh_inbounds_ids:
  assumes "refresh_inbounds step ibs svc = Inr svc'"
    and "\<And>ib svc svc'. step ib svc = Inr svc' \<Longrightarrow> ids svc' = ids svc \<and> cs_stopped svc' = cs_stopped svc"
  shows "ids svc' = ids svc \<and> cs_stopped svc' = cs_stopped svc"
  using assms(1)
proof (induction ibs arbitrary: svc)
  case (Cons ib ibs)
  then obtain svc1 where "step ib svc = Inr svc1" "refresh_inbounds step ibs svc1 = Inr svc'" by (auto simp: result_simps)
  with Cons.IH assms(2) show ?case by metis
qed simp

lemma ids_config [simp]: "ids (svc\<lparr>cs_config := cfg\<rparr>) = ids svc"
  by (simp add: ids_def)

lemma update_ids:
  "update_users env cfg svc = Inr svc' \<Longrightarrow> ids svc' = ids svc \<and> cs_stopped svc' = cs_stopped svc"
  "update_routes_and_users env cfg svc = Inr svc' \<Longrightarrow> ids svc' = ids svc \<and> cs_stopped svc' = cs_stopped svc"
  by (auto simp: update_users_def update_routes_and_users_def Let_def result_simps dest!: refresh_inbounds_ids refresh_inbound_ids)

lemma put_server_stopped: "cs_stopped (put_server tag srv svc) = cs_stopped svc"
  by (simp add: put_server_def)

lemma reroute_ids: "ids (reroute_inbound a ib svc) = ids svc \<and> cs_stopped (reroute_inbound a ib svc) = cs_stopped svc"
  by (cases "find_listener (ib_tag ib) svc") (simp_all add: reroute_inbound_def put_server_ids put_server_stopped)

lemma update_routes_ids: "ids (update_routes cfg svc) = ids svc \<and> cs_stopped (update_routes cfg svc) = cs_stopped svc"
proof -
  have "ids (fold (reroute_inbound a) ibs s) = ids s \<and> cs_stopped (fold (reroute_inbound a) ibs s) = cs_stopped s" for a ibs s
    by (induction ibs arbitrary: s) (simp_all add: reroute_ids)
  then show ?thesis by (simp add: update_routes_def Let_def)
qed

lemma delta_ids:
  assumes "service_apply_user_delta env tag delta svc = Inr (r, svc')"
  shows "ids svc' = ids svc \<and> cs_stopped svc' = cs_stopped svc"
proof -
  from assms obtain h :: listener_handle and srv bw se where "cs_listeners svc' = cs_listeners (put_server tag srv svc)"
    by (rule service_delta_ok) blast
  then have "ids svc' = ids svc" using put_server_ids [of tag srv svc] by (simp add: ids_def)
  moreover have "cs_stopped svc' = cs_stopped svc"
    using assms by (auto simp: service_apply_user_delta_def result_simps Let_def put_server_def split: option.splits)
  ultimately show ?thesis by simp
qed

lemma runs_ids: "ids svc' = ids svc \<Longrightarrow> runs others svc w \<Longrightarrow> runs others svc' w"
  by (simp add: runs_def loops_of_def ids_def)

text \<open>
  C11. A hot update changes the running accept loops by exactly the listeners that come and go: if before it the
  loops of the service's listeners and some others run, then after it the loops of its new listeners and the same
  others run.
\<close>

theorem hot_update_swaps_exactly:
  assumes "service_reach env svc" "world_ok w" "mset (wd_running w) = others + mset (map lh_id (cs_listeners svc))"
    and "update_changed_listeners_and_users env cfg svc w = (Inr True, svc', w')"
  shows "mset (wd_running w') = others + mset (map lh_id (cs_listeners svc'))"
proof -
  have "distinct (map lh_tag (cs_listeners svc))"
    using reach_follows [OF assms(1)] follows_tags by (metis follows_def)
  from hot_update_runs [OF _ this assms(4), of others] show ?thesis using assms(2,3) by (simp add: runs_def loops_of_def)
qed

lemma moved_inbound: "fst (update_changed_listeners_and_users example_senv (two_inbounds 1082) example_service example_running) = Inr True"
  by code_simp

theorem hot_update_swaps_exactly_witness:
  "\<exists>svc w. update_changed_listeners_and_users example_senv (two_inbounds 1082) example_service example_running = (Inr True, svc, w) \<and>
     mset (wd_running w) = mset (map lh_id (cs_listeners svc))"
proof -
  obtain r svc w where u: "update_changed_listeners_and_users example_senv (two_inbounds 1082) example_service example_running = (r, svc, w)"
    by (metis prod_cases3)
  then have u': "update_changed_listeners_and_users example_senv (two_inbounds 1082) example_service example_running = (Inr True, svc, w)"
    using moved_inbound by simp
  have "world_ok example_running" "mset (wd_running example_running) = {#} + mset (map lh_id (cs_listeners example_service))"
    by (auto simp: world_ok_def world_wf_def example_running_def example_service_def example_handle_def)
  from hot_update_swaps_exactly [OF service_reach.start [OF example_started] this u'] u' show ?thesis by simp
qed

end
