(* ===== verification/Wire.thy ===== *)
theory Wire
  imports NetAddr Config_Data
begin

text \<open>
  Byte streams, shared by the protocol parsers. A byte string is a \<open>string\<close>, whose characters are bytes. A
  connection is what remains to be read and what has been written; an operation on it returns an I/O error or a
  value and leaves the connection changed in both cases.
\<close>

named_theorems io_simps

type_synonym bytes = string

datatype io_kind =
  InvalidData | InvalidInput | PermissionDenied | Unsupported | UnexpectedEof | TimedOut | AddrNotAvailable |
  ConnectionRefused | ConnectionReset | WouldBlock | OtherKind

datatype io_error = Io io_kind string | Abort

text \<open>\<open>Abort\<close> is a panic: the release profile of \<^verbatim>\<open>Cargo.toml\<close> ends the process on one.\<close>

record stream =
  sm_input :: bytes
  sm_output :: bytes

type_synonym 'a io = "stream \<Rightarrow> (io_error + 'a) \<times> stream"

definition io_return :: "'a \<Rightarrow> 'a io" where
  "io_return x s = (Inr x, s)"

definition io_fail :: "io_kind \<Rightarrow> string \<Rightarrow> 'a io" where
  "io_fail k msg s = (Inl (Io k msg), s)"

definition io_bind :: "'a io \<Rightarrow> ('a \<Rightarrow> 'b io) \<Rightarrow> 'b io" where
  "io_bind p f s = (case p s of (Inl e, s') \<Rightarrow> (Inl e, s') | (Inr x, s') \<Rightarrow> f x s')"

definition io_lift :: "io_error + 'a \<Rightarrow> 'a io" where
  "io_lift r s = (r, s)"

text \<open>\<^verbatim>\<open>read_exact\<close> fails when the input ends early, and has then consumed what there was.\<close>

definition read_exact :: "nat \<Rightarrow> bytes io" where
  "read_exact n s =
     (if n \<le> length (sm_input s) then (Inr (take n (sm_input s)), s\<lparr>sm_input := drop n (sm_input s)\<rparr>)
      else (Inl (Io UnexpectedEof ''failed to fill whole buffer''), s\<lparr>sm_input := []\<rparr>))"

definition write_all :: "bytes \<Rightarrow> unit io" where
  "write_all bs s = (Inr (), s\<lparr>sm_output := sm_output s @ bs\<rparr>)"

abbreviation byte_value :: "char \<Rightarrow> nat" where
  "byte_value c \<equiv> of_char c"

text \<open>\<^verbatim>\<open>to_be_bytes\<close> and \<^verbatim>\<open>from_be_bytes\<close>, of any width.\<close>

definition be_bytes :: "nat \<Rightarrow> nat \<Rightarrow> bytes" where
  "be_bytes n v = map (\<lambda>k. char_of (v div 256 ^ k mod 256)) (rev [0..<n])"

definition from_be_bytes :: "bytes \<Rightarrow> nat" where
  "from_be_bytes bs = be_value 256 (map byte_value bs)"

definition be16 :: "u16 \<Rightarrow> bytes" where
  "be16 w = be_bytes 2 (unat w)"

definition u16_from_be :: "bytes \<Rightarrow> u16" where
  "u16_from_be bs = of_nat (from_be_bytes bs)"

definition ip_octets :: "ip_addr \<Rightarrow> bytes" where
  "ip_octets ip = (case ip of V4 w \<Rightarrow> be_bytes 4 (unat w) | V6 w \<Rightarrow> be_bytes 16 (unat w))"

definition ipv4_from_bytes :: "bytes \<Rightarrow> ip_addr" where
  "ipv4_from_bytes bs = V4 (of_nat (from_be_bytes bs))"

definition ipv6_from_bytes :: "bytes \<Rightarrow> ip_addr" where
  "ipv6_from_bytes bs = V6 (of_nat (from_be_bytes bs))"

text \<open>\<^verbatim>\<open>String::from_utf8\<close> accepts the well-formed byte sequences of the Unicode standard.\<close>

definition cont_byte :: "char \<Rightarrow> bool" where
  "cont_byte c \<longleftrightarrow> 128 \<le> byte_value c \<and> byte_value c \<le> 191"

text \<open>The length a lead byte announces, zero for no lead byte, and the second bytes it allows.\<close>

definition utf8_len :: "nat \<Rightarrow> nat" where
  "utf8_len n =
     (if n < 128 then 1 else if n < 194 then 0 else if n < 224 then 2 else if n < 240 then 3 else if n < 245 then 4 else 0)"

definition utf8_second :: "nat \<Rightarrow> nat \<Rightarrow> bool" where
  "utf8_second n m \<longleftrightarrow>
     (n = 224 \<longrightarrow> 160 \<le> m) \<and> (n = 237 \<longrightarrow> m \<le> 159) \<and> (n = 240 \<longrightarrow> 144 \<le> m) \<and> (n = 244 \<longrightarrow> m \<le> 143)"

fun utf8_head :: "bytes \<Rightarrow> nat option" where
  "utf8_head [] = None"
| "utf8_head (a # r) =
     (let k = utf8_len (byte_value a) in
      if 0 < k \<and> k \<le> Suc (length r) \<and> list_all cont_byte (take (k - 1) r) \<and>
         (1 < k \<longrightarrow> utf8_second (byte_value a) (byte_value (r ! 0)))
      then Some k else None)"

lemma utf8_head_pos: "utf8_head bs = Some k \<Longrightarrow> 0 < k \<and> k \<le> length bs"
  by (cases bs) (auto simp: Let_def split: if_splits)

function utf8_valid :: "bytes \<Rightarrow> bool" where
  "utf8_valid bs = (bs = [] \<or> (case utf8_head bs of None \<Rightarrow> False | Some k \<Rightarrow> utf8_valid (drop k bs)))"
  by pat_completeness auto
termination
  by (relation "measure length") (auto dest: utf8_head_pos)

declare utf8_valid.simps [simp del]

section \<open>Laws\<close>

lemma io_bind_ok [io_simps]: "io_bind p f s = (Inr y, t) \<longleftrightarrow> (\<exists>x u. p s = (Inr x, u) \<and> f x u = (Inr y, t))"
  by (auto simp: io_bind_def split: prod.splits sum.splits)

lemma io_return_ok [io_simps]: "io_return x s = (Inr y, t) \<longleftrightarrow> y = x \<and> t = s"
  by (auto simp: io_return_def)

lemma io_fail_ok [io_simps]: "io_fail k msg s \<noteq> (Inr y, t)"
  by (simp add: io_fail_def)

lemma io_lift_ok [io_simps]: "io_lift r s = (Inr y, t) \<longleftrightarrow> r = Inr y \<and> t = s"
  by (auto simp: io_lift_def)

lemma read_exact_ok:
  "read_exact n s = (Inr bs, t) \<longleftrightarrow> (\<exists>rest. length bs = n \<and> sm_input s = bs @ rest \<and> t = s\<lparr>sm_input := rest\<rparr>)"
  by (auto simp: read_exact_def min_def intro: exI [of _ "drop n (sm_input s)"])

lemma length_small:
  "length bs = Suc 0 \<longleftrightarrow> (\<exists>a. bs = [a])"
  "length bs = 2 \<longleftrightarrow> (\<exists>a b. bs = [a, b])"
  "length bs = 4 \<longleftrightarrow> (\<exists>a b c d. bs = [a, b, c, d])"
  by (auto simp: eval_nat_numeral length_Suc_conv)

text \<open>The fixed headers of the protocols, byte by byte.\<close>

lemma read_exact_small [io_simps]:
  "read_exact (Suc 0) s = (Inr bs, t) \<longleftrightarrow> (\<exists>a rest. bs = [a] \<and> sm_input s = a # rest \<and> t = s\<lparr>sm_input := rest\<rparr>)"
  "read_exact 2 s = (Inr bs, t) \<longleftrightarrow> (\<exists>a b rest. bs = [a, b] \<and> sm_input s = a # b # rest \<and> t = s\<lparr>sm_input := rest\<rparr>)"
  "read_exact 4 s = (Inr bs, t) \<longleftrightarrow>
     (\<exists>a b c d rest. bs = [a, b, c, d] \<and> sm_input s = a # b # c # d # rest \<and> t = s\<lparr>sm_input := rest\<rparr>)"
  unfolding read_exact_ok length_small by auto

lemma write_all_ok [io_simps]: "write_all bs s = (Inr u, t) \<longleftrightarrow> t = s\<lparr>sm_output := sm_output s @ bs\<rparr>"
  by (auto simp: write_all_def)

lemma read_exact_append [simp]:
  "read_exact (length bs) \<lparr>sm_input = bs @ rest, sm_output = out\<rparr> = (Inr bs, \<lparr>sm_input = rest, sm_output = out\<rparr>)"
  by (simp add: read_exact_def)

lemma length_be_bytes [simp]: "length (be_bytes n v) = n"
  by (simp add: be_bytes_def)

lemma from_be_bytes_snoc: "from_be_bytes (bs @ [b]) = 256 * from_be_bytes bs + byte_value b"
  by (simp add: from_be_bytes_def be_value_def)

lemma be_bytes_Suc: "be_bytes (Suc n) v = be_bytes n (v div 256) @ [char_of (v mod 256)]"
proof -
  have "rev [0..<Suc n] = map Suc (rev [0..<n]) @ [0]"
    by (simp add: upt_conv_Cons map_Suc_upt rev_map [symmetric] del: upt_Suc)
  then show ?thesis by (simp add: be_bytes_def div_mult2_eq comp_def)
qed

lemma byte_less: "byte_value b < 256"
  using range_nat_of_char by fastforce

lemma be_bytes_two: "be_bytes 2 n = [char_of (n div 256), char_of n]"
  by (simp add: be_bytes_def numeral_2_eq_2)

lemma length_field: "256 * (n div 256 mod 256) + n mod 256 = n" if "n < 65536" for n :: nat
  using that by simp

lemma from_be_be_bytes: "v < 256 ^ n \<Longrightarrow> from_be_bytes (be_bytes n v) = v"
proof (induction n arbitrary: v)
  case 0
  then show ?case by (simp add: be_bytes_def from_be_bytes_def be_value_def)
next
  case (Suc n)
  then have "v div 256 < 256 ^ n" by (simp add: less_mult_imp_div_less mult.commute)
  with Suc.IH show ?case by (simp add: be_bytes_Suc from_be_bytes_snoc)
qed

lemma from_be_word [simp]:
  fixes w :: "'a :: len word"
  assumes "LENGTH('a) = 8 * n"
  shows "of_nat (from_be_bytes (be_bytes n (unat w))) = w"
proof -
  have "unat w < 2 ^ LENGTH('a)" by (rule unsigned_less)
  then have "unat w < 256 ^ n" using assms by (simp add: power_mult)
  then show ?thesis by (simp add: from_be_be_bytes)
qed

lemma length_be16 [simp]: "length (be16 w) = 2"
  by (simp add: be16_def)

lemma u16_be16 [simp]: "u16_from_be (be16 w) = w"
  by (simp add: u16_from_be_def be16_def)

lemma ip_from_octets [simp]:
  "ipv4_from_bytes (ip_octets (V4 v)) = V4 v" "ipv6_from_bytes (ip_octets (V6 w)) = V6 w"
  by (simp_all add: ipv4_from_bytes_def ipv6_from_bytes_def ip_octets_def)

lemma length_ip_octets [simp]: "length (ip_octets (V4 v)) = 4" "length (ip_octets (V6 w)) = 16"
  by (simp_all add: ip_octets_def)

lemma utf8_valid_Nil [simp]: "utf8_valid []"
  by (simp add: utf8_valid.simps)

lemma utf8_valid_ascii [simp]: "byte_value c < 128 \<Longrightarrow> utf8_valid (c # cs) = utf8_valid cs"
  by (subst utf8_valid.simps) (simp add: utf8_len_def)

lemma utf8_head_append: "utf8_head a = Some k \<Longrightarrow> utf8_head (a @ b) = Some k"
proof (cases a)
  case (Cons c r)
  moreover assume "utf8_head a = Some k"
  ultimately have "utf8_len (byte_value c) = k" "0 < k" "k \<le> Suc (length r)" "list_all cont_byte (take (k - 1) r)"
    "1 < k \<longrightarrow> utf8_second (byte_value c) (byte_value (r ! 0))"
    by (auto simp: Let_def split: if_splits)
  with Cons show ?thesis by (auto simp: nth_append)
qed simp

lemma utf8_valid_append: "utf8_valid a \<Longrightarrow> utf8_valid b \<Longrightarrow> utf8_valid (a @ b)"
proof (induction a rule: utf8_valid.induct)
  case (1 a)
  show ?case
  proof (cases "a = []")
    case False
    with "1.prems"(1) obtain k where k: "utf8_head a = Some k" "utf8_valid (drop k a)"
      by (subst (asm) utf8_valid.simps) (auto split: option.splits)
    with "1.IH" [OF k "1.prems"(2)] utf8_head_pos [OF k(1)] utf8_head_append [OF k(1), of b] show ?thesis
      by (subst utf8_valid.simps) simp
  qed (simp add: "1.prems"(2))
qed

end
