(* ===== verification/Metrics.thy ===== *)
theory Metrics
  imports Wire Abuse
begin

text \<open>
  The counters of \<^verbatim>\<open>src/metrics.rs\<close>: applied user deltas with their durations, connection errors, UDP relays,
  and the values read from \<^verbatim>\<open>/proc\<close>. What a snapshot takes from other parts of the process (DNS, relay
  scheduler, connection workers, process readings) is one argument of it. The CPU percentage, which is computed
  with floating point numbers, is not modelled.
\<close>

section \<open>User deltas\<close>

record core_duration_metrics =
  dm_count :: u64
  dm_total_ms :: u64
  dm_last_ms :: u64
  dm_max_ms :: u64
  dm_buckets :: "(string, u64) hmap"

record core_metrics =
  mx_apply_total :: u64
  mx_apply_error_total :: u64
  mx_incremental_total :: u64
  mx_full_snapshot_total :: u64
  mx_revision_mismatch_total :: u64
  mx_current_revision_missing_total :: u64
  mx_apply_duration_ms :: core_duration_metrics
  mx_active_users :: "(string, nat) hmap"

definition default_duration_metrics :: core_duration_metrics where
  "default_duration_metrics = \<lparr>dm_count = 0, dm_total_ms = 0, dm_last_ms = 0, dm_max_ms = 0, dm_buckets = []\<rparr>"

definition default_metrics :: core_metrics where
  "default_metrics = \<lparr>mx_apply_total = 0, mx_apply_error_total = 0, mx_incremental_total = 0, mx_full_snapshot_total = 0,
     mx_revision_mismatch_total = 0, mx_current_revision_missing_total = 0,
     mx_apply_duration_ms = default_duration_metrics, mx_active_users = []\<rparr>"

definition user_delta_duration_buckets_ms :: "u64 list" where
  "user_delta_duration_buckets_ms = [1, 5, 10, 25, 50, 100, 250, 500, 1000, 5000]"

definition bucket_key :: "u64 \<Rightarrow> string" where
  "bucket_key bucket = ''le_'' @ show_nat (unat bucket)"

text \<open>\<^verbatim>\<open>*entry(key).or_default() += 1\<close>, which wraps in a release build.\<close>

definition count_up :: "string \<Rightarrow> (string, u64) hmap \<Rightarrow> (string, u64) hmap" where
  "count_up key m = hm_insert key ((case hm_get m key of None \<Rightarrow> 0 | Some n \<Rightarrow> n) + 1) m"

definition record_duration :: "u64 \<Rightarrow> core_duration_metrics \<Rightarrow> core_duration_metrics" where
  "record_duration duration_ms d =
     \<lparr>dm_count = saturating_add (dm_count d) 1, dm_total_ms = saturating_add (dm_total_ms d) duration_ms,
      dm_last_ms = duration_ms, dm_max_ms = max (dm_max_ms d) duration_ms,
      dm_buckets = count_up ''le_inf''
        (fold (\<lambda>bucket m. if duration_ms \<le> bucket then count_up (bucket_key bucket) m else m)
           user_delta_duration_buckets_ms (dm_buckets d))\<rparr>"

definition record_user_delta_attempt :: "bool \<Rightarrow> u64 \<Rightarrow> core_metrics \<Rightarrow> core_metrics" where
  "record_user_delta_attempt full_snapshot duration_ms m =
     (let m = m\<lparr>mx_apply_total := saturating_add (mx_apply_total m) 1\<rparr>;
          m = (if full_snapshot then m\<lparr>mx_full_snapshot_total := saturating_add (mx_full_snapshot_total m) 1\<rparr>
               else m\<lparr>mx_incremental_total := saturating_add (mx_incremental_total m) 1\<rparr>)
      in m\<lparr>mx_apply_duration_ms := record_duration duration_ms (mx_apply_duration_ms m)\<rparr>)"

definition record_user_delta_success :: "string \<Rightarrow> bool \<Rightarrow> u64 \<Rightarrow> nat \<Rightarrow> core_metrics \<Rightarrow> core_metrics" where
  "record_user_delta_success node_tag full_snapshot duration_ms active_users m =
     (let m = record_user_delta_attempt full_snapshot duration_ms m
      in m\<lparr>mx_active_users := hm_insert node_tag active_users (mx_active_users m)\<rparr>)"

definition is_revision_mismatch :: "string \<Rightarrow> bool" where
  "is_revision_mismatch message = str_contains ''revision mismatch'' message"

definition is_current_revision_missing :: "string \<Rightarrow> bool" where
  "is_current_revision_missing message \<longleftrightarrow>
     str_contains ''current <missing>'' message \<or> str_contains ''full snapshot required'' message"

definition record_user_delta_error :: "bool \<Rightarrow> u64 \<Rightarrow> string \<Rightarrow> core_metrics \<Rightarrow> core_metrics" where
  "record_user_delta_error full_snapshot duration_ms message m =
     (let m = record_user_delta_attempt full_snapshot duration_ms m;
          m = m\<lparr>mx_apply_error_total := saturating_add (mx_apply_error_total m) 1\<rparr>;
          m = (if is_revision_mismatch message
               then m\<lparr>mx_revision_mismatch_total := saturating_add (mx_revision_mismatch_total m) 1\<rparr> else m)
      in if is_current_revision_missing message
         then m\<lparr>mx_current_revision_missing_total := saturating_add (mx_current_revision_missing_total m) 1\<rparr> else m)"

section \<open>Connection errors and UDP relays\<close>

text \<open>One character for every character of the text: continuation bytes of UTF-8 are not characters.\<close>

definition sanitize_connection_error_part :: "string \<Rightarrow> string" where
  "sanitize_connection_error_part value =
     map (\<lambda>ch. let n = byte_value ch in
            if 97 \<le> n \<and> n \<le> 122 \<or> 48 \<le> n \<and> n \<le> 57 \<or> ch = CHR ''_'' \<or> ch = CHR ''-'' then ch
            else if 65 \<le> n \<and> n \<le> 90 then ascii_lower ch
            else CHR ''_'')
       (filter (\<lambda>c. \<not> cont_byte c) value)"

definition connection_error_key :: "string \<Rightarrow> string \<Rightarrow> string \<Rightarrow> string" where
  "connection_error_key protocol scope reason =
     sanitize_connection_error_part protocol @ ''.'' @ sanitize_connection_error_part scope @ ''.'' @
     sanitize_connection_error_part reason"

definition udp_relay_key :: "string \<Rightarrow> string \<Rightarrow> string" where
  "udp_relay_key protocol scope = sanitize_connection_error_part protocol @ ''.'' @ sanitize_connection_error_part scope"

definition count_saturating :: "string \<Rightarrow> (string, u64) hmap \<Rightarrow> (string, u64) hmap" where
  "count_saturating key m = hm_insert key (saturating_add (case hm_get m key of None \<Rightarrow> 0 | Some n \<Rightarrow> n) 1) m"

definition record_connection_error :: "string \<Rightarrow> string \<Rightarrow> string \<Rightarrow> (string, u64) hmap \<Rightarrow> (string, u64) hmap" where
  "record_connection_error protocol scope reason metrics = count_saturating (connection_error_key protocol scope reason) metrics"

definition record_udp_relay_finished :: "string \<Rightarrow> string \<Rightarrow> string \<Rightarrow> (string, u64) hmap \<Rightarrow> (string, u64) hmap" where
  "record_udp_relay_finished protocol scope status metrics =
     count_saturating (udp_relay_key protocol scope @ ''.'' @ sanitize_connection_error_part status) metrics"

text \<open>A guard is its key.\<close>

definition udp_relay_guard_new :: "string \<Rightarrow> string \<Rightarrow> (string, nat) hmap \<Rightarrow> string \<times> (string, nat) hmap" where
  "udp_relay_guard_new protocol scope metrics =
     (let key = udp_relay_key protocol scope
      in (key, hm_insert key (usize_saturating_add (case hm_get metrics key of None \<Rightarrow> 0 | Some n \<Rightarrow> n) 1) metrics))"

definition udp_relay_guard_drop :: "string \<Rightarrow> (string, nat) hmap \<Rightarrow> (string, nat) hmap" where
  "udp_relay_guard_drop key metrics =
     (case hm_get metrics key of
        None \<Rightarrow> metrics
      | Some n \<Rightarrow> if n - 1 = 0 then hm_remove key metrics else hm_insert key (n - 1) metrics)"

section \<open>Process status\<close>

record process_resource_snapshot =
  pr_rss_bytes :: "u64 option"
  pr_peak_rss_bytes :: "u64 option"
  pr_anonymous_rss_bytes :: "u64 option"
  pr_file_rss_bytes :: "u64 option"
  pr_data_bytes :: "u64 option"
  pr_threads :: "nat option"

definition default_process :: process_resource_snapshot where
  "default_process = \<lparr>pr_rss_bytes = None, pr_peak_rss_bytes = None, pr_anonymous_rss_bytes = None,
     pr_file_rss_bytes = None, pr_data_bytes = None, pr_threads = None\<rparr>"

definition linux_status_value :: "string \<Rightarrow> string \<Rightarrow> u64 option" where
  "linux_status_value line key =
     (case strip_prefix key (trim_start line) of
        None \<Rightarrow> None
      | Some rest \<Rightarrow> map_option word_of_nat (parse_u64 (first_token (trim_start rest))))"

definition status_line :: "string \<Rightarrow> process_resource_snapshot \<Rightarrow> process_resource_snapshot" where
  "status_line line p =
     (case linux_status_value line ''VmRSS:'' of Some v \<Rightarrow> p\<lparr>pr_rss_bytes := Some (saturating_mul v 1024)\<rparr> | None \<Rightarrow>
      case linux_status_value line ''VmHWM:'' of Some v \<Rightarrow> p\<lparr>pr_peak_rss_bytes := Some (saturating_mul v 1024)\<rparr> | None \<Rightarrow>
      case linux_status_value line ''RssAnon:'' of Some v \<Rightarrow> p\<lparr>pr_anonymous_rss_bytes := Some (saturating_mul v 1024)\<rparr> | None \<Rightarrow>
      case linux_status_value line ''RssFile:'' of Some v \<Rightarrow> p\<lparr>pr_file_rss_bytes := Some (saturating_mul v 1024)\<rparr> | None \<Rightarrow>
      case linux_status_value line ''VmData:'' of Some v \<Rightarrow> p\<lparr>pr_data_bytes := Some (saturating_mul v 1024)\<rparr> | None \<Rightarrow>
      case linux_status_value line ''Threads:'' of Some v \<Rightarrow> p\<lparr>pr_threads := Some (unat v)\<rparr> | None \<Rightarrow> p)"

definition parse_linux_process_status :: "string \<Rightarrow> process_resource_snapshot option" where
  "parse_linux_process_status input =
     (let p = fold status_line (str_lines input) default_process in if p = default_process then None else Some p)"

fun split_whitespace_from :: "string \<Rightarrow> string \<Rightarrow> string list" where
  "split_whitespace_from token [] = (if token = [] then [] else [rev token])"
| "split_whitespace_from token (c # cs) =
     (case find (\<lambda>w. starts_with w (c # cs)) white_space of
        None \<Rightarrow> split_whitespace_from (c # token) cs
      | Some w \<Rightarrow> (if token = [] then [] else [rev token]) @ split_whitespace_from [] (drop (length w - 1) cs))"

definition split_whitespace :: "string \<Rightarrow> string list" where
  "split_whitespace s = split_whitespace_from [] s"

definition parse_linux_process_stat :: "string \<Rightarrow> u64 option" where
  "parse_linux_process_stat input =
     (case rsplit_once (CHR '')'') input of
        None \<Rightarrow> None
      | Some (before, after) \<Rightarrow>
          (let fields = split_whitespace after in
           if length fields \<le> 12 then None
           else case (parse_u64 (fields ! 11), parse_u64 (fields ! 12)) of
                  (Some user_jiffies, Some system_jiffies) \<Rightarrow> Some (saturating_add (word_of_nat user_jiffies) (word_of_nat system_jiffies))
                | _ \<Rightarrow> None))"

text \<open>The count of open files is read again once the last reading is fifteen seconds old.\<close>

definition process_open_fd_cache_ttl :: duration where
  "process_open_fd_cache_ttl = secs 15"

definition cached_process_open_fd_count ::
    "instant \<Rightarrow> (instant \<times> nat option) option \<Rightarrow> nat option \<Rightarrow> nat option \<times> (instant \<times> nat option) option" where
  "cached_process_open_fd_count now cached read =
     (case cached of
        Some (last_read, value) \<Rightarrow>
          if now - last_read < process_open_fd_cache_ttl then (value, cached) else (read, Some (now, read))
      | None \<Rightarrow> (read, Some (now, read)))"

section \<open>Snapshots\<close>

text \<open>Readings of other parts of the process, as named gauges.\<close>

type_synonym gauges = "(string, nat) hmap"

record core_metrics_snapshot =
  mt_user_delta :: core_metrics
  mt_tls_handshake :: backoff_snapshot
  mt_tcp_auth :: backoff_snapshot
  mt_quic :: "gauges option"
  mt_readings :: gauges

definition no_backoff :: backoff_snapshot where
  "no_backoff = \<lparr>bs_failure_total = 0, bs_backoff_reject_total = 0, bs_active_ips = 0, bs_blocked_ips = 0\<rparr>"

definition snapshot_with_runtime_metrics ::
    "gauges \<Rightarrow> gauges option \<Rightarrow> backoff_snapshot option \<Rightarrow> backoff_snapshot option \<Rightarrow> core_metrics \<Rightarrow> core_metrics_snapshot" where
  "snapshot_with_runtime_metrics readings quic tls tcp m =
     \<lparr>mt_user_delta = m, mt_tls_handshake = (case tls of Some s \<Rightarrow> s | None \<Rightarrow> no_backoff),
      mt_tcp_auth = (case tcp of Some s \<Rightarrow> s | None \<Rightarrow> no_backoff), mt_quic = quic, mt_readings = readings\<rparr>"

section \<open>The duration histogram\<close>

definition counter_value :: "(string, u64) hmap \<Rightarrow> string \<Rightarrow> u64" where
  "counter_value m key = (case hm_get m key of None \<Rightarrow> 0 | Some n \<Rightarrow> n)"

lemma counter_count_up: "counter_value (count_up key m) key' = counter_value m key' + (if key' = key then 1 else 0)"
  by (simp add: counter_value_def count_up_def)

lemma counter_fold_other:
  "key \<notin> f ` set bs \<Longrightarrow> counter_value (fold (\<lambda>b m. if P b then count_up (f b) m else m) bs m) key = counter_value m key"
  by (induction bs arbitrary: m) (auto simp: counter_count_up)

lemma counter_fold:
  "distinct (map f bs) \<Longrightarrow> b \<in> set bs \<Longrightarrow>
     counter_value (fold (\<lambda>b m. if P b then count_up (f b) m else m) bs m) (f b) = counter_value m (f b) + (if P b then 1 else 0)"
proof (induction bs arbitrary: m)
  case (Cons a bs)
  show ?case
  proof (cases "b = a")
    case True
    then have "f b \<notin> f ` set bs" using Cons.prems by simp
    then show ?thesis using True by (simp add: counter_fold_other counter_count_up)
  next
    case False
    then have "b \<in> set bs" using Cons.prems by simp
    moreover from this have "f b \<noteq> f a" using Cons.prems(1) by (metis distinct.simps(2) image_eqI list.set_map list.simps(9))
    ultimately show ?thesis using Cons by (simp add: counter_count_up)
  qed
qed simp

lemma bucket_keys: "distinct (''le_inf'' # map bucket_key user_delta_duration_buckets_ms)"
  by code_simp

lemma histogram_word:
  "b \<in> set user_delta_duration_buckets_ms \<Longrightarrow>
     counter_value (dm_buckets (fold record_duration ds d)) (bucket_key b) =
       counter_value (dm_buckets d) (bucket_key b) + word_of_nat (length (filter (\<lambda>x. x \<le> b) ds))"
  "counter_value (dm_buckets (fold record_duration ds d)) ''le_inf'' = counter_value (dm_buckets d) ''le_inf'' + word_of_nat (length ds)"
proof (induction ds arbitrary: d)
  case (Cons x ds)
  { case 1
    then have "bucket_key b \<noteq> ''le_inf''" using bucket_keys by force
    moreover have "counter_value (dm_buckets (record_duration x d)) (bucket_key b) = counter_value (dm_buckets d) (bucket_key b) + (if x \<le> b then 1 else 0)"
      using 1 calculation bucket_keys by (simp add: record_duration_def counter_count_up counter_fold)
    ultimately show ?case using Cons.IH(1) [OF 1] by simp }
  { case 2
    have "''le_inf'' \<notin> bucket_key ` set user_delta_duration_buckets_ms" using bucket_keys by simp
    then have "counter_value (dm_buckets (record_duration x d)) ''le_inf'' = counter_value (dm_buckets d) ''le_inf'' + 1"
      by (simp add: record_duration_def counter_count_up counter_fold_other)
    then show ?case using Cons.IH(2) by simp }
qed simp_all

text \<open>
  The histogram of durations is exact: after recording fewer than \<open>2 ^ 64\<close> durations, the bucket of a bound
  counts those at most the bound, and the last bucket counts all of them.
\<close>

theorem duration_histogram_exact:
  assumes "length ds < 2 ^ 64" "b \<in> set user_delta_duration_buckets_ms"
  shows "let m = dm_buckets (fold record_duration ds default_duration_metrics) in
    unat (counter_value m (bucket_key b)) = length (filter (\<lambda>x. x \<le> b) ds) \<and> unat (counter_value m ''le_inf'') = length ds"
proof -
  have "length (filter (\<lambda>x. x \<le> b) ds) < 2 ^ 64" using assms(1) length_filter_le le_less_trans by blast
  then show ?thesis
    using assms histogram_word(1) [of b ds default_duration_metrics] histogram_word(2) [of ds default_duration_metrics]
    by (simp add: default_duration_metrics_def counter_value_def unat_of_nat take_bit_nat_eq_self)
qed

theorem duration_histogram_exact_witness:
  "let m = dm_buckets (fold record_duration [3, 700, 10] default_duration_metrics) in
     unat (counter_value m ''le_10'') = 2 \<and> unat (counter_value m ''le_inf'') = 3"
proof -
  have "bucket_key 10 = ''le_10''" by code_simp
  then show ?thesis
    using duration_histogram_exact [of "[3, 700, 10]" 10] by (simp add: user_delta_duration_buckets_ms_def Let_def)
qed

section \<open>Totals\<close>

inductive metrics_reach :: "nat \<Rightarrow> nat \<Rightarrow> core_metrics \<Rightarrow> bool" where
  start: "metrics_reach 0 0 default_metrics"
| success: "metrics_reach n k m \<Longrightarrow> metrics_reach (Suc n) k (record_user_delta_success tag full ms active m)"
| error: "metrics_reach n k m \<Longrightarrow> metrics_reach (Suc n) (Suc k) (record_user_delta_error full ms message m)"

lemma saturating_count: "unat a + n < 2 ^ 64 \<Longrightarrow> 0 < n \<Longrightarrow> unat (saturating_add a (1 :: u64)) = Suc (unat a)"
  by (simp add: unat_saturating_add)

lemma attempt_totals:
  assumes "unat (mx_apply_total m) < 2 ^ 64 - 1" "unat (mx_incremental_total m) + unat (mx_full_snapshot_total m) = unat (mx_apply_total m)"
  shows "unat (mx_apply_total (record_user_delta_attempt full ms m)) = Suc (unat (mx_apply_total m)) \<and>
    unat (mx_incremental_total (record_user_delta_attempt full ms m)) + unat (mx_full_snapshot_total (record_user_delta_attempt full ms m)) =
      Suc (unat (mx_apply_total m)) \<and>
    mx_apply_error_total (record_user_delta_attempt full ms m) = mx_apply_error_total m"
  using assms by (simp add: record_user_delta_attempt_def Let_def unat_saturating_add)

lemma delta_totals:
  assumes "metrics_reach n k m" "n < 2 ^ 64"
  shows "unat (mx_apply_total m) = n \<and> unat (mx_incremental_total m) + unat (mx_full_snapshot_total m) = n \<and>
    unat (mx_apply_error_total m) = k \<and> k \<le> n"
  using assms
proof (induction rule: metrics_reach.induct)
  case start
  then show ?case by (simp add: default_metrics_def)
next
  case (success n k m tag full ms active)
  then show ?case using attempt_totals [of m full ms] by (simp add: record_user_delta_success_def Let_def)
next
  case (error n k m full ms message)
  then show ?case using attempt_totals [of m full ms] by (simp add: record_user_delta_error_def Let_def unat_saturating_add)
qed

section \<open>Relay guards\<close>

lemma relay_guard_restores:
  assumes "hm_wf m" "hm_get m (udp_relay_key protocol scope) \<noteq> Some 0" "hm_get m (udp_relay_key protocol scope) \<noteq> Some usize_max"
    and "udp_relay_guard_new protocol scope m = (key, m')" "\<forall>n. hm_get m (udp_relay_key protocol scope) = Some n \<longrightarrow> n \<le> usize_max"
  shows "hm_get (udp_relay_guard_drop key m') k = hm_get m k"
  using assms by (cases "hm_get m (udp_relay_key protocol scope)")
    (force simp: udp_relay_guard_new_def udp_relay_guard_drop_def Let_def usize_saturating_add_def usize_max_def)+

end
