(* ===== verification/Control.thy ===== *)
theory Control
  imports Loops Metrics
begin

text \<open>
  The runtime state of \<^verbatim>\<open>src/runtime.rs\<close> and the controller of \<^verbatim>\<open>src/control.rs\<close>: planning a configuration, deciding
  between doing nothing, a hot update and a reload, and the commands of the control socket. The JSON form of a
  configuration, the clock and the readings of other parts of the process are arguments; trimming memory has no
  effect on this state.
\<close>

section \<open>Runtime state\<close>

datatype core_status = Stopped | Running | Reloading | Failed string

datatype reload_decision = Noop | Reloaded | Updated

record core_plan =
  pl_fingerprint :: string
  pl_config :: core_config

record runtime_state =
  rs_active_fingerprint :: "string option"
  rs_status :: core_status
  rs_traffic :: traffic_registry

definition fnv1a64 :: "bytes \<Rightarrow> u64" where
  "fnv1a64 bs = fold (\<lambda>byte hash. Bit_Operations.xor hash (word_of_nat (byte_value byte)) * 0x100000001b3) bs 0xcbf29ce484222325"

definition pad16 :: "string \<Rightarrow> string" where
  "pad16 s = replicate (16 - length s) (CHR ''0'') @ s"

definition fingerprint_config :: "(core_config \<Rightarrow> bytes) \<Rightarrow> core_config \<Rightarrow> string" where
  "fingerprint_config json config = pad16 (show_hex (unat (fnv1a64 (json config))))"

definition runtime_new :: runtime_state where
  "runtime_new = \<lparr>rs_active_fingerprint = None, rs_status = Stopped, rs_traffic = traffic_default\<rparr>"

definition plan :: "externals \<Rightarrow> (core_config \<Rightarrow> bytes) \<Rightarrow> core_config \<Rightarrow> core_plan vresult" where
  "plan ext json config =
     and_then (validate ext config) (\<lambda>_. Inr \<lparr>pl_fingerprint = fingerprint_config json config, pl_config = config\<rparr>)"

definition needs_reload :: "core_plan \<Rightarrow> runtime_state \<Rightarrow> bool" where
  "needs_reload p rs \<longleftrightarrow> rs_active_fingerprint rs \<noteq> Some (pl_fingerprint p)"

definition apply_plan :: "core_plan \<Rightarrow> runtime_state \<Rightarrow> reload_decision \<times> runtime_state" where
  "apply_plan p rs =
     (if rs_active_fingerprint rs = Some (pl_fingerprint p) then (Noop, rs\<lparr>rs_status := Running\<rparr>)
      else (Reloaded, rs\<lparr>rs_active_fingerprint := Some (pl_fingerprint p), rs_status := Running\<rparr>))"

definition apply_update :: "core_plan \<Rightarrow> runtime_state \<Rightarrow> reload_decision \<times> runtime_state" where
  "apply_update p rs = (Updated, rs\<lparr>rs_active_fingerprint := Some (pl_fingerprint p), rs_status := Running\<rparr>)"

definition apply_runtime_update :: "runtime_state \<Rightarrow> reload_decision \<times> runtime_state" where
  "apply_runtime_update rs = (Updated, rs\<lparr>rs_active_fingerprint := None, rs_status := Running\<rparr>)"

definition runtime_fail :: "string \<Rightarrow> runtime_state \<Rightarrow> runtime_state" where
  "runtime_fail message rs = rs\<lparr>rs_status := Failed message\<rparr>"

definition runtime_stop :: "runtime_state \<Rightarrow> runtime_state" where
  "runtime_stop rs = rs\<lparr>rs_active_fingerprint := None, rs_status := Stopped\<rparr>"

definition runtime_drain_traffic :: "u64 \<Rightarrow> runtime_state \<Rightarrow> traffic_delta list \<times> runtime_state" where
  "runtime_drain_traffic minimum rs = (let (records, reg) = drain_minimum minimum (rs_traffic rs) in (records, rs\<lparr>rs_traffic := reg\<rparr>))"

definition runtime_requeue_traffic :: "(tkey \<Rightarrow> u64) \<Rightarrow> traffic_delta list \<Rightarrow> runtime_state \<Rightarrow> runtime_state" where
  "runtime_requeue_traffic hash records rs = rs\<lparr>rs_traffic := add_deltas hash records (rs_traffic rs)\<rparr>"

section \<open>The controller\<close>

datatype core_command =
    ApplyConfig core_config
  | ApplyRoutes core_config
  | ApplyUserDelta string core_user_delta
  | ApplyDeviceLimitSnapshot device_limit_snapshot
  | CommitDeviceLimitReport "online_record list"
  | DrainTraffic u64
  | RequeueTraffic "traffic_delta list"
  | Status
  | Metrics
  | TrimMemory
  | Stop

datatype core_response =
    Applied string core_status "listener_status list"
  | UserDeltaApplied string core_user_delta_result core_status "listener_status list"
  | TrafficRecords "traffic_delta list"
  | TrafficRequeued nat
  | DeviceLimitSnapshotApplied string nat
  | DeviceLimitReportCommitted nat
  | StatusReport core_status "listener_status list"
  | MetricsReport core_metrics_snapshot
  | MemoryTrimmed
  | StoppedReply
  | ErrorReply string

record core_controller =
  co_runtime :: runtime_state
  co_service :: "core_service option"
  co_metrics :: core_metrics

text \<open>What the environment supplies for one command: the moment, how long the command took, and readings.\<close>

record moment =
  mo_now :: instant
  mo_elapsed_ms :: u64
  mo_tcp_auth :: backoff_snapshot
  mo_quic :: "nat \<Rightarrow> gauges"
  mo_readings :: gauges

record control_env =
  cx_service :: service_env
  cx_json :: "core_config \<Rightarrow> bytes"
  cx_traffic_hash :: "tkey \<Rightarrow> u64"

text \<open>A step ends with a response, the controller and the running accept loops, or with a panic, which ends the process.\<close>

type_synonym step = "(core_response \<times> core_controller \<times> world) option"

definition controller_new :: core_controller where
  "controller_new = \<lparr>co_runtime = runtime_new, co_service = None, co_metrics = default_metrics\<rparr>"

definition controller_listeners :: "core_controller \<Rightarrow> listener_status list" where
  "controller_listeners c = (case co_service c of None \<Rightarrow> [] | Some svc \<Rightarrow> listeners svc)"

definition decision_name :: "reload_decision \<Rightarrow> string" where
  "decision_name d = (case d of Noop \<Rightarrow> ''noop'' | Reloaded \<Rightarrow> ''reloaded'' | Updated \<Rightarrow> ''updated'')"

fun service_error_text :: "service_error \<Rightarrow> string option" where
  "service_error_text (InvalidConfig e) = Some (''invalid core config: '' @ e)"
| "service_error_text (Bind tag source) = Some (concat [''failed to bind inbound '', tag, '': '', source])"
| "service_error_text (UnsupportedFeature tag message) = Some (concat [''inbound '', tag, '' unsupported feature: '', message])"
| "service_error_text (UnsupportedProtocol tag p) =
     Some (concat [''inbound '', tag, '' protocol '', protocol_debug p, '' is not implemented in keli-core-rs yet''])"
| "service_error_text Crash = None"

definition applied :: "reload_decision \<times> runtime_state \<Rightarrow> core_controller \<Rightarrow> core_response \<times> core_controller" where
  "applied d c =
     (let c = c\<lparr>co_runtime := snd d\<rparr> in (Applied (decision_name (fst d)) (rs_status (snd d)) (controller_listeners c), c))"

definition failed :: "string \<Rightarrow> core_controller \<Rightarrow> core_response \<times> core_controller" where
  "failed message c = (ErrorReply message, c\<lparr>co_runtime := runtime_fail message (co_runtime c)\<rparr>)"

definition stop_service :: "core_controller \<Rightarrow> world \<Rightarrow> core_controller \<times> world" where
  "stop_service c w =
     (case co_service c of None \<Rightarrow> (c, w) | Some svc \<Rightarrow> (c\<lparr>co_service := None\<rparr>, snd (core_service_stop svc w)))"

definition reload :: "control_env \<Rightarrow> core_plan \<Rightarrow> core_controller \<Rightarrow> world \<Rightarrow> step" where
  "reload cx p c w =
     (let (c, w) = stop_service c w in
      case core_service_start (cx_service cx) (pl_config p) w of
        (Inl e, w') \<Rightarrow> (case service_error_text e of None \<Rightarrow> None | Some msg \<Rightarrow> let (r, c) = failed msg c in Some (r, c, w'))
      | (Inr svc, w') \<Rightarrow>
          (let c = c\<lparr>co_service := Some svc\<rparr>; (r, c) = applied (apply_plan p (co_runtime c)) c in Some (r, c, w')))"

definition updated :: "core_plan \<Rightarrow> core_service \<Rightarrow> core_controller \<Rightarrow> core_response \<times> core_controller" where
  "updated p svc c = (let c = c\<lparr>co_service := Some svc\<rparr> in applied (apply_update p (co_runtime c)) c)"

definition update_or_reload :: "control_env \<Rightarrow> core_plan \<Rightarrow> core_service \<Rightarrow> core_controller \<Rightarrow> world \<Rightarrow> step" where
  "update_or_reload cx p svc c w =
     (let env = cx_service cx; config = pl_config p in
      if can_update_users svc config then
        (case update_users env config svc of
           Inl _ \<Rightarrow> None | Inr svc' \<Rightarrow> (let (r, c) = updated p svc' c in Some (r, c, w)))
      else if can_update_routes svc config then
        (case update_routes_and_users env config svc of
           Inl _ \<Rightarrow> None | Inr svc' \<Rightarrow> (let (r, c) = updated p svc' c in Some (r, c, w)))
      else case update_changed_listeners_and_users env config svc w of
             (Inr True, svc', w') \<Rightarrow> (let (r, c) = updated p svc' c in Some (r, c, w'))
           | (Inr False, svc', w') \<Rightarrow> reload cx p (c\<lparr>co_service := Some svc'\<rparr>) w'
           | (Inl e, svc', w') \<Rightarrow>
               (case service_error_text e of
                  None \<Rightarrow> None | Some msg \<Rightarrow> let (r, c) = failed msg (c\<lparr>co_service := Some svc'\<rparr>) in Some (r, c, w')))"

definition apply_config :: "control_env \<Rightarrow> core_config \<Rightarrow> core_controller \<Rightarrow> world \<Rightarrow> step" where
  "apply_config cx config c w =
     (case plan (vx_externals (cx_service cx)) (cx_json cx) config of
        Inl Panic \<Rightarrow> None
      | Inl (Err e) \<Rightarrow> (let (r, c) = failed e c in Some (r, c, w))
      | Inr p \<Rightarrow>
          (if \<not> needs_reload p (co_runtime c) then (let (r, c) = applied (apply_plan p (co_runtime c)) c in Some (r, c, w))
           else case co_service c of
                  None \<Rightarrow> reload cx p c w
                | Some svc \<Rightarrow> update_or_reload cx p svc c w))"

definition apply_routes :: "core_config \<Rightarrow> core_controller \<Rightarrow> core_response \<times> core_controller" where
  "apply_routes config c =
     (case co_service c of
        None \<Rightarrow> (ErrorReply ''cannot apply routes before config is applied'', c)
      | Some svc \<Rightarrow>
          (if \<not> can_update_routes svc config then (ErrorReply ''route hot config requires reload'', c)
           else (let c = c\<lparr>co_service := Some (update_routes config svc)\<rparr> in applied (apply_runtime_update (co_runtime c)) c)))"

definition control_apply_user_delta ::
    "control_env \<Rightarrow> u64 \<Rightarrow> string \<Rightarrow> core_user_delta \<Rightarrow> core_controller \<Rightarrow> (core_response \<times> core_controller) option" where
  "control_apply_user_delta cx elapsed node_tag delta c =
     (let full = (d_full delta \<noteq> None) in
      case co_service c of
        None \<Rightarrow>
          (let msg = ''cannot apply user delta before config is applied''
           in Some (ErrorReply msg, c\<lparr>co_metrics := record_user_delta_error full elapsed msg (co_metrics c)\<rparr>))
      | Some svc \<Rightarrow>
          (case service_apply_user_delta (cx_service cx) node_tag delta svc of
             Inl Panic \<Rightarrow> None
           | Inl (Err msg) \<Rightarrow> Some (ErrorReply msg, c\<lparr>co_metrics := record_user_delta_error full elapsed msg (co_metrics c)\<rparr>)
           | Inr (result, svc') \<Rightarrow>
               (let c = c\<lparr>co_service := Some svc',
                          co_metrics := record_user_delta_success node_tag full elapsed (r_active_users result) (co_metrics c),
                          co_runtime := snd (apply_runtime_update (co_runtime c))\<rparr>
                in Some (UserDeltaApplied node_tag result (rs_status (co_runtime c)) (controller_listeners c), c))))"

definition control_device_limit_snapshot ::
    "instant \<Rightarrow> device_limit_snapshot \<Rightarrow> core_controller \<Rightarrow> core_response \<times> core_controller" where
  "control_device_limit_snapshot now sn c =
     (case co_service c of
        None \<Rightarrow> (ErrorReply ''cannot apply device limit snapshot before config is applied'', c)
      | Some svc \<Rightarrow>
          (DeviceLimitSnapshotApplied (sn_node_tag sn) (max (length (sn_alive sn)) (length (sn_alive_ips sn))),
           c\<lparr>co_service := Some (svc\<lparr>cs_sessions := apply_device_limit_snapshot now sn (cs_sessions svc)\<rparr>)\<rparr>))"

definition control_device_limit_report ::
    "instant \<Rightarrow> online_record list \<Rightarrow> core_controller \<Rightarrow> core_response \<times> core_controller" where
  "control_device_limit_report now records c =
     (case co_service c of
        None \<Rightarrow> (ErrorReply ''cannot commit device limit report before config is applied'', c)
      | Some svc \<Rightarrow>
          (DeviceLimitReportCommitted (length records),
           c\<lparr>co_service := Some (svc\<lparr>cs_sessions := commit_device_limit_report now records (cs_sessions svc)\<rparr>)\<rparr>))"

definition control_drain_traffic :: "u64 \<Rightarrow> core_controller \<Rightarrow> traffic_delta list \<times> core_controller" where
  "control_drain_traffic minimum c =
     (case co_service c of
        Some svc \<Rightarrow> (let (records, svc) = service_drain_traffic minimum svc in (records, c\<lparr>co_service := Some svc\<rparr>))
      | None \<Rightarrow> (let (records, rs) = runtime_drain_traffic minimum (co_runtime c) in (records, c\<lparr>co_runtime := rs\<rparr>)))"

definition control_requeue_traffic :: "(tkey \<Rightarrow> u64) \<Rightarrow> traffic_delta list \<Rightarrow> core_controller \<Rightarrow> core_controller" where
  "control_requeue_traffic hash records c =
     (case co_service c of
        Some svc \<Rightarrow> c\<lparr>co_service := Some (service_requeue_traffic hash records svc)\<rparr>
      | None \<Rightarrow> c\<lparr>co_runtime := runtime_requeue_traffic hash records (co_runtime c)\<rparr>)"

definition control_metrics :: "moment \<Rightarrow> core_controller \<Rightarrow> core_metrics_snapshot" where
  "control_metrics mo c =
     (case co_service c of
        None \<Rightarrow> snapshot_with_runtime_metrics (mo_readings mo) None None None (co_metrics c)
      | Some svc \<Rightarrow>
          snapshot_with_runtime_metrics (mo_readings mo) (map_option (mo_quic mo) (cs_quic_connections svc))
            (Some (snapshot (mo_now mo) (cs_tls_failures svc))) (Some (mo_tcp_auth mo)) (co_metrics c))"

definition control_stop :: "core_controller \<Rightarrow> world \<Rightarrow> core_response \<times> core_controller \<times> world" where
  "control_stop c w =
     (let (c, w) = stop_service c w in (StoppedReply, c\<lparr>co_runtime := runtime_stop (co_runtime c)\<rparr>, w))"

definition handle :: "control_env \<Rightarrow> moment \<Rightarrow> core_command \<Rightarrow> core_controller \<Rightarrow> world \<Rightarrow> step" where
  "handle cx mo command c w =
     (case command of
        ApplyConfig config \<Rightarrow> apply_config cx config c w
      | ApplyRoutes config \<Rightarrow> (let (r, c) = apply_routes config c in Some (r, c, w))
      | ApplyUserDelta node_tag delta \<Rightarrow>
          (case control_apply_user_delta cx (mo_elapsed_ms mo) node_tag delta c of None \<Rightarrow> None | Some (r, c) \<Rightarrow> Some (r, c, w))
      | ApplyDeviceLimitSnapshot sn \<Rightarrow> (let (r, c) = control_device_limit_snapshot (mo_now mo) sn c in Some (r, c, w))
      | CommitDeviceLimitReport records \<Rightarrow> (let (r, c) = control_device_limit_report (mo_now mo) records c in Some (r, c, w))
      | DrainTraffic minimum \<Rightarrow> (let (records, c) = control_drain_traffic minimum c in Some (TrafficRecords records, c, w))
      | RequeueTraffic records \<Rightarrow> Some (TrafficRequeued (length records), control_requeue_traffic (cx_traffic_hash cx) records c, w)
      | Status \<Rightarrow> Some (StatusReport (rs_status (co_runtime c)) (controller_listeners c), c, w)
      | Metrics \<Rightarrow> Some (MetricsReport (control_metrics mo c), c, w)
      | TrimMemory \<Rightarrow> Some (MemoryTrimmed, c, w)
      | Stop \<Rightarrow> Some (control_stop c w))"

section \<open>Reachable controllers\<close>

inductive control_reach :: "control_env \<Rightarrow> core_controller \<Rightarrow> world \<Rightarrow> bool" for cx where
  new: "world_ok w \<Longrightarrow> control_reach cx controller_new w"
| command: "control_reach cx c w \<Longrightarrow> handle cx mo command c w = Some (r, c', w') \<Longrightarrow> control_reach cx c' w'"
| activity: "control_reach cx c w \<Longrightarrow> co_service c = Some svc \<Longrightarrow>
    control_reach cx (c\<lparr>co_service := Some (svc\<lparr>cs_traffic := traffic, cs_sessions := sessions, cs_bandwidth := bandwidth,
      cs_tls_failures := failures\<rparr>)\<rparr>) w"

text \<open>The service, if there is one, is reachable, and a fingerprint kept is that of the configuration it runs.\<close>

definition planned :: "control_env \<Rightarrow> core_plan \<Rightarrow> bool" where
  "planned cx p \<longleftrightarrow> validate (vx_externals (cx_service cx)) (pl_config p) = Inr () \<and>
     pl_fingerprint p = fingerprint_config (cx_json cx) (pl_config p)"

definition tracks :: "control_env \<Rightarrow> core_controller \<Rightarrow> bool" where
  "tracks cx c \<longleftrightarrow> (\<forall>svc. co_service c = Some svc \<longrightarrow> service_reach (cx_service cx) svc \<and>
     (\<forall>f. rs_active_fingerprint (co_runtime c) = Some f \<longrightarrow>
        (\<exists>p. planned cx p \<and> f = pl_fingerprint p \<and> cs_config svc = config_without_users (pl_config p))))"

lemma plan_ok: "plan (vx_externals (cx_service cx)) (cx_json cx) config = Inr p \<Longrightarrow> planned cx p \<and> pl_config p = config"
  by (auto simp: plan_def planned_def result_simps)

lemma tracksI: "service_reach (cx_service cx) svc \<Longrightarrow> planned cx p \<Longrightarrow> cs_config svc = config_without_users (pl_config p) \<Longrightarrow>
    co_service c = Some svc \<Longrightarrow> rs_active_fingerprint (co_runtime c) = Some (pl_fingerprint p) \<Longrightarrow> tracks cx c"
  by (auto simp: tracks_def)

lemma reload_tracks:
  assumes "planned cx p" "reload cx p c w = Some (r, c', w')"
  shows "tracks cx c'"
proof -
  obtain c1 w1 where s: "stop_service c w = (c1, w1)" by force
  obtain o1 w2 where o: "core_service_start (cx_service cx) (pl_config p) w1 = (o1, w2)" by force
  show ?thesis
  proof (cases o1)
    case (Inl e)
    moreover have "co_service c1 = None" using s by (auto simp: stop_service_def split: option.splits)
    ultimately show ?thesis
      using assms(2) s o by (auto simp: reload_def failed_def Let_def tracks_def split: option.splits)
  next
    case (Inr svc)
    then have "service_reach (cx_service cx) svc" "cs_config svc = config_without_users (pl_config p)"
      using o service_reach.start started_config by blast+
    then show ?thesis
      using assms s o Inr
      by (auto simp: reload_def applied_def apply_plan_def Let_def split: if_splits intro!: tracksI [of cx svc p])
  qed
qed

lemma updated_tracks:
  assumes "planned cx p" "service_reach (cx_service cx) svc" "cs_config svc = config_without_users (pl_config p)"
  shows "tracks cx (snd (updated p svc c))"
  using assms by (auto simp: updated_def applied_def apply_update_def Let_def intro!: tracksI [of cx svc p])

lemma updated_config:
  "update_users env cfg svc = Inr svc' \<Longrightarrow> cs_config svc' = config_without_users cfg"
  "update_routes_and_users env cfg svc = Inr svc' \<Longrightarrow> cs_config svc' = config_without_users cfg"
  "update_changed_listeners_and_users env cfg svc w = (Inr True, svc', w') \<Longrightarrow> cs_config svc' = config_without_users cfg"
  by (auto simp: update_users_def update_routes_and_users_def update_changed_listeners_and_users_def finish_update_def Let_def result_simps
      split: sum.splits if_splits option.splits prod.splits)

lemma refused_update_service:
  "update_changed_listeners_and_users env cfg svc w = (r, svc', w') \<Longrightarrow> r \<noteq> Inr True \<Longrightarrow> svc' = svc"
  by (auto simp: update_changed_listeners_and_users_def Let_def split: sum.splits if_splits option.splits prod.splits)

lemma update_or_reload_cases:
  assumes "update_or_reload cx p svc c w = Some (r, c', w')"
  obtains (users) svc' where "can_update_users svc (pl_config p)" "update_users (cx_service cx) (pl_config p) svc = Inr svc'"
      "c' = snd (updated p svc' c)" "w' = w"
    | (routes) svc' where "can_update_routes svc (pl_config p)" "update_routes_and_users (cx_service cx) (pl_config p) svc = Inr svc'"
      "c' = snd (updated p svc' c)" "w' = w"
    | (changed) svc' where "update_changed_listeners_and_users (cx_service cx) (pl_config p) svc w = (Inr True, svc', w')"
      "c' = snd (updated p svc' c)"
    | (reloaded) svc' w1 where "update_changed_listeners_and_users (cx_service cx) (pl_config p) svc w = (Inr False, svc', w1)"
      "reload cx p (c\<lparr>co_service := Some svc'\<rparr>) w1 = Some (r, c', w')"
    | (error) e msg svc' where "update_changed_listeners_and_users (cx_service cx) (pl_config p) svc w = (Inl e, svc', w')"
      "service_error_text e = Some msg" "(r, c') = failed msg (c\<lparr>co_service := Some svc'\<rparr>)"
proof -
  obtain o1 svc1 w1 where u: "update_changed_listeners_and_users (cx_service cx) (pl_config p) svc w = (o1, svc1, w1)" by (metis prod_cases3)
  show thesis
    using assms u users routes changed reloaded error
    by (cases o1) (auto simp: update_or_reload_def Let_def split: if_splits sum.splits bool.splits option.splits prod.splits)
qed

lemma update_or_reload_tracks:
  assumes "planned cx p" "tracks cx c" "co_service c = Some svc" "update_or_reload cx p svc c w = Some (r, c', w')"
  shows "tracks cx c'"
proof -
  have reach: "service_reach (cx_service cx) svc" using assms(2,3) by (simp add: tracks_def)
  from assms(4) show ?thesis
  proof (cases rule: update_or_reload_cases)
    case (users svc')
    then show ?thesis using updated_tracks [OF assms(1) service_reach.users [OF reach users(1,2)] updated_config(1) [OF users(2)]] by blast
  next
    case (routes svc')
    then show ?thesis using updated_tracks [OF assms(1) service_reach.routes_and_users [OF reach routes(1,2)] updated_config(2) [OF routes(2)]] by blast
  next
    case (changed svc')
    then show ?thesis using updated_tracks [OF assms(1) service_reach.changed [OF reach changed(1)] updated_config(3) [OF changed(1)]] by blast
  next
    case (reloaded svc' w1)
    then show ?thesis using reload_tracks [OF assms(1)] by blast
  next
    case (error e msg svc')
    then have "svc' = svc" using refused_update_service [OF error(1)] by simp
    then show ?thesis using error(3) assms(2,3) by (auto simp: failed_def runtime_fail_def tracks_def)
  qed
qed

lemma apply_config_tracks:
  assumes "tracks cx c" "apply_config cx config c w = Some (r, c', w')"
  shows "tracks cx c'"
proof (cases "plan (vx_externals (cx_service cx)) (cx_json cx) config")
  case (Inl e)
  then show ?thesis
    using assms by (cases e) (auto simp: apply_config_def failed_def runtime_fail_def tracks_def)
next
  case (Inr p)
  note p = plan_ok [OF Inr]
  show ?thesis
  proof (cases "needs_reload p (co_runtime c)")
    case False
    then have "c' = c\<lparr>co_runtime := (co_runtime c)\<lparr>rs_status := Running\<rparr>\<rparr>"
      using assms(2) Inr by (simp add: apply_config_def needs_reload_def applied_def apply_plan_def Let_def)
    then show ?thesis using assms(1) by (simp add: tracks_def)
  next
    case True
    then show ?thesis
      using assms Inr p reload_tracks [of cx p c w r c' w'] update_or_reload_tracks [of cx p c _ w r c' w']
      by (auto simp: apply_config_def split: option.splits)
  qed
qed

lemma keep_tracks:
  assumes "tracks cx c" "co_service c = Some svc" "service_reach (cx_service cx) svc'" "cs_config svc' = cs_config svc"
  shows "tracks cx (c\<lparr>co_service := Some svc'\<rparr>)"
  using assms by (simp add: tracks_def)

lemma activity_tracks:
  assumes "tracks cx c" "co_service c = Some svc"
  shows "tracks cx (c\<lparr>co_service := Some (svc\<lparr>cs_traffic := traffic, cs_sessions := sessions, cs_bandwidth := bandwidth, cs_tls_failures := failures\<rparr>)\<rparr>)"
  using assms by (intro keep_tracks [OF assms]) (auto simp: tracks_def intro: service_reach.activity)

lemma sessions_tracks:
  assumes "tracks cx c" "co_service c = Some svc"
  shows "tracks cx (c\<lparr>co_service := Some (svc\<lparr>cs_sessions := sessions\<rparr>)\<rparr>)"
  using activity_tracks [OF assms, where traffic = "cs_traffic svc" and sessions = sessions and bandwidth = "cs_bandwidth svc" and failures = "cs_tls_failures svc"] by simp

lemma traffic_tracks:
  assumes "tracks cx c" "co_service c = Some svc"
  shows "tracks cx (c\<lparr>co_service := Some (svc\<lparr>cs_traffic := traffic\<rparr>)\<rparr>)"
  using activity_tracks [OF assms, where traffic = traffic and sessions = "cs_sessions svc" and bandwidth = "cs_bandwidth svc" and failures = "cs_tls_failures svc"] by simp

lemma no_service_tracks [simp]: "co_service c = None \<Longrightarrow> tracks cx c"
  by (simp add: tracks_def)

lemma no_fingerprint_tracks:
  "rs_active_fingerprint (co_runtime c) = None \<Longrightarrow> co_service c = Some svc \<Longrightarrow> service_reach (cx_service cx) svc \<Longrightarrow> tracks cx c"
  by (simp add: tracks_def)

lemma delta_tracks:
  assumes "tracks cx c" "control_apply_user_delta cx ms tag delta c = Some (r, c')"
  shows "tracks cx c'"
  using assms by (auto simp: control_apply_user_delta_def Let_def apply_runtime_update_def tracks_def
      split: option.splits sum.splits verr.splits prod.splits intro: service_reach.delta)

lemma routes_tracks:
  assumes "tracks cx c" "apply_routes cfg c = (r, c')"
  shows "tracks cx c'"
  using assms by (auto simp: apply_routes_def applied_def Let_def apply_runtime_update_def tracks_def
      split: option.splits if_splits intro: service_reach.routes)

lemma handle_tracks:
  assumes "tracks cx c" "handle cx mo command c w = Some (r, c', w')"
  shows "tracks cx c'"
proof (cases command)
  case (ApplyConfig config)
  then show ?thesis using assms apply_config_tracks by (simp add: handle_def)
next
  case (ApplyRoutes config)
  then show ?thesis using assms by (auto simp: handle_def split: prod.splits intro: routes_tracks)
next
  case (ApplyUserDelta tag delta)
  then show ?thesis using assms by (auto simp: handle_def split: option.splits intro: delta_tracks)
next
  case (ApplyDeviceLimitSnapshot sn)
  then show ?thesis using assms sessions_tracks by (auto simp: handle_def control_device_limit_snapshot_def split: option.splits)
next
  case (CommitDeviceLimitReport records)
  then show ?thesis using assms sessions_tracks by (auto simp: handle_def control_device_limit_report_def split: option.splits)
next
  case (DrainTraffic minimum)
  then show ?thesis
    using assms traffic_tracks
    by (auto simp: handle_def control_drain_traffic_def service_drain_traffic_def runtime_drain_traffic_def split: option.splits prod.splits)
next
  case (RequeueTraffic records)
  then show ?thesis
    using assms traffic_tracks by (auto simp: handle_def control_requeue_traffic_def service_requeue_traffic_def split: option.splits)
next
  case Stop
  then show ?thesis
    using assms by (auto simp: handle_def control_stop_def stop_service_def split: option.splits prod.splits)
qed (use assms in \<open>auto simp: handle_def\<close>)

lemma reach_tracks: "control_reach cx c w \<Longrightarrow> tracks cx c"
proof (induction rule: control_reach.induct)
  case (new w)
  then show ?case by (simp add: controller_new_def)
qed (blast intro: handle_tracks activity_tracks)+


section \<open>Listeners of a reachable controller\<close>

definition lively :: "core_controller \<Rightarrow> world \<Rightarrow> bool" where
  "lively c w \<longleftrightarrow> world_ok w \<and> (\<forall>svc. co_service c = Some svc \<longrightarrow> \<not> cs_stopped svc \<and> (\<exists>others. runs others svc w))"

lemma start_not_stopped: "core_service_start env cfg w = (Inr svc, w') \<Longrightarrow> \<not> cs_stopped svc"
  by (auto simp: core_service_start_def Let_def split: sum.splits prod.splits)

lemma keep_lively:
  assumes "lively c w" "co_service c = Some svc" "ids svc' = ids svc \<and> cs_stopped svc' = cs_stopped svc" "co_service c' = Some svc'"
  shows "lively c' w"
  using assms runs_ids unfolding lively_def by (metis option.inject)

lemma stop_service_lively:
  assumes "lively c w" "stop_service c w = (c', w')"
  shows "world_ok w' \<and> co_service c' = None \<and> co_runtime c' = co_runtime c"
  using assms stop_runs by (cases "co_service c") (fastforce simp: lively_def stop_service_def)+

lemma reload_lively:
  assumes "lively c w" "reload cx p c w = Some (r, c', w')"
  shows "lively c' w'"
proof -
  obtain c1 w1 where s: "stop_service c w = (c1, w1)" by force
  note s1 = stop_service_lively [OF assms(1) s]
  obtain o1 w2 where o: "core_service_start (cx_service cx) (pl_config p) w1 = (o1, w2)" by force
  show ?thesis
  proof (cases o1)
    case (Inl e)
    then have "world_ok w2" using o s1 start_world_ok by blast
    then show ?thesis
      using assms(2) s s1 o Inl by (auto simp: reload_def failed_def Let_def lively_def split: option.splits)
  next
    case (Inr svc)
    then have "\<not> cs_stopped svc" "runs (mset (wd_running w1)) svc w2" using o s1 start_runs start_not_stopped by blast+
    then show ?thesis
      using assms(2) s o Inr by (auto simp: reload_def applied_def Let_def lively_def runs_def)
  qed
qed

lemma refresh_users_stopped: "refresh_users env ib srv svc = Inr (srv', svc') \<Longrightarrow> cs_stopped svc' = cs_stopped svc"
  by (auto simp: refresh_users_def result_simps split: if_splits)

lemma swap_listeners_stopped:
  "swap_listeners env active ibs hu = Inr hu' \<Longrightarrow> cs_stopped (hu_service hu') = cs_stopped (hu_service hu)"
proof (induction ibs arbitrary: hu)
  case (Cons ib ibs)
  show ?case
  proof (cases "hm_get (hu_new hu) (ib_tag ib)")
    case (Some h)
    with Cons.IH [of "install_new env ib h hu"] Cons.prems show ?thesis by (simp add: install_new_def)
  next
    case None
    then show ?thesis
      using Cons.prems Cons.IH by (cases "hm_get (hu_old hu) (ib_tag ib)") (fastforce simp: keep_old_def result_simps dest: refresh_users_stopped)+
  qed
qed simp

lemma drop_old_stopped: "cs_stopped (fst (fold (drop_old desired) old (svc, w))) = cs_stopped svc"
  by (induction old arbitrary: svc w) (auto simp: drop_old_def split: if_splits)

lemma hot_update_stopped:
  assumes "update_changed_listeners_and_users env cfg svc w = (Inr True, svc', w')"
  shows "cs_stopped svc' = cs_stopped svc"
proof -
  from assms obtain hu new w1 old where
    swap: "swap_listeners env (config_without_users cfg) (cc_inbounds cfg) \<lparr>hu_service = svc, hu_new = new, hu_old = old, hu_listeners = [], hu_world = w1\<rparr> = Inr hu"
    and fin: "(svc', w') = finish_update (config_without_users cfg) hu"
    by (auto simp: update_changed_listeners_and_users_def Let_def split: sum.splits if_splits option.splits prod.splits)
  show ?thesis
    using swap_listeners_stopped [OF swap] fin drop_old_stopped [of "map ib_tag (cc_inbounds (config_without_users cfg))" "hu_old hu" "hu_service hu" "hu_world hu"]
    by (auto simp: finish_update_def Let_def split: prod.splits)
qed

lemma updated_service [simp]: "co_service (snd (updated p svc c)) = Some svc"
  by (simp add: updated_def applied_def Let_def)

lemma service_error_text_crash: "service_error_text e = Some msg \<Longrightarrow> e \<noteq> Crash"
  by auto

lemma update_or_reload_lively:
  assumes "tracks cx c" "lively c w" "co_service c = Some svc" "update_or_reload cx p svc c w = Some (r, c', w')"
  shows "lively c' w'"
proof -
  have reach: "service_reach (cx_service cx) svc" using assms(1,3) by (simp add: tracks_def)
  have live: "\<not> cs_stopped svc" "world_ok w" "\<exists>others. runs others svc w" using assms(2,3) by (simp_all add: lively_def)
  from assms(4) show ?thesis
  proof (cases rule: update_or_reload_cases)
    case (users svc')
    then show ?thesis using keep_lively [OF assms(2,3) update_ids(1) [OF users(2)]] by simp
  next
    case (routes svc')
    then show ?thesis using keep_lively [OF assms(2,3) update_ids(2) [OF routes(2)]] by simp
  next
    case (changed svc')
    have "distinct (map lh_tag (cs_listeners svc))" using reach_follows [OF reach] follows_tags by (metis follows_def)
    then have "\<exists>others. runs others svc' w'" using live(3) hot_update_runs [OF _ _ changed(1)] by blast
    then show ?thesis using changed live(1) hot_update_stopped [OF changed(1)] by (auto simp: lively_def runs_def)
  next
    case (reloaded svc' w1)
    have "svc' = svc \<and> world_ok w1 \<and> wd_running w1 = wd_running w"
      using refused_update_world_ok [OF reloaded(1) live(2)] by simp
    then have "lively (c\<lparr>co_service := Some svc'\<rparr>) w1" using live by (simp add: lively_def runs_def)
    then show ?thesis using reload_lively reloaded(2) by blast
  next
    case (error e msg svc')
    have "svc' = svc \<and> world_ok w' \<and> wd_running w' = wd_running w"
      using refused_update_world_ok [OF error(1) live(2)] service_error_text_crash [OF error(2)] by simp
    then show ?thesis using error(3) live by (simp add: failed_def lively_def runs_def)
  qed
qed

lemma runtime_lively [simp]: "lively (c\<lparr>co_runtime := rs\<rparr>) w = lively c w" "lively (c\<lparr>co_metrics := m\<rparr>) w = lively c w"
  by (simp_all add: lively_def)

lemma apply_config_lively:
  assumes "tracks cx c" "lively c w" "apply_config cx config c w = Some (r, c', w')"
  shows "lively c' w'"
proof (cases "plan (vx_externals (cx_service cx)) (cx_json cx) config")
  case (Inl e)
  then show ?thesis using assms by (cases e) (auto simp: apply_config_def failed_def)
next
  case (Inr p)
  show ?thesis
  proof (cases "needs_reload p (co_runtime c)")
    case False
    then show ?thesis using assms Inr by (auto simp: apply_config_def applied_def Let_def)
  next
    case True
    then show ?thesis
      using assms Inr by (cases "co_service c") (auto simp: apply_config_def intro: reload_lively update_or_reload_lively)
  qed
qed

lemma delta_lively:
  assumes "lively c w" "control_apply_user_delta cx ms tag delta c = Some (r, c')"
  shows "lively c' w"
  using assms keep_lively [OF assms(1)] delta_ids
  by (fastforce simp: control_apply_user_delta_def Let_def split: option.splits sum.splits verr.splits prod.splits)

lemma routes_lively:
  assumes "lively c w" "apply_routes cfg c = (r, c')"
  shows "lively c' w"
proof (cases "co_service c")
  case (Some svc)
  from keep_lively [OF assms(1) Some update_routes_ids, of "c\<lparr>co_service := Some (update_routes cfg svc)\<rparr>" cfg]
  show ?thesis using assms Some by (auto simp: apply_routes_def applied_def Let_def split: if_splits)
qed (use assms in \<open>simp add: apply_routes_def\<close>)

lemma activity_lively:
  assumes "lively c w" "co_service c = Some svc" "cs_listeners svc' = cs_listeners svc" "cs_stopped svc' = cs_stopped svc"
  shows "lively (c\<lparr>co_service := Some svc'\<rparr>) w"
  using assms by (simp add: lively_def runs_def)

lemma handle_lively:
  assumes "tracks cx c" "lively c w" "handle cx mo command c w = Some (r, c', w')"
  shows "lively c' w'"
proof (cases command)
  case (ApplyConfig config)
  then show ?thesis using assms apply_config_lively by (simp add: handle_def)
next
  case (ApplyRoutes config)
  then show ?thesis using assms by (auto simp: handle_def split: prod.splits intro: routes_lively)
next
  case (ApplyUserDelta tag delta)
  then show ?thesis using assms by (auto simp: handle_def split: option.splits intro: delta_lively)
next
  case (ApplyDeviceLimitSnapshot sn)
  then show ?thesis using assms activity_lively by (auto simp: handle_def control_device_limit_snapshot_def split: option.splits)
next
  case (CommitDeviceLimitReport records)
  then show ?thesis using assms activity_lively by (auto simp: handle_def control_device_limit_report_def split: option.splits)
next
  case (DrainTraffic minimum)
  then show ?thesis
    using assms activity_lively
    by (auto simp: handle_def control_drain_traffic_def service_drain_traffic_def runtime_drain_traffic_def split: option.splits prod.splits)
next
  case (RequeueTraffic records)
  then show ?thesis
    using assms activity_lively by (auto simp: handle_def control_requeue_traffic_def service_requeue_traffic_def split: option.splits)
next
  case Stop
  obtain c1 w1 where s: "stop_service c w = (c1, w1)" by force
  then show ?thesis using Stop assms(3) stop_service_lively [OF assms(2) s] by (auto simp: handle_def control_stop_def lively_def)
qed (use assms in \<open>auto simp: handle_def\<close>)

lemma reach_lively: "control_reach cx c w \<Longrightarrow> lively c w"
proof (induction rule: control_reach.induct)
  case (new w)
  then show ?case by (simp add: lively_def controller_new_def)
next
  case (command c w mo command r c' w')
  then show ?case using handle_lively reach_tracks by blast
next
  case (activity c w svc traffic sessions bandwidth failures)
  then show ?case using activity_lively by simp
qed

text \<open>
  C7. Every listener the controller reports has its accept loop running, whatever commands have been handled,
  failed reloads and refused updates included.
\<close>

theorem reported_listeners_run:
  assumes "control_reach cx c w" "co_service c = Some svc"
  shows "lh_id ` set (cs_listeners svc) \<subseteq> set (wd_running w)"
proof -
  from reach_lively [OF assms(1)] assms(2) obtain others where "runs others svc w" by (auto simp: lively_def)
  then have "mset (map lh_id (cs_listeners svc)) \<subseteq># mset (wd_running w)" by (simp add: runs_def loops_of_def)
  then show ?thesis by (metis list.set_map set_mset_mono set_mset_mset)
qed

text \<open>
  C9. Stopping ends the accept loop of every listener of the service, reports no listener and leaves the status
  stopped.
\<close>

theorem stop_ends_listeners:
  assumes "control_reach cx c w" "co_service c = Some svc" "handle cx mo Stop c w = Some (r, c', w')"
  shows "lh_id ` set (cs_listeners svc) \<inter> set (wd_running w') = {} \<and> controller_listeners c' = [] \<and> rs_status (co_runtime c') = Stopped"
proof -
  have live: "\<not> cs_stopped svc" using reach_lively [OF assms(1)] assms(2) by (simp add: lively_def)
  have w': "w' = fold stop_listener_handle (cs_listeners svc) w"
    and c': "c' = c\<lparr>co_service := None, co_runtime := runtime_stop (co_runtime c)\<rparr>"
    using assms(2,3) live by (auto simp: handle_def control_stop_def stop_service_def core_service_stop_def)
  have "set (wd_running w') = {k \<in> set (wd_running w). k \<notin> lh_id ` set (cs_listeners svc)}" by (simp add: w' stop_handles)
  then show ?thesis by (auto simp: c' controller_listeners_def runtime_stop_def)
qed

section \<open>Failed reloads\<close>

lemma error_keeps_fingerprint:
  assumes "apply_config cx cfg c w = Some (ErrorReply msg, c', w')"
  shows "rs_active_fingerprint (co_runtime c') = rs_active_fingerprint (co_runtime c)"
proof -
  have reload: "rs_active_fingerprint (co_runtime c2) = rs_active_fingerprint (co_runtime c1)"
    if "reload cx p c1 w1 = Some (ErrorReply msg, c2, w2)" for p c1 w1 c2 w2
    using that by (auto simp: reload_def stop_service_def failed_def applied_def runtime_fail_def Let_def
        split: option.splits sum.splits prod.splits)
  show ?thesis
    using assms
    by (auto simp: apply_config_def update_or_reload_def updated_def failed_def applied_def runtime_fail_def Let_def
        split: option.splits sum.splits prod.splits verr.splits if_splits bool.splits dest!: reload)
qed

text \<open>
  A reload that fails after the old service was stopped leaves no service but keeps the old fingerprint.
  Applying the old configuration again then does nothing, answers that the core is running, and opens no listener.
\<close>

theorem noop_after_failed_reload:
  assumes "rs_active_fingerprint (co_runtime c) = Some (fingerprint_config (cx_json cx) old)"
    and "validate (vx_externals (cx_service cx)) old = Inr ()"
    and "handle cx mo (ApplyConfig new) c w = Some (ErrorReply msg, c1, w1)" "co_service c1 = None"
  shows "\<exists>c2. handle cx mo' (ApplyConfig old) c1 w1 = Some (Applied ''noop'' Running [], c2, w1) \<and> co_service c2 = None"
proof -
  have "rs_active_fingerprint (co_runtime c1) = Some (fingerprint_config (cx_json cx) old)"
    using assms(1,3) error_keeps_fingerprint by (simp add: handle_def)
  then show ?thesis
    using assms(2,4)
    by (simp add: handle_def apply_config_def plan_def and_then_def needs_reload_def applied_def apply_plan_def decision_name_def
        controller_listeners_def Let_def)
qed

section \<open>Traffic across a reload\<close>

lemma reload_applied:
  assumes "reload cx p c w = Some (Applied d st ls, c', w')"
  shows "\<exists>svc. co_service c' = Some svc \<and> cs_traffic svc = traffic_default"
  using assms by (auto simp: reload_def stop_service_def failed_def applied_def core_service_start_def Let_def
      split: option.splits sum.splits prod.splits)

lemma reloaded_service:
  assumes "apply_config cx cfg c w = Some (Applied ''reloaded'' st ls, c', w')"
  shows "\<exists>svc. co_service c' = Some svc \<and> cs_traffic svc = traffic_default"
  using assms
  by (auto simp: apply_config_def update_or_reload_def updated_def failed_def applied_def apply_update_def apply_plan_def
      needs_reload_def decision_name_def Let_def
      split: option.splits sum.splits prod.splits verr.splits if_splits bool.splits dest!: reload_applied)

lemma held_default: "held dir key traffic_default = 0"
  by (simp add: held_def traffic_default_def)

text \<open>
  A reload starts with empty traffic counters: whatever the old service had counted and not yet handed out is
  held nowhere afterwards.
\<close>

theorem reload_drops_traffic:
  assumes "handle cx mo (ApplyConfig cfg) c w = Some (Applied ''reloaded'' st ls, c', w')"
  shows "\<exists>svc. co_service c' = Some svc \<and> (\<forall>dir key. held dir key (cs_traffic svc) = 0)"
  using reloaded_service assms held_default by (fastforce simp: handle_def)

section \<open>A controller at work\<close>

definition example_cx :: control_env where
  "example_cx = \<lparr>cx_service = example_senv, cx_json = cc_log_level, cx_traffic_hash = (\<lambda>_. 0)\<rparr>"

definition example_moment :: moment where
  "example_moment = \<lparr>mo_now = 0, mo_elapsed_ms = 3, mo_tcp_auth = no_backoff, mo_quic = (\<lambda>_. []), mo_readings = []\<rparr>"

definition example_controller :: core_controller where
  "example_controller = \<lparr>co_runtime = \<lparr>rs_active_fingerprint = Some (fingerprint_config cc_log_level (two_inbounds 1081)),
       rs_status = Running, rs_traffic = traffic_default\<rparr>,
     co_service = Some example_service, co_metrics = default_metrics\<rparr>"

lemma example_valid: "validate (vx_externals (cx_service example_cx)) (two_inbounds 1081) = Inr ()"
  using check_config_ok [OF two_inbounds_ok(1)] by (simp add: example_cx_def)

lemma example_applied:
  "handle example_cx example_moment (ApplyConfig (two_inbounds 1081)) controller_new idle_world =
     Some (Applied ''reloaded'' Running (listeners example_service), example_controller, example_running)"
  using example_valid example_started
  by (simp add: handle_def apply_config_def plan_def and_then_def needs_reload_def controller_new_def runtime_new_def reload_def
      stop_service_def applied_def apply_plan_def decision_name_def controller_listeners_def example_controller_def example_cx_def
      example_running_def Let_def)

lemma example_reach: "control_reach example_cx example_controller example_running"
proof (rule control_reach.command)
  show "control_reach example_cx controller_new idle_world"
    by (rule control_reach.new) (simp add: world_ok_def world_wf_def idle_world_def)
qed (rule example_applied)


theorem reported_listeners_run_witness: "lh_id ` set (cs_listeners example_service) \<subseteq> set (wd_running example_running)"
  by (rule reported_listeners_run [OF example_reach]) (simp add: example_controller_def)

theorem stop_ends_listeners_witness:
  "\<exists>c w. handle example_cx example_moment Stop example_controller example_running = Some (StoppedReply, c, w) \<and>
     lh_id ` set (cs_listeners example_service) \<inter> set (wd_running w) = {}"
proof -
  obtain c w where s: "handle example_cx example_moment Stop example_controller example_running = Some (StoppedReply, c, w)"
    by (cases "stop_service example_controller example_running") (simp add: handle_def control_stop_def)
  from stop_ends_listeners [OF example_reach _ s] s show ?thesis by (simp add: example_controller_def)
qed

definition debug_config :: "u16 \<Rightarrow> core_config" where
  "debug_config port = (two_inbounds port)\<lparr>cc_log_level := ''debug''\<rparr>"

lemma failing_reload:
  "case handle example_cx example_moment (ApplyConfig (debug_config 1)) example_controller example_running of
     None \<Rightarrow> False | Some (r, c, w) \<Rightarrow> r = ErrorReply ''failed to bind inbound in2: permission denied'' \<and> Option.is_none (co_service c)"
  by code_simp

theorem noop_after_failed_reload_witness:
  "\<exists>c1 w1 c2. handle example_cx example_moment (ApplyConfig (debug_config 1)) example_controller example_running =
       Some (ErrorReply ''failed to bind inbound in2: permission denied'', c1, w1) \<and>
     handle example_cx example_moment (ApplyConfig (two_inbounds 1081)) c1 w1 = Some (Applied ''noop'' Running [], c2, w1)"
proof -
  obtain c1 w1 where h: "handle example_cx example_moment (ApplyConfig (debug_config 1)) example_controller example_running =
       Some (ErrorReply ''failed to bind inbound in2: permission denied'', c1, w1)" "co_service c1 = None"
    using failing_reload by (auto split: option.splits simp: Option.is_none_def)
  from noop_after_failed_reload [OF _ example_valid h, of example_moment] h(1) show ?thesis
    by (auto simp: example_controller_def example_cx_def)
qed

definition counting_controller :: core_controller where
  "counting_controller = example_controller\<lparr>co_service := Some (example_service\<lparr>cs_traffic := example_registry\<rparr>)\<rparr>"

lemma reload_reply:
  "case handle example_cx example_moment (ApplyConfig (debug_config 1081)) counting_controller example_running of
     None \<Rightarrow> False | Some (r, c, w) \<Rightarrow> r = Applied ''reloaded'' Running (listeners example_service)"
  by code_simp

theorem reload_drops_traffic_witness:
  "held Upload \<lparr>tk_node_tag = ''n'', tk_user_uuid = ''b''\<rparr> example_registry = 5 \<and>
   (\<exists>r c w svc. handle example_cx example_moment (ApplyConfig (debug_config 1081)) counting_controller example_running = Some (r, c, w) \<and>
      co_service c = Some svc \<and> held Upload \<lparr>tk_node_tag = ''n'', tk_user_uuid = ''b''\<rparr> (cs_traffic svc) = 0)"
proof -
  obtain c w where h: "handle example_cx example_moment (ApplyConfig (debug_config 1081)) counting_controller example_running =
       Some (Applied ''reloaded'' Running (listeners example_service), c, w)"
    using reload_reply by (auto split: option.splits)
  have "held Upload \<lparr>tk_node_tag = ''n'', tk_user_uuid = ''b''\<rparr> example_registry = 5" by code_simp
  then show ?thesis using reload_drops_traffic [OF h] h by blast
qed

lemma unchecked_routes_accepted:
  "validate example_ext (two_inbounds 1081\<lparr>cc_outbounds := []\<rparr>) \<noteq> Inr ()"
  "fst (apply_routes (two_inbounds 1081\<lparr>cc_outbounds := []\<rparr>) example_controller) = Applied ''updated'' Running (listeners example_service)"
  by code_simp+

end
