(* ===== verification/Socks5.thy ===== *)
theory Socks5
  imports Servers Wire
begin

text \<open>
  The SOCKS5 handshake, request and UDP framing of \<^verbatim>\<open>src/socks5.rs\<close>: method selection, user name and password
  authentication against the users of the server, the command request, and the UDP datagram header in both
  directions. Connecting to the target and relaying are not part of it.
\<close>

section \<open>Data\<close>

abbreviation socks5_version :: char where "socks5_version \<equiv> CHR 0x05"
abbreviation auth_none :: char where "auth_none \<equiv> CHR 0x00"
abbreviation auth_password :: char where "auth_password \<equiv> CHR 0x02"
abbreviation auth_no_matching_method :: char where "auth_no_matching_method \<equiv> CHR 0xFF"
abbreviation cmd_connect :: char where "cmd_connect \<equiv> CHR 0x01"
abbreviation cmd_udp_associate :: char where "cmd_udp_associate \<equiv> CHR 0x03"
abbreviation status_command_not_supported :: char where "status_command_not_supported \<equiv> CHR 0x07"
abbreviation status_address_not_supported :: char where "status_address_not_supported \<equiv> CHR 0x08"
abbreviation atyp_ipv4 :: char where "atyp_ipv4 \<equiv> CHR 0x01"
abbreviation atyp_domain :: char where "atyp_domain \<equiv> CHR 0x03"
abbreviation atyp_ipv6 :: char where "atyp_ipv6 \<equiv> CHR 0x04"

record socks_target =
  so_host :: string
  so_port :: u16

datatype socks_command = Connect | UdpAssociate

record socks_request =
  sq_command :: socks_command
  sq_user_uuid :: "string option"
  sq_user_id :: "u64 option"
  sq_target :: socks_target
  sq_client_ip :: "ip_addr option"

section \<open>Reading and writing\<close>

definition read_exact_vec :: "nat \<Rightarrow> bytes io" where
  "read_exact_vec n = read_exact n"

definition read_string :: "nat \<Rightarrow> string io" where
  "read_string n = io_bind (read_exact_vec n) (\<lambda>bs.
     if utf8_valid bs then io_return bs else io_fail InvalidData ''invalid utf-8'')"

definition write_socks5_response_with_bind :: "char \<Rightarrow> ip_addr \<Rightarrow> u16 \<Rightarrow> unit io" where
  "write_socks5_response_with_bind status ip port =
     write_all ([socks5_version, status, CHR 0x00] @
       (case ip of V4 _ \<Rightarrow> [atyp_ipv4] | V6 _ \<Rightarrow> [atyp_ipv6]) @ ip_octets ip @ be16 port)"

definition write_socks5_response :: "char \<Rightarrow> unit io" where
  "write_socks5_response status = write_socks5_response_with_bind status (V4 0) 0"

section \<open>Authentication\<close>

definition select_auth_method :: "server \<Rightarrow> bytes \<Rightarrow> char" where
  "select_auth_method srv methods =
     (let required = (if se_auth_required srv then auth_password else auth_none) in
      case find (\<lambda>m. m = required) methods of Some m \<Rightarrow> m | None \<Rightarrow> auth_no_matching_method)"

definition socks_user :: "server \<Rightarrow> string \<Rightarrow> core_user option" where
  "socks_user srv username = hm_get (table_map (se_table srv)) username"

definition answer_password :: "server \<Rightarrow> string \<Rightarrow> string \<Rightarrow> core_user io" where
  "answer_password srv username password =
     (let denied = io_bind (write_all [CHR 0x01, CHR 0xFF])
                     (\<lambda>_. io_fail PermissionDenied ''invalid username or password'') in
      case socks_user srv username of
        Some user \<Rightarrow>
          (if credential user = password then io_bind (write_all [CHR 0x01, CHR 0x00]) (\<lambda>_. io_return user)
           else denied)
      | None \<Rightarrow> denied)"

definition read_password_auth :: "server \<Rightarrow> core_user io" where
  "read_password_auth srv =
     io_bind (read_exact 2) (\<lambda>version_and_len.
     if version_and_len ! 0 \<noteq> CHR 0x01 then
       io_bind (write_all [CHR 0x01, CHR 0xFF]) (\<lambda>_. io_fail InvalidData ''unsupported username/password auth version'')
     else
       io_bind (read_string (byte_value (version_and_len ! 1))) (\<lambda>username.
       io_bind (read_exact 1) (\<lambda>password_len.
       io_bind (read_string (byte_value (password_len ! 0))) (\<lambda>password.
         answer_password srv username password))))"

section \<open>Requests\<close>

definition read_socks_command :: "bytes \<Rightarrow> socks_command io" where
  "read_socks_command header =
     (if header ! 1 = cmd_connect then io_return Connect
      else if header ! 1 = cmd_udp_associate then io_return UdpAssociate
      else io_bind (write_socks5_response status_command_not_supported)
             (\<lambda>_. io_fail Unsupported ''only socks connect and udp associate are supported''))"

definition read_socks_host :: "char \<Rightarrow> string io" where
  "read_socks_host atyp =
     (if atyp = atyp_ipv4 then io_bind (read_exact 4) (\<lambda>bs. io_return (show_ip (ipv4_from_bytes bs)))
      else if atyp = atyp_ipv6 then io_bind (read_exact 16) (\<lambda>bs. io_return (show_ip (ipv6_from_bytes bs)))
      else if atyp = atyp_domain then io_bind (read_exact 1) (\<lambda>len. read_string (byte_value (len ! 0)))
      else io_bind (write_socks5_response status_address_not_supported)
             (\<lambda>_. io_fail InvalidData ''unsupported socks address type''))"

definition read_command_request :: "string option \<Rightarrow> u64 option \<Rightarrow> socks_request io" where
  "read_command_request user_uuid user_id =
     io_bind (read_exact 4) (\<lambda>header.
     if header ! 0 \<noteq> socks5_version then io_fail InvalidData ''unsupported request version''
     else io_bind (read_socks_command header) (\<lambda>command.
       if command = UdpAssociate \<and> header ! 2 \<noteq> CHR 0x00 then
         io_bind (write_socks5_response status_command_not_supported)
           (\<lambda>_. io_fail Unsupported ''socks udp associate request has invalid reserved byte'')
       else
         io_bind (read_socks_host (header ! 3)) (\<lambda>host.
         io_bind (read_exact 2) (\<lambda>port.
           io_return \<lparr>sq_command = command, sq_user_uuid = user_uuid, sq_user_id = user_id,
                      sq_target = \<lparr>so_host = host, so_port = u16_from_be port\<rparr>, sq_client_ip = None\<rparr>))))"

text \<open>The last arm of the match on the selected method is \<^verbatim>\<open>unreachable!\<close>.\<close>

definition socks_authenticate :: "server \<Rightarrow> char \<Rightarrow> core_user option io" where
  "socks_authenticate srv selected_method =
     (if selected_method = auth_none then io_return None
      else if selected_method = auth_password then io_bind (read_password_auth srv) (\<lambda>u. io_return (Some u))
      else if selected_method = auth_no_matching_method then io_fail PermissionDenied ''no matching socks auth method''
      else io_lift (Inl Abort))"

definition socks_read_request :: "server \<Rightarrow> socks_request io" where
  "socks_read_request srv =
     io_bind (read_exact 2) (\<lambda>header.
     if header ! 0 \<noteq> socks5_version then io_fail InvalidData ''unsupported socks version''
     else
       io_bind (read_exact_vec (byte_value (header ! 1))) (\<lambda>methods.
       let selected_method = select_auth_method srv methods in
       io_bind (write_all [socks5_version, selected_method]) (\<lambda>_.
       io_bind (socks_authenticate srv selected_method) (\<lambda>user.
       read_command_request (map_option cu_uuid user) (map_option cu_id user)))))"

definition request_user :: "server \<Rightarrow> socks_request \<Rightarrow> core_user option" where
  "request_user srv rq = (case sq_user_uuid rq of None \<Rightarrow> None | Some uuid \<Rightarrow> socks_user srv uuid)"

section \<open>UDP datagrams\<close>

definition udp_host :: "bytes \<Rightarrow> io_error + string \<times> nat" where
  "udp_host input =
     (let n = length input; offset = 4; eof = (\<lambda>msg. Inl (Io UnexpectedEof msg)) in
      if input ! 3 = atyp_ipv4 then
        (if n < offset + 4 then eof ''truncated socks udp ipv4 address''
         else Inr (show_ip (ipv4_from_bytes (take 4 (drop offset input))), offset + 4))
      else if input ! 3 = atyp_ipv6 then
        (if n < offset + 16 then eof ''truncated socks udp ipv6 address''
         else Inr (show_ip (ipv6_from_bytes (take 16 (drop offset input))), offset + 16))
      else if input ! 3 = atyp_domain then
        (if n < offset + 1 then eof ''truncated socks udp domain length''
         else let len = byte_value (input ! offset); offset = offset + 1 in
              if n < offset + len then eof ''truncated socks udp domain''
              else let host = take len (drop offset input) in
                   if utf8_valid host then Inr (host, offset + len)
                   else Inl (Io InvalidData ''invalid utf-8''))
      else Inl (Io InvalidData ''unsupported socks udp address type''))"

definition parse_udp_request :: "bytes \<Rightarrow> io_error + socks_target \<times> bytes" where
  "parse_udp_request input =
     (if length input < 4 \<or> input ! 0 \<noteq> CHR 0x00 \<or> input ! 1 \<noteq> CHR 0x00 then
        Inl (Io InvalidData ''invalid socks udp request header'')
      else if input ! 2 \<noteq> CHR 0x00 then Inl (Io Unsupported ''fragmented socks udp packets are not supported'')
      else case udp_host input of
        Inl e \<Rightarrow> Inl e
      | Inr (host, offset) \<Rightarrow>
          (if length input < offset + 2 then Inl (Io UnexpectedEof ''truncated socks udp port'')
           else Inr (\<lparr>so_host = host, so_port = u16_from_be [input ! offset, input ! (offset + 1)]\<rparr>,
                     drop (offset + 2) input)))"

definition encode_udp_response :: "ip_addr \<Rightarrow> u16 \<Rightarrow> bytes \<Rightarrow> bytes" where
  "encode_udp_response ip port payload =
     [CHR 0x00, CHR 0x00, CHR 0x00] @ (case ip of V4 _ \<Rightarrow> [atyp_ipv4] | V6 _ \<Rightarrow> [atyp_ipv6]) @
     ip_octets ip @ be16 port @ payload"

section \<open>Datagrams round trip\<close>

lemma u16_be16_nth: "u16_from_be [be16 p ! 0, be16 p ! 1] = p"
proof -
  have "be16 p = [be16 p ! 0, be16 p ! 1]" by (simp add: list_eq_iff_nth_eq less_Suc_eq numeral_2_eq_2)
  then show ?thesis using u16_be16 [of p] by simp
qed

text \<open>
  C28. A datagram the server sends is read by the same format a client's datagram is read by: the parser returns
  the address in its text form, the port, and exactly the payload, for IPv4 and IPv6.
\<close>

theorem socks_udp_roundtrip:
  "parse_udp_request (encode_udp_response ip port payload) = Inr (\<lparr>so_host = show_ip ip, so_port = port\<rparr>, payload)"
proof (cases ip)
  case (V4 w)
  then show ?thesis
    using u16_be16_nth [of port]
    by (simp add: parse_udp_request_def encode_udp_response_def udp_host_def Let_def nth_append)
next
  case (V6 w)
  then show ?thesis
    using u16_be16_nth [of port]
    by (simp add: parse_udp_request_def encode_udp_response_def udp_host_def Let_def nth_append)
qed

section \<open>Who is let in\<close>

lemma read_exact_vec_ok [io_simps]:
  "read_exact_vec n s = (Inr bs, t) \<longleftrightarrow> (\<exists>rest. length bs = n \<and> sm_input s = bs @ rest \<and> t = s\<lparr>sm_input := rest\<rparr>)"
  by (simp add: read_exact_vec_def read_exact_ok)

lemma read_string_ok [io_simps]:
  "read_string n s = (Inr bs, t) \<longleftrightarrow>
     (\<exists>rest. length bs = n \<and> utf8_valid bs \<and> sm_input s = bs @ rest \<and> t = s\<lparr>sm_input := rest\<rparr>)"
  by (auto simp: read_string_def io_simps split: if_splits)

lemma answer_password_ok [io_simps]:
  "answer_password srv username password s = (Inr user, t) \<longleftrightarrow>
     socks_user srv username = Some user \<and> credential user = password \<and>
     t = s\<lparr>sm_output := sm_output s @ [CHR 0x01, CHR 0x00]\<rparr>"
  by (auto simp: answer_password_def Let_def io_simps split: option.split)

lemma read_password_auth_ok:
  assumes "read_password_auth srv s = (Inr user, t)"
  shows "\<exists>n username l. sm_input s = CHR 0x01 # n # username @ l # credential user @ sm_input t \<and>
    byte_value n = length username \<and> byte_value l = length (credential user) \<and> socks_user srv username = Some user"
  using assms by (auto simp: read_password_auth_def io_simps split: if_splits)

lemma socks_authenticate_ok [io_simps]:
  "socks_authenticate srv m s = (Inr x, t) \<longleftrightarrow>
     m = auth_none \<and> x = None \<and> t = s \<or> m = auth_password \<and> (\<exists>user. x = Some user \<and> read_password_auth srv s = (Inr user, t))"
  by (auto simp: socks_authenticate_def io_simps)

lemma read_command_request_user:
  "read_command_request uuid uid s = (Inr rq, t) \<Longrightarrow> sq_user_uuid rq = uuid"
  by (auto simp: read_command_request_def io_simps split: if_splits)


definition socks_server :: server where
  "socks_server = socks5_with_shared_limits [example_user ''u'' ''p''] []"

definition socks_connect :: bytes where
  "socks_connect = [CHR 0x05, CHR 0x01, CHR 0x02, CHR 0x01, CHR 0x01, CHR ''u'', CHR 0x01, CHR ''p'',
     CHR 0x05, CHR 0x01, CHR 0x00, CHR 0x03, CHR 0x01, CHR ''h'', CHR 0x01, CHR 0xBB]"

definition socks_connect_request :: socks_request where
  "socks_connect_request = \<lparr>sq_command = Connect, sq_user_uuid = Some ''u'', sq_user_id = Some 7,
    sq_target = \<lparr>so_host = ''h'', so_port = 443\<rparr>, sq_client_ip = None\<rparr>"


section \<open>The method is fixed when the server is built\<close>

inductive server_updated :: "server_env \<Rightarrow> server \<Rightarrow> server \<Rightarrow> bool" for sx srv0 where
  start: "server_updated sx srv0 srv0"
| users: "server_updated sx srv0 srv \<Longrightarrow> replace_users sx users srv lms = Inr (srv', lms') \<Longrightarrow> server_updated sx srv0 srv'"
| routes: "server_updated sx srv0 srv \<Longrightarrow> server_updated sx srv0 (replace_routes routes srv)"
| delta: "server_updated sx srv0 srv \<Longrightarrow> apply_user_delta sx delta srv lms = Inr (r, srv', lms') \<Longrightarrow> server_updated sx srv0 srv'"

lemma updated_auth: "server_updated sx srv0 srv \<Longrightarrow> se_auth_required srv = se_auth_required srv0"
  by (induction rule: server_updated.induct) (auto simp: replace_routes_def dest: server_auth_kept)

text \<open>
  The authentication a SOCKS inbound asks for depends only on whether it had users when it was started. Started
  with users, it never admits a client without a password, even after the last user is deleted. Started without,
  it refuses every client that offers only a password, even one of a user added since, and admits the others
  without one.
\<close>

theorem socks_method_fixed_at_start:
  assumes "new_server sx Socks users routes = Inr srv0" "server_updated sx srv0 srv"
  shows "select_auth_method srv methods =
    (let required = (if users = [] then auth_none else auth_password)
     in if required \<in> set methods then required else auth_no_matching_method)"
proof -
  have "se_auth_required srv = (users \<noteq> [])"
    using updated_auth [OF assms(2)] new_server_frame [OF assms(1)] by simp
  then show ?thesis
    by (auto simp: select_auth_method_def Let_def find_Some_iff find_None_iff split: option.split) (metis nth_mem)+
qed

definition add_u :: core_user_delta where
  "add_u = \<lparr>d_added = [example_user ''u'' ''p''], d_updated = [], d_deleted = [], d_full = None,
     d_base_revision = None, d_revision = None\<rparr>"

definition open_socks_server :: server where
  "open_socks_server = socks5_with_shared_limits [] []"

definition open_socks_server_with_u :: server where
  "open_socks_server_with_u = open_socks_server\<lparr>se_table := Uuid_Store [(''u'', example_user ''u'' ''p'')]\<rparr>"

theorem socks_method_fixed_at_start_witness:
  "socks_user open_socks_server_with_u ''u'' = Some (example_user ''u'' ''p'') \<and>
   select_auth_method open_socks_server_with_u [auth_password] = auth_no_matching_method \<and>
   select_auth_method open_socks_server_with_u [auth_none] = auth_none"
proof -
  have new: "new_server example_env Socks [] [] = Inr open_socks_server" by code_simp
  have "fst (apply_uuid_delta add_u []) = [(''u'', example_user ''u'' ''p'')]" by code_simp
  then have "apply_user_delta example_env add_u open_socks_server (default_limiters, default_tracker) =
      Inr (snd (apply_uuid_delta add_u []), open_socks_server_with_u,
        sync_user_limit_delta (sx_hash example_env) add_u (default_limiters, default_tracker))"
    by (simp add: delta_defs with_table_def open_socks_server_with_u_def open_socks_server_def socks5_with_shared_limits_def
        server_of_def keyed_user_state_def table_map_def case_prod_beta)
  from server_updated.delta [OF server_updated.start this]
  have "server_updated example_env open_socks_server open_socks_server_with_u" .
  note socks_method_fixed_at_start [OF new this]
  moreover have "socks_user open_socks_server_with_u ''u'' = Some (example_user ''u'' ''p'')" by code_simp
  ultimately show ?thesis by simp
qed

end
