(* ===== verification/Http_Proxy.thy ===== *)
theory Http_Proxy
  imports Servers Wire
begin

text \<open>
  The HTTP proxy of \<^verbatim>\<open>src/http_proxy.rs\<close>: reading a request with its headers and body, Basic authentication
  against the users of the server, the target of a request, and the request forwarded to the origin. Connecting
  and relaying are not part of it. The Base64 decoder is the argument \<open>base64_standard\<close>.
\<close>

section \<open>Data\<close>

record http_target =
  ht_host :: string
  ht_port :: u16

type_synonym http_headers = "(string \<times> string) list"

record http_request =
  hr_method :: string
  hr_target :: string
  hr_version :: string
  hr_headers :: http_headers
  hr_body :: bytes
  hr_user_uuid :: "string option"
  hr_user_id :: "u64 option"

abbreviation crlf :: string where "crlf \<equiv> [CHR 0x0D, CHR 0x0A]"

section \<open>Lines\<close>

text \<open>\<^verbatim>\<open>BufRead::read_line\<close>: the line with its newline, empty at the end of the input.\<close>

fun take_line :: "bytes \<Rightarrow> bytes \<times> bytes" where
  "take_line [] = ([], [])"
| "take_line (c # cs) = (if c = CHR 0x0A then ([c], cs) else apfst (Cons c) (take_line cs))"

definition read_line :: "string io" where
  "read_line s =
     (let (line, rest) = take_line (sm_input s); s' = s\<lparr>sm_input := rest\<rparr> in
      if utf8_valid line then (Inr line, s') else (Inl (Io InvalidData ''stream did not contain valid UTF-8''), s'))"

definition trim_crlf :: "string \<Rightarrow> string" where
  "trim_crlf value = rev (dropWhile (\<lambda>c. c \<in> set crlf) (rev value))"

text \<open>The three parts of \<^verbatim>\<open>splitn(3, ' ')\<close>; a missing part is empty.\<close>

definition request_line_parts :: "string \<Rightarrow> string \<times> string \<times> string" where
  "request_line_parts line =
     (case split_once '' '' line of
        None \<Rightarrow> (line, [], [])
      | Some (method, rest) \<Rightarrow>
          (case split_once '' '' rest of None \<Rightarrow> (method, rest, []) | Some (target, version) \<Rightarrow> (method, target, version)))"

section \<open>Authentication\<close>

definition header_value :: "http_headers \<Rightarrow> string \<Rightarrow> string option" where
  "header_value headers name = map_option snd (find (\<lambda>(candidate, _). eq_ignore_ascii_case candidate name) headers)"

definition parse_basic_auth :: "externals \<Rightarrow> string \<Rightarrow> (string \<times> string) option" where
  "parse_basic_auth ext value =
     (case strip_prefix ''Basic '' value of
        None \<Rightarrow> None
      | Some encoded \<Rightarrow>
          (case base64_standard ext encoded of
             None \<Rightarrow> None
           | Some decoded \<Rightarrow>
               (let text = map (char_of \<circ> unat) decoded
                in if utf8_valid text then split_once '':'' text else None)))"

definition auth_required_error :: io_error where
  "auth_required_error = Io PermissionDenied ''proxy authentication required''"

definition http_user :: "server \<Rightarrow> string \<Rightarrow> core_user option" where
  "http_user srv username = hm_get (table_map (se_table srv)) username"

definition authenticate :: "externals \<Rightarrow> server \<Rightarrow> http_headers \<Rightarrow> io_error + core_user option" where
  "authenticate ext srv headers =
     (if \<not> se_auth_required srv then Inr None
      else case header_value headers ''proxy-authorization'' of
        None \<Rightarrow> Inl auth_required_error
      | Some value \<Rightarrow>
          (case parse_basic_auth ext value of
             None \<Rightarrow> Inl auth_required_error
           | Some (username, password) \<Rightarrow>
               (case http_user srv username of
                  Some user \<Rightarrow> (if credential user = password then Inr (Some user) else Inl auth_required_error)
                | None \<Rightarrow> Inl auth_required_error)))"

section \<open>Reading a request\<close>

lemma take_line_append: "take_line bs = (line, rest) \<Longrightarrow> bs = line @ rest"
proof (induction bs arbitrary: line rest)
  case (Cons c cs)
  then show ?case by (cases "take_line cs") (auto split: if_splits)
qed simp

function read_headers :: "stream \<Rightarrow> (io_error + http_headers) \<times> stream" where
  "read_headers s =
     (case read_line s of
        (Inl e, s') \<Rightarrow> (Inl e, s')
      | (Inr line, s') \<Rightarrow>
          (if line = [] then (Inl (Io UnexpectedEof ''unexpected eof in http headers''), s')
           else if trim_crlf line = [] then (Inr [], s')
           else case split_once '':'' (trim_crlf line) of
                  None \<Rightarrow> read_headers s'
                | Some (name, value) \<Rightarrow>
                    (case read_headers s' of
                       (Inl e, s'') \<Rightarrow> (Inl e, s'')
                     | (Inr headers, s'') \<Rightarrow> (Inr ((trim name, trim value) # headers), s''))))"
  by pat_completeness auto
termination
  by (relation "measure (\<lambda>s. length (sm_input s))")
    (auto simp: read_line_def Let_def split: prod.splits if_splits dest!: take_line_append)

declare read_headers.simps [simp del]

text \<open>
  \<^verbatim>\<open>vec![0u8; content_length]\<close> panics when the length exceeds \<^verbatim>\<open>isize::MAX\<close>; below that the allocation is
  taken to succeed.
\<close>

definition content_length :: "http_headers \<Rightarrow> nat" where
  "content_length headers =
     (case header_value headers ''content-length'' of
        None \<Rightarrow> 0
      | Some value \<Rightarrow> (case parse_u64 value of None \<Rightarrow> 0 | Some n \<Rightarrow> n))"

definition read_body :: "nat \<Rightarrow> bytes io" where
  "read_body n = (if 2 ^ 63 \<le> n then io_lift (Inl Abort) else if 0 < n then read_exact n else io_return [])"

definition http_read_request :: "externals \<Rightarrow> server \<Rightarrow> http_request io" where
  "http_read_request ext srv =
     io_bind read_line (\<lambda>first_line.
     if first_line = [] then io_fail UnexpectedEof ''empty http request''
     else let (method, target, version) = request_line_parts (trim_crlf first_line) in
       if method = [] \<or> target = [] \<or> version = [] then io_fail InvalidData ''malformed http request line''
       else
         io_bind read_headers (\<lambda>headers.
         io_bind (io_lift (authenticate ext srv headers)) (\<lambda>user.
         io_bind (read_body (content_length headers)) (\<lambda>body.
           io_return \<lparr>hr_method = method, hr_target = target, hr_version = version, hr_headers = headers,
             hr_body = body, hr_user_uuid = map_option cu_uuid user, hr_user_id = map_option cu_id user\<rparr>))))"

section \<open>The target\<close>

definition bracketed :: "char list" where
  "bracketed = ''[]''"

fun find_char :: "char \<Rightarrow> string \<Rightarrow> nat option" where
  "find_char c [] = None"
| "find_char c (x # xs) = (if x = c then Some 0 else map_option Suc (find_char c xs))"

definition parse_bracketed :: "string \<Rightarrow> u16 \<Rightarrow> http_target" where
  "parse_bracketed value default_port =
     (case strip_prefix ''['' value of
        None \<Rightarrow> \<lparr>ht_host = trim_matches bracketed value, ht_port = default_port\<rparr>
      | Some rest \<Rightarrow>
          (case find_char (CHR '']'') rest of
             None \<Rightarrow> \<lparr>ht_host = trim_matches bracketed value, ht_port = default_port\<rparr>
           | Some n \<Rightarrow>
               \<lparr>ht_host = take n rest,
                ht_port = (case strip_prefix '':'' (drop (n + 1) rest) of
                             None \<Rightarrow> default_port
                           | Some port \<Rightarrow> (case parse_u16 port of None \<Rightarrow> default_port | Some p \<Rightarrow> of_nat p))\<rparr>))"

definition parse_authority :: "string \<Rightarrow> u16 \<Rightarrow> io_error + http_target" where
  "parse_authority value0 default_port =
     (let value = trim value0 in
      if value = [] then Inl (Io InvalidData ''empty http authority'')
      else case rsplit_once (CHR '':'') value of
        None \<Rightarrow> Inr (parse_bracketed value default_port)
      | Some (host, port) \<Rightarrow>
          (if CHR '']'' \<in> set host then Inr (parse_bracketed value default_port)
           else case parse_u16 port of
             None \<Rightarrow> Inl (Io InvalidData ''invalid http authority port'')
           | Some p \<Rightarrow>
               (let host = trim_matches bracketed host in
                if host = [] then Inl (Io InvalidData ''empty http authority host'')
                else Inr \<lparr>ht_host = host, ht_port = of_nat p\<rparr>)))"

definition parse_plain_http_target :: "http_request \<Rightarrow> io_error + http_target" where
  "parse_plain_http_target rq =
     on_prefix
       [(''http://'', \<lambda>rest. parse_authority (hd (split_on (CHR ''/'') rest)) 80),
        (''https://'', \<lambda>rest. parse_authority (hd (split_on (CHR ''/'') rest)) 443)]
       (case header_value (hr_headers rq) ''host'' of
          Some host \<Rightarrow> parse_authority host 80
        | None \<Rightarrow> Inl (Io InvalidData ''plain http proxy request must include absolute url or host header''))
       (hr_target rq)"

section \<open>The forwarded request\<close>

definition origin_form :: "string \<Rightarrow> string" where
  "origin_form target =
     (let path = (\<lambda>rest. case find_char (CHR ''/'') rest of Some n \<Rightarrow> drop n rest | None \<Rightarrow> ''/'')
      in on_prefix [(''http://'', path), (''https://'', path)] target target)"

definition hop_header :: "string \<Rightarrow> bool" where
  "hop_header name \<longleftrightarrow> eq_ignore_ascii_case name ''proxy-authorization'' \<or>
     eq_ignore_ascii_case name ''proxy-connection'' \<or> eq_ignore_ascii_case name ''connection''"

definition header_line :: "string \<times> string \<Rightarrow> bytes" where
  "header_line = (\<lambda>(name, value). name @ '': '' @ value @ crlf)"

definition forwarded_headers :: "http_request \<Rightarrow> http_target \<Rightarrow> http_headers" where
  "forwarded_headers rq target =
     (let kept = filter (\<lambda>(name, _). \<not> hop_header name) (hr_headers rq) in
      kept @ (if list_ex (\<lambda>(name, _). eq_ignore_ascii_case name ''host'') kept then [] else [(''Host'', ht_host target)]))"

definition render_plain_http_request :: "http_request \<Rightarrow> http_target \<Rightarrow> bytes" where
  "render_plain_http_request rq target =
     hr_method rq @ '' '' @ origin_form (hr_target rq) @ '' '' @ hr_version rq @ crlf @
     concat (map header_line (forwarded_headers rq target)) @ ''Connection: close'' @ crlf @ crlf @ hr_body rq"

section \<open>Who is let in\<close>

lemma authenticate_ok:
  assumes "se_auth_required srv" "authenticate ext srv headers = Inr user"
  shows "\<exists>value username u. header_value headers ''proxy-authorization'' = Some value \<and>
    parse_basic_auth ext value = Some (username, credential u) \<and> http_user srv username = Some u \<and> user = Some u"
  using assms by (auto simp: authenticate_def split: option.splits if_splits)


section \<open>A length no allocation can have\<close>

text \<open>
  A request that is let in and announces a body of \<^verbatim>\<open>2^63\<close> bytes or more ends the process, before a byte of
  the body is read.
\<close>

theorem huge_content_length_aborts:
  assumes "read_line s = (Inr line, u)" "line \<noteq> []"
    and "request_line_parts (trim_crlf line) = (m, target, version)" "m \<noteq> []" "target \<noteq> []" "version \<noteq> []"
    and "read_headers u = (Inr headers, v)" "authenticate ext srv headers = Inr user"
    and "2 ^ 63 \<le> content_length headers"
  shows "http_read_request ext srv s = (Inl Abort, v)"
  using assms by (simp add: http_read_request_def io_bind_def io_lift_def read_body_def)

section \<open>The forwarded headers read back\<close>

lemma take_line_lf: "CHR 0x0A \<notin> set xs \<Longrightarrow> take_line (xs @ CHR 0x0A # rest) = (xs @ [CHR 0x0A], rest)"
  by (induction xs) auto

lemma split_once_fresh: "c \<notin> set n \<Longrightarrow> split_once [c] (n @ c # v) = Some (n, v)"
  by (induction n) (auto simp: starts_with_def)

lemma trim_space: "trim (CHR '' '' # v) = trim v"
  by (subst (1) trim_def, subst (1) trim_start_def, subst trim_start_with.simps)
    (simp add: white_space_def starts_with_def trim_def trim_start_def)

lemma trim_start_with_strips:
  assumes "w \<in> set ws" "w \<noteq> []" "starts_with w s"
  shows "trim_start_with ws s \<noteq> s"
proof -
  have "find (\<lambda>w. w \<noteq> [] \<and> starts_with w s) ws \<noteq> None" using assms by (auto simp: find_None_iff)
  then obtain x where x: "find (\<lambda>w. w \<noteq> [] \<and> starts_with w s) ws = Some x" by auto
  then have "x \<noteq> [] \<and> starts_with x s" by (auto simp: find_Some_iff)
  then have "length (drop (length x) s) < length s" by (cases s) (auto simp: starts_with_def)
  moreover have "length (trim_start_with ws (drop (length x) s)) \<le> length (drop (length x) s)"
    using trim_start_with_suffix [of "drop (length x) s" ws] by (metis le_add2 length_append)
  moreover have "trim_start_with ws s = trim_start_with ws (drop (length x) s)"
    by (subst trim_start_with.simps) (simp add: x)
  ultimately show ?thesis by (metis not_le)
qed

lemma trimmed_last:
  assumes "trim v = v" "v \<noteq> []"
  shows "last v \<notin> set crlf"
proof
  assume last: "last v \<in> set crlf"
  have "trim_end v = v" using assms(1) by (metis trim_def trim_end_idem)
  then have fixed: "trim_start_with (map rev white_space) (rev v) = rev v" by (simp add: trim_end_def rev_swap)
  have "[last v] \<in> set (map rev white_space)" using last by (auto simp: white_space_def)
  moreover have "starts_with [last v] (rev v)" using assms(2) by (cases v rule: rev_cases) (simp_all add: starts_with_def)
  ultimately show False using trim_start_with_strips fixed by blast
qed

definition header_wf :: "string \<times> string \<Rightarrow> bool" where
  "header_wf = (\<lambda>(name, value). trim name = name \<and> trim value = value \<and> CHR '':'' \<notin> set name \<and>
     CHR 0x0A \<notin> set name \<and> CHR 0x0A \<notin> set value \<and> utf8_valid name \<and> utf8_valid value)"

lemma trim_crlf_line: "x = [] \<or> last x \<notin> set crlf \<Longrightarrow> trim_crlf (x @ crlf) = x"
  by (cases x rule: rev_cases) (auto simp: trim_crlf_def)

lemma read_header_line:
  assumes "header_wf (name, value)"
  shows "read_headers (s\<lparr>sm_input := header_line (name, value) @ rest\<rparr>) =
    (case read_headers (s\<lparr>sm_input := rest\<rparr>) of (Inl e, t) \<Rightarrow> (Inl e, t) | (Inr hs, t) \<Rightarrow> (Inr ((name, value) # hs), t))"
proof -
  let ?x = "name @ '': '' @ value"
  have wf: "trim name = name" "trim value = value" "CHR '':'' \<notin> set name" "CHR 0x0A \<notin> set ?x" "utf8_valid ?x"
    using assms by (auto simp: header_wf_def intro!: utf8_valid_append)
  have "take_line (header_line (name, value) @ rest) = (?x @ crlf, rest)"
    using take_line_lf [of "?x @ [CHR 0x0D]" rest] wf(4) by (simp add: header_line_def)
  moreover have "utf8_valid (?x @ crlf)" by (rule utf8_valid_append [OF wf(5)]) simp
  ultimately have line: "read_line (s\<lparr>sm_input := header_line (name, value) @ rest\<rparr>) = (Inr (?x @ crlf), s\<lparr>sm_input := rest\<rparr>)"
    by (simp add: read_line_def Let_def)
  have "last ?x \<notin> set crlf" using trimmed_last [OF wf(2)] by (cases "value = []") auto
  then have trimmed: "trim_crlf (?x @ crlf) = ?x" by (intro trim_crlf_line disjI2)
  have split: "split_once '':'' ?x = Some (name, CHR '' '' # value)"
    using split_once_fresh [OF wf(3)] by simp
  show ?thesis
    by (subst read_headers.simps) (simp only: line prod.case sum.case trimmed split option.case trim_space wf(1,2), simp split: prod.split sum.split)
qed

lemma read_header_lines:
  "\<forall>h \<in> set hs. header_wf h \<Longrightarrow>
   read_headers (s\<lparr>sm_input := concat (map header_line hs) @ crlf @ rest\<rparr>) = (Inr hs, s\<lparr>sm_input := rest\<rparr>)"
proof (induction hs)
  case Nil
  show ?case by (subst read_headers.simps) (simp add: read_line_def Let_def trim_crlf_def)
next
  case (Cons h hs)
  obtain n v where "h = (n, v)" by force
  with Cons read_header_line [of n v, where s = s] show ?case by simp
qed


definition plain_get :: http_request where
  "plain_get = \<lparr>hr_method = ''GET'', hr_target = ''http://h/a'', hr_version = ''HTTP/1.1'',
     hr_headers = [(''Host'', ''h''), (''Proxy-Authorization'', ''Basic dTpw''), (''Accept'', ''*'')],
     hr_body = [], hr_user_uuid = Some ''u'', hr_user_id = Some 7\<rparr>"

definition origin_h :: http_target where
  "origin_h = \<lparr>ht_host = ''h'', ht_port = 80\<rparr>"


definition basic_up :: externals where
  "basic_up = \<lparr>regex_ok = (\<lambda>_. True), header_name_ok = (\<lambda>_. True), header_value_ok = (\<lambda>_. True),
     base64_url_safe_no_pad = (\<lambda>_. None), base64_standard = (\<lambda>s. if s = ''dTpw'' then Some [117, 58, 112] else None)\<rparr>"

definition http_server_u :: server where
  "http_server_u = http_with_shared_limits [example_user ''u'' ''p''] []"


definition open_http_server :: server where
  "open_http_server = http_with_shared_limits [] []"

definition huge_length :: string where
  "huge_length = ''9223372036854775808''"

theorem huge_content_length_aborts_witness:
  "\<forall>ext. fst (http_read_request ext open_http_server
     \<lparr>sm_input = ''POST http://h/ HTTP/1.1'' @ crlf @ header_line (''Content-Length'', huge_length) @ crlf, sm_output = []\<rparr>) = Inl Abort"
proof
  fix ext
  let ?s = "\<lparr>sm_input = ''POST http://h/ HTTP/1.1'' @ crlf @ header_line (''Content-Length'', huge_length) @ crlf, sm_output = []\<rparr>"
  let ?u = "\<lparr>sm_input = header_line (''Content-Length'', huge_length) @ crlf, sm_output = []\<rparr>"
  have line: "read_line ?s = (Inr (''POST http://h/ HTTP/1.1'' @ crlf), ?u)" by code_simp
  have parts: "request_line_parts (trim_crlf (''POST http://h/ HTTP/1.1'' @ crlf)) = (''POST'', ''http://h/'', ''HTTP/1.1'')" by code_simp
  have wf: "header_wf (''Content-Length'', huge_length)" by code_simp
  have fin: "read_headers (?u\<lparr>sm_input := crlf\<rparr>) = (Inr [], ?u\<lparr>sm_input := []\<rparr>)"
    by (subst read_headers.simps) (simp add: read_line_def Let_def trim_crlf_def)
  have headers: "read_headers ?u = (Inr [(''Content-Length'', huge_length)], ?u\<lparr>sm_input := []\<rparr>)"
    using read_header_line [OF wf, where s = ?u and rest = crlf] fin by simp
  have auth: "authenticate ext open_http_server [(''Content-Length'', huge_length)] = Inr None"
    by (simp add: authenticate_def open_http_server_def http_with_shared_limits_def server_of_def)
  have big: "2 ^ 63 \<le> content_length [(''Content-Length'', huge_length)]" by code_simp
  show "fst (http_read_request ext open_http_server ?s) = Inl Abort"
    using huge_content_length_aborts [OF line _ parts _ _ _ headers auth big] by simp
qed

end
