(* ===== verification/Vision.thy ===== *)
theory Vision
  imports Wire
begin

text \<open>
  The padding of VLESS Vision, \<^verbatim>\<open>src/vision.rs\<close>: the encoder that wraps the first packets of a connection in
  padded frames until the TLS traffic inside is recognised, and the decoder that unwraps them byte by byte. Random
  numbers and random padding bytes are arguments. The decoder is shown to give the same result however the network
  cuts the stream, and to undo the encoder.
\<close>

section \<open>Decoder\<close>

definition command_padding_continue :: char where "command_padding_continue = CHR 0x00"
definition command_padding_end :: char where "command_padding_end = CHR 0x01"
definition command_padding_direct :: char where "command_padding_direct = CHR 0x02"

lemmas command_defs = command_padding_continue_def command_padding_end_def command_padding_direct_def

record vision_state =
  vs_user_id :: bytes
  vs_checked_prefix :: bool
  vs_saw_vision_prefix :: bool
  vs_plain :: bool
  vs_remaining_command :: int
  vs_remaining_content :: int
  vs_remaining_padding :: int
  vs_current_command :: char

record vision_decoder = vision_state +
  vd_input :: bytes
  vd_output :: bytes

definition vision_decoder_new :: "bytes \<Rightarrow> vision_decoder" where
  "vision_decoder_new user_id =
     \<lparr>vs_user_id = user_id, vs_checked_prefix = False, vs_saw_vision_prefix = False, vs_plain = False,
      vs_remaining_command = - 1, vs_remaining_content = - 1, vs_remaining_padding = - 1,
      vs_current_command = command_padding_continue, vd_input = [], vd_output = []\<rparr>"

definition vision_push :: "bytes \<Rightarrow> vision_decoder \<Rightarrow> vision_decoder" where
  "vision_push input d = d\<lparr>vd_input := vd_input d @ input\<rparr>"

definition vision_finish :: "vision_decoder \<Rightarrow> vision_decoder" where
  "vision_finish d = d\<lparr>vd_output := vd_output d @ vd_input d, vd_input := []\<rparr>"

definition vision_is_direct_copy :: "vision_decoder \<Rightarrow> bool" where
  "vision_is_direct_copy d \<longleftrightarrow> vs_current_command d = command_padding_direct \<and> vs_plain d"

definition vision_is_drained :: "vision_decoder \<Rightarrow> bool" where
  "vision_is_drained d \<longleftrightarrow> vd_input d = [] \<and> vd_output d = []"

definition make_plain :: "vision_decoder \<Rightarrow> vision_decoder" where
  "make_plain d = d\<lparr>vs_plain := True, vd_output := vd_output d @ vd_input d, vd_input := []\<rparr>"

text \<open>One byte of a frame header: the command, two bytes of content length, two of padding length.\<close>

definition header_byte :: "char \<Rightarrow> vision_decoder \<Rightarrow> vision_decoder" where
  "header_byte data d =
     (let v = int (byte_value data);
          d = (if vs_remaining_command d = 5 then d\<lparr>vs_current_command := data\<rparr>
               else if vs_remaining_command d = 4 then d\<lparr>vs_remaining_content := push_bit 8 v\<rparr>
               else if vs_remaining_command d = 3 then d\<lparr>vs_remaining_content := Bit_Operations.or (vs_remaining_content d) v\<rparr>
               else if vs_remaining_command d = 2 then d\<lparr>vs_remaining_padding := push_bit 8 v\<rparr>
               else if vs_remaining_command d = 1 then d\<lparr>vs_remaining_padding := Bit_Operations.or (vs_remaining_padding d) v\<rparr>
               else d)
      in d\<lparr>vs_remaining_command := vs_remaining_command d - 1\<rparr>)"

definition vision_consume :: "vision_decoder \<Rightarrow> vision_decoder" where
  "vision_consume d =
     (if 0 < vs_remaining_command d then
        (case vd_input d of [] \<Rightarrow> d | data # rest \<Rightarrow> header_byte data (d\<lparr>vd_input := rest\<rparr>))
      else if 0 < vs_remaining_content d then
        (let len = min (nat (vs_remaining_content d)) (length (vd_input d))
         in d\<lparr>vd_output := vd_output d @ take len (vd_input d), vd_input := drop len (vd_input d),
              vs_remaining_content := vs_remaining_content d - int len\<rparr>)
      else if 0 < vs_remaining_padding d then
        (let len = min (nat (vs_remaining_padding d)) (length (vd_input d))
         in d\<lparr>vd_input := drop len (vd_input d), vs_remaining_padding := vs_remaining_padding d - int len\<rparr>)
      else d)"

definition frame_done :: "vision_decoder \<Rightarrow> bool" where
  "frame_done d \<longleftrightarrow> vs_remaining_command d \<le> 0 \<and> vs_remaining_content d \<le> 0 \<and> vs_remaining_padding d \<le> 0"

definition vision_next :: "vision_decoder \<Rightarrow> (io_error + unit) \<times> vision_decoder" where
  "vision_next d =
     (if \<not> frame_done d then (Inr (), d)
      else if vs_current_command d = command_padding_continue then (Inr (), d\<lparr>vs_remaining_command := 5\<rparr>)
      else if vs_current_command d = command_padding_end \<or> vs_current_command d = command_padding_direct then
        (Inr (), make_plain (d\<lparr>vs_remaining_command := - 1, vs_remaining_content := - 1, vs_remaining_padding := - 1\<rparr>))
      else (Inl (Io InvalidData (''unknown vision padding command '' @ show_nat (byte_value (vs_current_command d)))), d))"

definition vision_measure :: "vision_decoder \<Rightarrow> nat" where
  "vision_measure d = 2 * length (vd_input d) + (if frame_done d then 1 else 0)"

lemma header_byte_input [simp]: "vd_input (header_byte c d) = vd_input d"
  by (simp add: header_byte_def Let_def)

lemma vision_progress:
  assumes "vd_input d \<noteq> []" "vision_next (vision_consume d) = (Inr (), d')"
  shows "vision_measure d' < vision_measure d"
proof (cases "frame_done d")
  case True
  then have "vision_consume d = d" by (simp add: vision_consume_def frame_done_def)
  then show ?thesis
    using assms True by (auto simp: vision_next_def vision_measure_def make_plain_def frame_done_def split: if_splits)
next
  case False
  then have "length (vd_input (vision_consume d)) < length (vd_input d)"
    using assms(1) by (auto simp: vision_consume_def frame_done_def Let_def split: list.splits)
  moreover have "length (vd_input d') \<le> length (vd_input (vision_consume d))"
    using assms(2) by (auto simp: vision_next_def make_plain_def split: if_splits)
  ultimately show ?thesis by (simp add: vision_measure_def)
qed

function vision_loop :: "vision_decoder \<Rightarrow> (io_error + unit) \<times> vision_decoder" where
  "vision_loop d =
     (if vd_input d = [] \<or> vs_plain d then (Inr (), d)
      else case vision_next (vision_consume d) of
        (Inl e, d') \<Rightarrow> (Inl e, d')
      | (Inr _, d') \<Rightarrow> vision_loop d')"
  by pat_completeness auto
termination
  by (relation "measure vision_measure") (auto intro: vision_progress)

declare vision_loop.simps [simp del]

definition process_buffer :: "vision_decoder \<Rightarrow> (io_error + unit) \<times> vision_decoder" where
  "process_buffer d =
     (if vs_plain d then (Inr (), make_plain d)
      else if \<not> vs_checked_prefix d then
        (if length (vd_input d) < 21 then (Inr (), d)
         else let d1 = d\<lparr>vs_checked_prefix := True\<rparr> in
              if take 16 (vd_input d) = vs_user_id d
              then vision_loop (d1\<lparr>vs_saw_vision_prefix := True, vd_input := drop 16 (vd_input d), vs_remaining_command := 5\<rparr>)
              else (Inr (), make_plain d1))
      else vision_loop d)"

definition vision_drain_output :: "nat \<Rightarrow> vision_decoder \<Rightarrow> bytes \<times> vision_decoder" where
  "vision_drain_output limit d = (take limit (vd_output d), d\<lparr>vd_output := drop limit (vd_output d)\<rparr>)"

definition read_decoded :: "nat \<Rightarrow> vision_decoder \<Rightarrow> (io_error + bytes) \<times> vision_decoder" where
  "read_decoded limit d =
     (case process_buffer d of
        (Inl e, d') \<Rightarrow> (Inl e, d')
      | (Inr _, d') \<Rightarrow> (let (out, d'') = vision_drain_output limit d' in (Inr out, d'')))"

section \<open>Encoder\<close>

record vision_encoder =
  ve_user_id :: "bytes option"
  ve_padding_active :: bool
  ve_direct_copy :: bool
  ve_is_tls :: bool
  ve_is_tls12_or_above :: bool
  ve_remaining_server_hello :: int
  ve_packets_to_filter :: int

definition vision_encoder_new :: "bytes \<Rightarrow> vision_encoder" where
  "vision_encoder_new user_id =
     \<lparr>ve_user_id = Some user_id, ve_padding_active = True, ve_direct_copy = False, ve_is_tls = False,
      ve_is_tls12_or_above = False, ve_remaining_server_hello = - 1, ve_packets_to_filter = 8\<rparr>"

definition tls_record_len :: "bytes \<Rightarrow> nat option" where
  "tls_record_len input =
     (if length input < 5 then None else Some (256 * byte_value (input ! 3) + byte_value (input ! 4)))"

definition starts_with_tls_client_hello :: "bytes \<Rightarrow> bool" where
  "starts_with_tls_client_hello input \<longleftrightarrow>
     6 \<le> length input \<and> input ! 0 = CHR 0x16 \<and> input ! 1 = CHR 0x03 \<and> input ! 5 = CHR 0x01"

definition starts_with_tls_server_hello :: "bytes \<Rightarrow> bool" where
  "starts_with_tls_server_hello input \<longleftrightarrow>
     6 \<le> length input \<and> input ! 0 = CHR 0x16 \<and> input ! 1 = CHR 0x03 \<and> input ! 2 = CHR 0x03 \<and> input ! 5 = CHR 0x02"

definition tls13_supported_versions_extension :: bytes where
  "tls13_supported_versions_extension = [CHR 0x00, CHR 0x2b, CHR 0x00, CHR 0x02, CHR 0x03, CHR 0x04]"

function app_data_records :: "bool \<Rightarrow> bytes \<Rightarrow> bool" where
  "app_data_records saw_record rest =
     (if 5 \<le> length rest then
        (if rest ! 0 \<noteq> CHR 0x17 \<or> rest ! 1 \<noteq> CHR 0x03 \<or> rest ! 2 \<noteq> CHR 0x03 then False
         else let next_record = 5 + (256 * byte_value (rest ! 3) + byte_value (rest ! 4)) in
              if length rest < next_record then False else app_data_records True (drop next_record rest))
      else saw_record \<and> rest = [])"
  by pat_completeness auto
termination
  by (relation "measure (\<lambda>(_, rest). length rest)") auto

declare app_data_records.simps [simp del]

definition is_complete_tls_application_data_records :: "bytes \<Rightarrow> bool" where
  "is_complete_tls_application_data_records input = app_data_records False input"

definition filter_tls :: "bytes \<Rightarrow> vision_encoder \<Rightarrow> vision_encoder" where
  "filter_tls input e =
     (let e = (if 0 < ve_packets_to_filter e then e\<lparr>ve_packets_to_filter := ve_packets_to_filter e - 1\<rparr> else e);
          e = (if length input < 6 then e
               else if starts_with_tls_server_hello input then
                 e\<lparr>ve_remaining_server_hello := (case tls_record_len input of Some len \<Rightarrow> int len + 5 | None \<Rightarrow> - 1),
                   ve_is_tls12_or_above := True, ve_is_tls := True\<rparr>
               else if starts_with_tls_client_hello input then e\<lparr>ve_is_tls := True\<rparr> else e)
      in if 0 < ve_remaining_server_hello e then
           (let scan_len = nat (min (ve_remaining_server_hello e) (int (length input)));
                e = e\<lparr>ve_remaining_server_hello := ve_remaining_server_hello e - int (length input)\<rparr>
            in if str_contains tls13_supported_versions_extension (take scan_len input) \<or> ve_remaining_server_hello e \<le> 0
               then e\<lparr>ve_packets_to_filter := 0\<rparr> else e)
         else e)"

text \<open>The command, whether padding goes on, whether it is long, and whether the rest is copied directly.\<close>

definition next_command :: "bool \<Rightarrow> vision_encoder \<Rightarrow> char \<times> bool \<times> bool \<times> bool" where
  "next_command complete_application_data e =
     (if ve_is_tls e \<and> complete_application_data then (command_padding_direct, False, True, True)
      else if \<not> ve_is_tls12_or_above e \<and> ve_packets_to_filter e \<le> 1 then (command_padding_end, False, ve_is_tls e, False)
      else (command_padding_continue, True, ve_is_tls e, False))"

definition random_padding_below :: "nat option \<Rightarrow> nat \<Rightarrow> nat" where
  "random_padding_below rnd limit = (if limit \<le> 1 then 0 else case rnd of Some r \<Rightarrow> r mod limit | None \<Rightarrow> 0)"

definition padding_len :: "nat option \<Rightarrow> nat \<Rightarrow> bool \<Rightarrow> nat" where
  "padding_len rnd content_len long_padding =
     min (if content_len < 900 \<and> long_padding then random_padding_below rnd 500 + 900 - content_len
          else random_padding_below rnd 256)
         (65535 - content_len)"

definition append_random_padding :: "(nat \<Rightarrow> char) \<Rightarrow> bytes \<Rightarrow> nat \<Rightarrow> bytes" where
  "append_random_padding fill frame len = frame @ map fill [0..<len]"

definition vision_frame :: "bytes option \<Rightarrow> char \<Rightarrow> bytes \<Rightarrow> nat \<Rightarrow> (nat \<Rightarrow> char) \<Rightarrow> bytes" where
  "vision_frame user_id command payload padding fill =
     append_random_padding fill
       ((case user_id of Some u \<Rightarrow> u | None \<Rightarrow> []) @ [command] @ be_bytes 2 (length payload) @ be_bytes 2 padding @ payload) padding"

definition vision_encode :: "nat option \<Rightarrow> (nat \<Rightarrow> char) \<Rightarrow> bytes \<Rightarrow> vision_encoder \<Rightarrow> bytes \<times> vision_encoder" where
  "vision_encode rnd fill input e =
     (if \<not> ve_padding_active e \<or> input = [] then (input, e)
      else
        (let split_at = min (length input) 65535;
             payload = take split_at input;
             e = filter_tls payload e;
             (command, keep_padding, long_padding, switch_to_direct) =
               next_command (is_complete_tls_application_data_records payload) e;
             padding = padding_len rnd (length payload) long_padding
         in (vision_frame (ve_user_id e) command payload padding fill @ drop split_at input,
             e\<lparr>ve_user_id := None, ve_padding_active := keep_padding, ve_direct_copy := switch_to_direct\<rparr>)))"

definition empty_long_padding_frame :: "nat option \<Rightarrow> (nat \<Rightarrow> char) \<Rightarrow> vision_encoder \<Rightarrow> bytes option \<times> vision_encoder" where
  "empty_long_padding_frame rnd fill e =
     (if \<not> ve_padding_active e then (None, e)
      else (Some (vision_frame (ve_user_id e) command_padding_continue [] (padding_len rnd 0 True) fill), e\<lparr>ve_user_id := None\<rparr>))"

definition finish_padding :: "vision_encoder \<Rightarrow> bytes option \<times> vision_encoder" where
  "finish_padding e =
     (if \<not> ve_padding_active e then (None, e)
      else (Some (vision_frame (ve_user_id e) command_padding_end [] 0 (\<lambda>_. CHR 0x00)), e\<lparr>ve_user_id := None, ve_padding_active := False\<rparr>))"

section \<open>Cutting the stream\<close>

fun vision_feed :: "vision_decoder \<Rightarrow> bytes list \<Rightarrow> (io_error + unit) \<times> vision_decoder" where
  "vision_feed d [] = (Inr (), d)"
| "vision_feed d (c # cs) =
     (case process_buffer (vision_push c d) of (Inl e, d') \<Rightarrow> (Inl e, d') | (Inr _, d') \<Rightarrow> vision_feed d' cs)"

text \<open>The rest of the loop once a step has consumed its bytes.\<close>

definition vision_continue :: "vision_decoder \<Rightarrow> (io_error + unit) \<times> vision_decoder" where
  "vision_continue d = (case vision_next d of (Inl e, d') \<Rightarrow> (Inl e, d') | (Inr _, d') \<Rightarrow> vision_loop d')"

lemma vision_loop_step: "vd_input d \<noteq> [] \<Longrightarrow> \<not> vs_plain d \<Longrightarrow> vision_loop d = vision_continue (vision_consume d)"
  by (subst vision_loop.simps) (simp add: vision_continue_def)

lemma vision_loop_stop [simp]: "vd_input d = [] \<or> vs_plain d \<Longrightarrow> vision_loop d = (Inr (), d)"
  by (subst vision_loop.simps) simp

lemma vision_continue_open: "\<not> frame_done d \<Longrightarrow> vision_continue d = vision_loop d"
  by (simp add: vision_continue_def vision_next_def)

lemma push_simps [simp]:
  "vd_input (vision_push b d) = vd_input d @ b" "vd_output (vision_push b d) = vd_output d"
  "vs_plain (vision_push b d) = vs_plain d" "vs_checked_prefix (vision_push b d) = vs_checked_prefix d"
  "vs_user_id (vision_push b d) = vs_user_id d" "frame_done (vision_push b d) = frame_done d"
  "vision_push [] d = d" "vision_push b (vision_push a d) = vision_push (a @ b) d"
  by (simp_all add: vision_push_def frame_done_def)

lemma header_byte_kept [simp]:
  "vs_plain (header_byte c d) = vs_plain d" "vs_checked_prefix (header_byte c d) = vs_checked_prefix d"
  "vs_user_id (header_byte c d) = vs_user_id d" "vd_output (header_byte c d) = vd_output d"
  "vision_push b (header_byte c d) = header_byte c (vision_push b d)"
  by (simp_all add: header_byte_def Let_def vision_push_def)

lemma consume_kept [simp]:
  "vs_plain (vision_consume d) = vs_plain d" "vs_checked_prefix (vision_consume d) = vs_checked_prefix d"
  by (simp_all add: vision_consume_def Let_def split: list.splits)

text \<open>A step takes the same bytes when more follow, or it had too few to finish the field it is in.\<close>

lemma consume_content:
  "\<not> 0 < vs_remaining_command d \<Longrightarrow> 0 < vs_remaining_content d \<Longrightarrow>
   vision_consume d = (let len = min (nat (vs_remaining_content d)) (length (vd_input d))
     in d\<lparr>vd_output := vd_output d @ take len (vd_input d), vd_input := drop len (vd_input d),
          vs_remaining_content := vs_remaining_content d - int len\<rparr>)"
  by (simp add: vision_consume_def)

lemma consume_padding:
  "\<not> 0 < vs_remaining_command d \<Longrightarrow> \<not> 0 < vs_remaining_content d \<Longrightarrow> 0 < vs_remaining_padding d \<Longrightarrow>
   vision_consume d = (let len = min (nat (vs_remaining_padding d)) (length (vd_input d))
     in d\<lparr>vd_input := drop len (vd_input d), vs_remaining_padding := vs_remaining_padding d - int len\<rparr>)"
  by (simp add: vision_consume_def)

lemma consume_push_content:
  assumes "\<not> 0 < vs_remaining_command d" "0 < vs_remaining_content d"
  shows "vision_consume (vision_push b d) = vision_push b (vision_consume d) \<or>
    (vd_input (vision_consume d) = [] \<and> \<not> frame_done (vision_consume d) \<and>
     vision_consume (vision_push b (vision_consume d)) = vision_consume (vision_push b d))"
proof -
  obtain n where n: "vs_remaining_content d = int n" using assms(2) zero_less_imp_eq_int by blast
  show ?thesis
  proof (cases "n \<le> length (vd_input d)")
    case True
    then show ?thesis using assms n by (simp add: consume_content vision_push_def min_def Let_def)
  next
    case False
    then obtain m where m: "n = length (vd_input d) + m" "0 < m" by (metis less_imp_add_positive not_le)
    have c: "vision_consume d = d\<lparr>vd_output := vd_output d @ vd_input d, vd_input := [], vs_remaining_content := int m\<rparr>"
      using assms n m by (simp add: consume_content min_def)
    have "vision_consume (vision_push b (vision_consume d)) = vision_consume (vision_push b d)"
      using assms n m by (simp add: c consume_content vision_push_def min_def Let_def nat_int_add)
    then show ?thesis using m by (simp add: c frame_done_def)
  qed
qed

lemma consume_push_padding:
  assumes "\<not> 0 < vs_remaining_command d" "\<not> 0 < vs_remaining_content d" "0 < vs_remaining_padding d"
  shows "vision_consume (vision_push b d) = vision_push b (vision_consume d) \<or>
    (vd_input (vision_consume d) = [] \<and> \<not> frame_done (vision_consume d) \<and>
     vision_consume (vision_push b (vision_consume d)) = vision_consume (vision_push b d))"
proof -
  obtain n where n: "vs_remaining_padding d = int n" using assms(3) zero_less_imp_eq_int by blast
  show ?thesis
  proof (cases "n \<le> length (vd_input d)")
    case True
    then show ?thesis using assms n by (simp add: consume_padding vision_push_def min_def Let_def)
  next
    case False
    then obtain m where m: "n = length (vd_input d) + m" "0 < m" by (metis less_imp_add_positive not_le)
    have c: "vision_consume d = d\<lparr>vd_input := [], vs_remaining_padding := int m\<rparr>"
      using assms n m by (simp add: consume_padding min_def)
    have "vision_consume (vision_push b (vision_consume d)) = vision_consume (vision_push b d)"
      using assms n m by (simp add: c consume_padding vision_push_def min_def Let_def nat_int_add)
    then show ?thesis using m by (simp add: c frame_done_def)
  qed
qed

lemma consume_push:
  assumes "vd_input d \<noteq> []"
  shows "vision_consume (vision_push b d) = vision_push b (vision_consume d) \<or>
    (vd_input (vision_consume d) = [] \<and> \<not> frame_done (vision_consume d) \<and>
     vision_consume (vision_push b (vision_consume d)) = vision_consume (vision_push b d))"
proof -
  consider "0 < vs_remaining_command d" | "\<not> 0 < vs_remaining_command d" "0 < vs_remaining_content d"
    | "\<not> 0 < vs_remaining_command d" "\<not> 0 < vs_remaining_content d" "0 < vs_remaining_padding d" | "frame_done d"
    unfolding frame_done_def not_less [symmetric] by blast
  then show ?thesis
  proof cases
    case 1
    from assms obtain a rest where i: "vd_input d = a # rest" by (auto simp: neq_Nil_conv)
    then have "vision_consume d = header_byte a (d\<lparr>vd_input := rest\<rparr>)" using 1 by (simp add: vision_consume_def)
    moreover have "vision_consume (vision_push b d) = header_byte a (vision_push b (d\<lparr>vd_input := rest\<rparr>))"
      using 1 i by (simp add: vision_consume_def vision_push_def)
    ultimately show ?thesis by simp
  next
    case 4
    then have "vision_consume x = x" if "frame_done x" for x using that by (simp add: vision_consume_def frame_done_def)
    then show ?thesis using 4 by simp
  qed (use consume_push_content consume_push_padding in blast)+
qed

lemma next_push:
  assumes "vision_next x = (r, y)" "\<not> vs_plain x"
  shows "vision_next (vision_push b x) = (r, if vs_plain y then make_plain (vision_push b y) else vision_push b y)"
proof -
  let ?p = "x\<lparr>vs_remaining_command := - 1, vs_remaining_content := - 1, vs_remaining_padding := - 1\<rparr>"
  have cmd: "vs_current_command (vision_push b x) = vs_current_command x" by (simp add: vision_push_def)
  consider "\<not> frame_done x" | "frame_done x" "vs_current_command x = command_padding_continue"
    | "frame_done x" "vs_current_command x \<noteq> command_padding_continue"
      "vs_current_command x = command_padding_end \<or> vs_current_command x = command_padding_direct"
    | "frame_done x" "vs_current_command x \<noteq> command_padding_continue"
      "\<not> (vs_current_command x = command_padding_end \<or> vs_current_command x = command_padding_direct)" by blast
  then show ?thesis
  proof cases
    case 1
    then show ?thesis using assms by (simp add: vision_next_def)
  next
    case 2
    then have "r = Inr ()" "y = x\<lparr>vs_remaining_command := 5\<rparr>" using assms(1) by (simp_all add: vision_next_def)
    then show ?thesis using 2 assms(2) cmd by (simp add: vision_next_def) (simp add: vision_push_def)
  next
    case 3
    then have "r = Inr ()" "y = make_plain ?p" using assms(1) by (simp_all add: vision_next_def)
    then show ?thesis using 3 cmd by (simp add: vision_next_def) (simp add: vision_push_def make_plain_def)
  next
    case 4
    then show ?thesis using assms cmd by (auto simp: vision_next_def)
  qed
qed

lemma process_plain: "vs_plain d \<Longrightarrow> process_buffer d = (Inr (), make_plain d)"
  by (simp add: process_buffer_def)

lemma process_checked: "vs_checked_prefix d \<Longrightarrow> \<not> vs_plain d \<Longrightarrow> process_buffer d = vision_loop d"
  by (simp add: process_buffer_def)

lemma make_plain_simps [simp]: "vs_plain (make_plain d)" "vd_input (make_plain d) = []"
  by (simp_all add: make_plain_def)

lemma next_checked: "vision_next x = (r, y) \<Longrightarrow> vs_checked_prefix y = vs_checked_prefix x"
  by (auto simp: vision_next_def make_plain_def split: if_splits)

lemma loop_push:
  assumes "vs_checked_prefix d" "\<not> vs_plain d" "vision_loop d = (r, d')"
  shows "case r of Inl e \<Rightarrow> fst (vision_loop (vision_push b d)) = Inl e
    | Inr _ \<Rightarrow> vision_loop (vision_push b d) = process_buffer (vision_push b d')"
  using assms
proof (induction d arbitrary: r d' rule: vision_loop.induct)
  case (1 d)
  show ?case
  proof (cases "vd_input d = []")
    case True
    with 1 show ?thesis by (auto simp: process_checked)
  next
    case False
    obtain s x where n: "vision_next (vision_consume d) = (s, x)" by force
    have loop: "vision_loop d = vision_continue (vision_consume d)" using False "1.prems"(2) by (rule vision_loop_step)
    from consume_push [OF False, of b] show ?thesis
    proof (elim disjE conjE)
      assume same: "vision_consume (vision_push b d) = vision_push b (vision_consume d)"
      have pushed: "vision_loop (vision_push b d) = vision_continue (vision_push b (vision_consume d))"
        using False "1.prems"(2) vision_loop_step [of "vision_push b d"] same by simp
      note np = next_push [OF n, of b]
      show ?thesis
      proof (cases s)
        case (Inl e)
        then show ?thesis using "1.prems" n np loop pushed by (auto simp: vision_continue_def)
      next
        case (Inr u)
        then have lx: "vision_loop x = (r, d')" using "1.prems"(3) n loop by (simp add: vision_continue_def)
        show ?thesis
        proof (cases "vs_plain x")
          case True
          then have "r = Inr ()" "d' = x" using lx by simp_all
          then show ?thesis using True Inr n np pushed "1.prems"(2) by (simp add: vision_continue_def process_plain)
        next
          case plain: False
          have "vs_checked_prefix x" using next_checked [OF n] "1.prems"(1) by simp
          from "1.IH" [OF _ n [symmetric] _ this plain lx] False "1.prems"(2) Inr
          have "case r of Inl e \<Rightarrow> fst (vision_loop (vision_push b x)) = Inl e
            | Inr _ \<Rightarrow> vision_loop (vision_push b x) = process_buffer (vision_push b d')" by simp
          moreover have "vision_loop (vision_push b d) = vision_loop (vision_push b x)"
            using Inr np pushed plain "1.prems"(2) by (simp add: vision_continue_def)
          ultimately show ?thesis by (cases r) (simp_all only: sum.case)
        qed
      qed
    next
      assume rest: "vd_input (vision_consume d) = []" "\<not> frame_done (vision_consume d)"
        "vision_consume (vision_push b (vision_consume d)) = vision_consume (vision_push b d)"
      then have "vision_loop d = (Inr (), vision_consume d)" using loop by (simp add: vision_continue_open)
      moreover have "vision_loop (vision_push b d) = vision_loop (vision_push b (vision_consume d))" if "b \<noteq> []"
        using that rest(3) False "1.prems"(2) vision_loop_step [of "vision_push b d"] vision_loop_step [of "vision_push b (vision_consume d)"]
        by simp
      ultimately show ?thesis using "1.prems" rest(1) by (cases "b = []") (auto simp: process_checked)
    qed
  qed
qed

lemma process_push:
  assumes "process_buffer d = (r, d')"
  shows "case r of Inl e \<Rightarrow> fst (process_buffer (vision_push b d)) = Inl e
    | Inr _ \<Rightarrow> process_buffer (vision_push b d) = process_buffer (vision_push b d')"
proof -
  consider "vs_plain d" | "\<not> vs_plain d" "vs_checked_prefix d"
    | "\<not> vs_plain d" "\<not> vs_checked_prefix d" "length (vd_input d) < 21"
    | "\<not> vs_plain d" "\<not> vs_checked_prefix d" "\<not> length (vd_input d) < 21" "take 16 (vd_input d) = vs_user_id d"
    | "\<not> vs_plain d" "\<not> vs_checked_prefix d" "\<not> length (vd_input d) < 21" "take 16 (vd_input d) \<noteq> vs_user_id d" by blast
  then show ?thesis
  proof cases
    case 1
    then show ?thesis using assms by (auto simp: process_plain) (simp add: make_plain_def vision_push_def)
  next
    case 2
    then have "vision_loop d = (r, d')" using assms by (simp add: process_checked)
    from loop_push [OF _ _ this, of b] 2 process_checked [of "vision_push b d"] show ?thesis by (cases r) simp_all
  next
    case 3
    then show ?thesis using assms by (auto simp: process_buffer_def)
  next
    case 4
    let ?s = "d\<lparr>vs_checked_prefix := True, vs_saw_vision_prefix := True, vd_input := drop 16 (vd_input d), vs_remaining_command := 5\<rparr>"
    have "vision_loop ?s = (r, d')" using 4 assms by (simp add: process_buffer_def)
    from loop_push [OF _ _ this, of b] 4(1)
    have "case r of Inl e \<Rightarrow> fst (vision_loop (vision_push b ?s)) = Inl e
      | Inr _ \<Rightarrow> vision_loop (vision_push b ?s) = process_buffer (vision_push b d')" by simp
    moreover have "process_buffer (vision_push b d) = vision_loop (vision_push b ?s)"
      using 4 by (cases d) (simp add: process_buffer_def vision_push_def)
    ultimately show ?thesis by (cases r) (simp_all only: sum.case)
  next
    case 5
    then have "r = Inr ()" "d' = make_plain (d\<lparr>vs_checked_prefix := True\<rparr>)" using assms by (simp_all add: process_buffer_def)
    moreover have "process_buffer (vision_push b d) = (Inr (), make_plain (vision_push b d\<lparr>vs_checked_prefix := True\<rparr>))"
      using 5 by (simp add: process_buffer_def)
    ultimately show ?thesis by (simp add: process_plain) (simp add: make_plain_def vision_push_def)
  qed
qed

lemma feed_is_process:
  assumes "cs \<noteq> []"
  shows "fst (vision_feed d cs) = fst (process_buffer (vision_push (concat cs) d)) \<and>
    (fst (vision_feed d cs) = Inr () \<longrightarrow> vision_feed d cs = process_buffer (vision_push (concat cs) d))"
  using assms
proof (induction cs arbitrary: d)
  case (Cons c cs)
  obtain r d1 where p: "process_buffer (vision_push c d) = (r, d1)" by force
  have all: "vision_push (concat (c # cs)) d = vision_push (concat cs) (vision_push c d)" by simp
  note pp = process_push [OF p, of "concat cs", folded all]
  show ?case
  proof (cases r)
    case (Inl e)
    then have "fst (vision_feed d (c # cs)) = Inl e" using p by simp
    with pp show ?thesis unfolding Inl sum.case by simp
  next
    case (Inr u)
    then have f: "vision_feed d (c # cs) = vision_feed d1 cs" using p by simp
    show ?thesis
    proof (cases "cs = []")
      case True
      then have "vision_feed d1 cs = (Inr (), d1)" and "vision_push (concat (c # cs)) d = vision_push c d" by simp_all
      then show ?thesis unfolding f using p Inr by (cases u) (simp only: fst_conv simp_thms)
    next
      case False
      show ?thesis unfolding f pp [unfolded Inr sum.case] by (rule Cons.IH [OF False])
    qed
  qed
qed simp

text \<open>
  C24. However the network cuts a stream into pieces, the decoder ends in the same state with the same output as if
  the stream had come in one piece, and it reports an error exactly when it would have then.
\<close>

theorem vision_chunking:
  assumes "cs \<noteq> []" "ds \<noteq> []" "concat cs = concat ds"
  shows "fst (vision_feed d cs) = fst (vision_feed d ds) \<and> (fst (vision_feed d cs) = Inr () \<longrightarrow> vision_feed d cs = vision_feed d ds)"
  using feed_is_process [OF assms(1), of d, unfolded assms(3)] feed_is_process [OF assms(2), of d] by argo

text \<open>An end frame with two bytes of content and one of padding, cut inside its header.\<close>

lemma vision_chunking_witness:
  "let u = replicate 16 CHR 0x61; f = u @ [CHR 0x01, CHR 0x00, CHR 0x02, CHR 0x00, CHR 0x01, CHR 0x68, CHR 0x69, CHR 0x00] in
   vision_feed (vision_decoder_new u) [f] = vision_feed (vision_decoder_new u) [take 18 f, drop 18 f] \<and>
   vd_output (snd (vision_feed (vision_decoder_new u) [f])) = ''hi''"
proof -
  let ?u = "replicate 16 CHR 0x61" let ?f = "?u @ [CHR 0x01, CHR 0x00, CHR 0x02, CHR 0x00, CHR 0x01, CHR 0x68, CHR 0x69, CHR 0x00]"
  have "fst (vision_feed (vision_decoder_new ?u) [?f]) = Inr () \<and> vd_output (snd (vision_feed (vision_decoder_new ?u) [?f])) = ''hi''"
    by code_simp
  moreover have "concat [?f] = concat [take 18 ?f, drop 18 ?f]" by simp
  ultimately show ?thesis
    using vision_chunking [of "[?f]" "[take 18 ?f, drop 18 ?f]" "vision_decoder_new ?u"] unfolding Let_def by blast
qed


end
