(* ===== verification/Vision_Facts.thy ===== *)
theory Vision_Facts
  imports Vision
begin

text \<open>
  The decoder of \<^verbatim>\<open>src/vision.rs\<close> undoes its encoder: frames are decoded one after the other, whatever padding
  they carry, and the bytes the writer put in come out in order, however the stream is cut on the way.
\<close>

section \<open>Decoding a frame\<close>

definition ready :: "vision_decoder \<Rightarrow> bool" where
  "ready d \<longleftrightarrow> vs_checked_prefix d \<and> \<not> vs_plain d \<and> vs_remaining_command d = 5 \<and>
     vs_remaining_content d \<le> 0 \<and> vs_remaining_padding d \<le> 0"

lemma or_byte: "Bit_Operations.or (push_bit 8 (int a)) (int (byte_value b)) = int (256 * a + byte_value b)"
proof -
  have "Bit_Operations.or (push_bit 8 (int a)) (int (byte_value b)) = concat_bit 8 (int (byte_value b)) (int a)"
    using byte_less [of b] by (simp add: concat_bit_def or.commute take_bit_int_eq_self)
  also have "\<dots> = int (byte_value b) + push_bit 8 (int a)"
    using byte_less [of b] by (simp add: concat_bit_eq take_bit_int_eq_self)
  finally show ?thesis by (simp add: push_bit_eq_mult)
qed

lemma header_step:
  assumes "\<not> vs_plain d" "vd_input d = c # r" "1 < vs_remaining_command d"
  shows "vision_loop d = vision_loop (header_byte c (d\<lparr>vd_input := r\<rparr>))"
proof -
  have "vision_loop d = vision_continue (header_byte c (d\<lparr>vd_input := r\<rparr>))"
    using assms by (simp add: vision_loop_step vision_consume_def)
  moreover have "\<not> frame_done (header_byte c (d\<lparr>vd_input := r\<rparr>))"
    using assms(3) by (simp add: frame_done_def header_byte_def Let_def)
  ultimately show ?thesis by (simp add: vision_continue_open)
qed

lemma header_decoded:
  assumes "ready d" "vd_input d = [c, a1, a0, b1, b0] @ r"
  shows "vision_loop d = vision_continue (d\<lparr>vs_remaining_command := 0, vs_current_command := c,
    vs_remaining_content := int (256 * byte_value a1 + byte_value a0),
    vs_remaining_padding := int (256 * byte_value b1 + byte_value b0), vd_input := r\<rparr>)"
proof -
  have "vision_loop d = vision_loop (d\<lparr>vs_remaining_command := 4, vs_current_command := c, vd_input := [a1, a0, b1, b0] @ r\<rparr>)"
    using assms by (cases d, subst header_step) (auto simp: ready_def header_byte_def)
  also have "\<dots> = vision_loop (d\<lparr>vs_remaining_command := 3, vs_current_command := c,
      vs_remaining_content := push_bit 8 (int (byte_value a1)), vd_input := [a0, b1, b0] @ r\<rparr>)"
    using assms by (cases d, subst header_step) (auto simp: ready_def header_byte_def)
  also have "\<dots> = vision_loop (d\<lparr>vs_remaining_command := 2, vs_current_command := c,
      vs_remaining_content := int (256 * byte_value a1 + byte_value a0), vd_input := [b1, b0] @ r\<rparr>)"
    using assms by (cases d, subst header_step) (auto simp: ready_def header_byte_def or_byte)
  also have "\<dots> = vision_loop (d\<lparr>vs_remaining_command := 1, vs_current_command := c,
      vs_remaining_content := int (256 * byte_value a1 + byte_value a0),
      vs_remaining_padding := push_bit 8 (int (byte_value b1)), vd_input := [b0] @ r\<rparr>)"
    using assms by (cases d, subst header_step) (auto simp: ready_def header_byte_def)
  also have "\<dots> = vision_continue (d\<lparr>vs_remaining_command := 0, vs_current_command := c,
      vs_remaining_content := int (256 * byte_value a1 + byte_value a0),
      vs_remaining_padding := int (256 * byte_value b1 + byte_value b0), vd_input := r\<rparr>)"
    using assms by (cases d, subst vision_loop_step) (auto simp: ready_def vision_consume_def header_byte_def or_byte)
  finally show ?thesis .
qed

lemma content_decoded:
  assumes "\<not> vs_plain d" "vs_remaining_command d = 0" "vs_remaining_content d = int (length p)" "vd_input d = p @ r"
  shows "vision_continue d = vision_continue (d\<lparr>vs_remaining_content := 0, vd_output := vd_output d @ p, vd_input := r\<rparr>)"
proof (cases "p = []")
  case True
  then show ?thesis using assms by (cases d) simp
next
  case False
  then have "vision_continue d = vision_loop d" using assms by (intro vision_continue_open) (simp add: frame_done_def)
  also have "\<dots> = vision_continue (vision_consume d)" using assms False by (simp add: vision_loop_step)
  finally show ?thesis using assms False by (cases d) (simp add: consume_content)
qed

lemma padding_decoded:
  assumes "\<not> vs_plain d" "vs_remaining_command d = 0" "vs_remaining_content d = 0"
    "vs_remaining_padding d = int (length p)" "vd_input d = p @ r"
  shows "vision_continue d = vision_continue (d\<lparr>vs_remaining_padding := 0, vd_input := r\<rparr>)"
proof (cases "p = []")
  case True
  then show ?thesis using assms by (cases d) simp
next
  case False
  then have "vision_continue d = vision_loop d" using assms by (intro vision_continue_open) (simp add: frame_done_def)
  also have "\<dots> = vision_continue (vision_consume d)" using assms False by (simp add: vision_loop_step)
  finally show ?thesis using assms False by (cases d) (simp add: consume_padding)
qed

lemma frame_decoded:
  assumes "ready d" "length p < 65536" "length q < 65536"
    "vd_input d = [c] @ be_bytes 2 (length p) @ be_bytes 2 (length q) @ p @ q @ r"
  shows "vision_loop d = vision_continue (d\<lparr>vs_remaining_command := 0, vs_current_command := c, vs_remaining_content := 0,
    vs_remaining_padding := 0, vd_output := vd_output d @ p, vd_input := r\<rparr>)"
proof -
  have "vision_loop d = vision_continue (d\<lparr>vs_remaining_command := 0, vs_current_command := c,
      vs_remaining_content := int (length p), vs_remaining_padding := int (length q), vd_input := p @ q @ r\<rparr>)"
    using header_decoded [OF assms(1), of c "char_of (length p div 256)" "char_of (length p)"
        "char_of (length q div 256)" "char_of (length q)" "p @ q @ r"] assms
    by (simp add: be_bytes_two length_field del: of_nat_add)
  also have "\<dots> = vision_continue (d\<lparr>vs_remaining_command := 0, vs_current_command := c, vs_remaining_content := 0,
      vs_remaining_padding := int (length q), vd_output := vd_output d @ p, vd_input := q @ r\<rparr>)"
    using assms(1) by (cases d, subst content_decoded [of _ p "q @ r"]) (auto simp: ready_def)
  also have "\<dots> = vision_continue (d\<lparr>vs_remaining_command := 0, vs_current_command := c, vs_remaining_content := 0,
      vs_remaining_padding := 0, vd_output := vd_output d @ p, vd_input := r\<rparr>)"
    using assms(1) by (cases d, subst padding_decoded [of _ q r]) (auto simp: ready_def)
  finally show ?thesis .
qed

section \<open>A session\<close>

text \<open>What the writer does: it sends data, an empty padded frame, or ends the padding.\<close>

datatype vision_event = Vwrite "nat option" "nat \<Rightarrow> char" bytes | Vpad "nat option" "nat \<Rightarrow> char" | Vfinish

definition opt_bytes :: "bytes option \<Rightarrow> bytes" where
  "opt_bytes f = (case f of Some b \<Rightarrow> b | None \<Rightarrow> [])"

fun vision_send :: "vision_event \<Rightarrow> vision_encoder \<Rightarrow> bytes \<times> vision_encoder" where
  "vision_send (Vwrite rnd fill input) e = vision_encode rnd fill input e"
| "vision_send (Vpad rnd fill) e = (case empty_long_padding_frame rnd fill e of (f, e') \<Rightarrow> (opt_bytes f, e'))"
| "vision_send Vfinish e = (case finish_padding e of (f, e') \<Rightarrow> (opt_bytes f, e'))"

fun vision_stream :: "vision_encoder \<Rightarrow> vision_event list \<Rightarrow> bytes list" where
  "vision_stream e [] = []"
| "vision_stream e (w # ws) = (case vision_send w e of (out, e') \<Rightarrow> out # vision_stream e' ws)"

fun vision_content :: "vision_event \<Rightarrow> bytes" where
  "vision_content (Vwrite _ _ input) = input"
| "vision_content _ = []"

text \<open>The decoder has read all that the encoder wrote.\<close>

definition synced :: "vision_encoder \<Rightarrow> vision_decoder \<Rightarrow> bool" where
  "synced e d \<longleftrightarrow> vd_input d = [] \<and>
     (if \<not> ve_padding_active e then vs_plain d
      else case ve_user_id e of
        Some u \<Rightarrow> length u = 16 \<and> vs_user_id d = u \<and> \<not> vs_checked_prefix d \<and> \<not> vs_plain d \<and>
          vs_remaining_content d \<le> 0 \<and> vs_remaining_padding d \<le> 0
      | None \<Rightarrow> ready d)"

lemma synced_new: "length u = 16 \<Longrightarrow> synced (vision_encoder_new u) (vision_decoder_new u)"
  by (simp add: synced_def vision_encoder_new_def vision_decoder_new_def)

lemma synced_nothing: "synced e d \<Longrightarrow> process_buffer d = (Inr (), d)"
  by (cases d) (auto simp: synced_def process_buffer_def ready_def make_plain_def split: if_splits option.splits)

lemma synced_plain: "synced e d \<Longrightarrow> \<not> ve_padding_active e \<Longrightarrow>
  process_buffer (vision_push b d) = (Inr (), d\<lparr>vd_output := vd_output d @ b\<rparr>)"
  by (cases d) (simp add: synced_def process_buffer_def make_plain_def vision_push_def)

text \<open>The state in which the loop meets the first byte of a frame.\<close>

definition unwrapped :: "vision_encoder \<Rightarrow> bytes \<Rightarrow> vision_decoder \<Rightarrow> vision_decoder" where
  "unwrapped e b d = (case ve_user_id e of
     Some u \<Rightarrow> d\<lparr>vs_checked_prefix := True, vs_saw_vision_prefix := True, vd_input := b, vs_remaining_command := 5\<rparr>
   | None \<Rightarrow> d\<lparr>vd_input := b\<rparr>)"

lemma unwrapped_ready:
  assumes "synced e d" "ve_padding_active e"
  shows "ready (unwrapped e b d)" "vd_input (unwrapped e b d) = b" "vd_output (unwrapped e b d) = vd_output d"
  using assms by (auto simp: unwrapped_def synced_def ready_def split: option.splits)

lemma process_unwrapped:
  assumes "synced e d" "ve_padding_active e" "5 \<le> length b"
  shows "process_buffer (vision_push (opt_bytes (ve_user_id e) @ b) d) = vision_loop (unwrapped e b d)"
  using assms
  by (cases d; cases "ve_user_id e") (auto simp: unwrapped_def synced_def ready_def process_buffer_def vision_push_def opt_bytes_def)

lemma frame_received:
  assumes s: "synced e d" "ve_padding_active e" and len: "length p \<le> 65535" "n \<le> 65535"
    and c: "c = command_padding_continue \<or> c = command_padding_end \<or> c = command_padding_direct"
    and e': "ve_user_id e' = None" "ve_padding_active e' \<longleftrightarrow> c = command_padding_continue"
  shows "\<exists>d'. process_buffer (vision_push (vision_frame (ve_user_id e) c p n fill) d) = (Inr (), d') \<and>
    synced e' d' \<and> vd_output d' = vd_output d @ p"
proof -
  let ?q = "map fill [0..<n]"
  let ?b = "[c] @ be_bytes 2 (length p) @ be_bytes 2 (length ?q) @ p @ ?q @ []"
  let ?u = "unwrapped e ?b d"
  let ?d = "?u\<lparr>vs_remaining_command := 0, vs_current_command := c, vs_remaining_content := 0,
    vs_remaining_padding := 0, vd_output := vd_output ?u @ p, vd_input := []\<rparr>"
  have "vision_frame (ve_user_id e) c p n fill = opt_bytes (ve_user_id e) @ ?b"
    by (simp add: vision_frame_def append_random_padding_def opt_bytes_def split: option.split)
  moreover have "process_buffer (vision_push (opt_bytes (ve_user_id e) @ ?b) d) = vision_loop ?u"
    by (rule process_unwrapped [OF s]) simp
  moreover have "vision_loop ?u = vision_continue ?d"
    by (rule frame_decoded [of _ _ ?q]) (use unwrapped_ready [OF s, of ?b] len in simp_all)
  moreover have "\<exists>d'. vision_continue ?d = (Inr (), d') \<and> synced e' d' \<and> vd_output d' = vd_output d @ p"
    using c e' unwrapped_ready [OF s, of ?b]
    by (auto simp: vision_continue_def vision_next_def frame_done_def make_plain_def synced_def ready_def command_defs)
  ultimately show ?thesis by simp
qed

lemma filter_tls_kept [simp]: "ve_user_id (filter_tls b e) = ve_user_id e" "ve_padding_active (filter_tls b e) = ve_padding_active e"
  by (simp_all add: filter_tls_def Let_def)

lemma next_command_cases:
  "next_command b e = (c, k, l, s) \<Longrightarrow>
   (c = command_padding_continue \<or> c = command_padding_end \<or> c = command_padding_direct) \<and> (k \<longleftrightarrow> c = command_padding_continue)"
  by (auto simp: next_command_def command_defs split: if_splits)

lemma padding_len_bound: "padding_len rnd n l \<le> 65535"
  by (simp add: padding_len_def min_le_iff_disj)

lemma idle_send: "\<not> ve_padding_active e \<Longrightarrow> vision_send w e = (vision_content w, e)" "vision_send (Vwrite rnd fill []) e = ([], e)"
  by (cases w) (simp_all add: vision_encode_def empty_long_padding_frame_def finish_padding_def opt_bytes_def)

lemma write_send:
  assumes "ve_padding_active e" "p \<noteq> []" "length p \<le> 65535"
    "next_command (is_complete_tls_application_data_records p) (filter_tls p e) = (c, k, l, sw)"
  shows "vision_send (Vwrite rnd fill p) e = (vision_frame (ve_user_id e) c p (padding_len rnd (length p) l) fill,
    (filter_tls p e)\<lparr>ve_user_id := None, ve_padding_active := k, ve_direct_copy := sw\<rparr>)"
proof -
  have "min (length p) 65535 = length p" using assms(3) by (rule min_absorb1)
  then show ?thesis using assms by (simp add: vision_encode_def)
qed

lemma event_received:
  assumes s: "synced e d" and len: "length (vision_content w) \<le> 65535" and send: "vision_send w e = (out, e')"
  shows "\<exists>d'. process_buffer (vision_push out d) = (Inr (), d') \<and> synced e' d' \<and> vd_output d' = vd_output d @ vision_content w"
proof (cases "ve_padding_active e \<and> (\<forall>rnd fill. w \<noteq> Vwrite rnd fill [])")
  case False
  then have out: "out = vision_content w" "e' = e" "out = [] \<or> \<not> ve_padding_active e"
    using send idle_send by auto
  then show ?thesis
    using synced_nothing [OF s] synced_plain [OF s, of out] s by (auto simp: synced_def)
next
  case True
  note received = frame_received [OF s]
  show ?thesis
  proof (cases w)
    case (Vwrite rnd fill p)
    obtain c k l sw where nc: "next_command (is_complete_tls_application_data_records p) (filter_tls p e) = (c, k, l, sw)"
      by (metis prod_cases4)
    have "out = vision_frame (ve_user_id e) c p (padding_len rnd (length p) l) fill"
      "e' = (filter_tls p e)\<lparr>ve_user_id := None, ve_padding_active := k, ve_direct_copy := sw\<rparr>"
      using True send len write_send [OF _ _ _ nc] unfolding Vwrite by auto
    then show ?thesis
      using received [of p "padding_len rnd (length p) l" c e' fill] True len next_command_cases [OF nc] padding_len_bound
      unfolding Vwrite by simp
  next
    case (Vpad rnd fill)
    then show ?thesis
      using received [of "[]" "padding_len rnd 0 True" command_padding_continue e' fill] True send padding_len_bound
      by (auto simp: empty_long_padding_frame_def opt_bytes_def)
  next
    case Vfinish
    then show ?thesis
      using received [of "[]" 0 command_padding_end e' "\<lambda>_. CHR 0x00"] True send
      by (auto simp: finish_padding_def opt_bytes_def command_defs)
  qed
qed

lemma stream_received:
  assumes "synced e d" "\<forall>w \<in> set ws. length (vision_content w) \<le> 65535"
  shows "\<exists>d'. vision_feed d (vision_stream e ws) = (Inr (), d') \<and> vd_output d' = vd_output d @ concat (map vision_content ws)"
  using assms
proof (induction ws arbitrary: e d)
  case (Cons w ws)
  obtain out e' where send: "vision_send w e = (out, e')" by force
  from event_received [OF Cons.prems(1) _ send] Cons.prems(2)
  obtain d1 where d1: "process_buffer (vision_push out d) = (Inr (), d1)" "synced e' d1" "vd_output d1 = vd_output d @ vision_content w"
    by auto
  from Cons.IH [OF d1(2)] Cons.prems(2)
  obtain d' where "vision_feed d1 (vision_stream e' ws) = (Inr (), d')" "vd_output d' = vd_output d1 @ concat (map vision_content ws)"
    by auto
  then show ?case using d1 send by auto
qed simp

text \<open>
  C23. Whatever a writer sends through the encoder, in writes of at most 65535 bytes with empty padded frames and the
  end of padding anywhere between them, whatever padding is drawn, and however the network cuts the resulting
  stream, the decoder for the same user reports no error and has put out exactly the bytes written, in order.
\<close>

theorem vision_roundtrip:
  assumes "length u = 16" "\<forall>w \<in> set ws. length (vision_content w) \<le> 65535"
    "cs \<noteq> []" "concat cs = concat (vision_stream (vision_encoder_new u) ws)"
  shows "\<exists>d. vision_feed (vision_decoder_new u) cs = (Inr (), d) \<and> vd_output d = concat (map vision_content ws)"
proof -
  let ?d = "vision_decoder_new u" let ?ds = "[] # vision_stream (vision_encoder_new u) ws"
  from stream_received [OF synced_new [OF assms(1)] assms(2)]
  obtain d where d: "vision_feed ?d (vision_stream (vision_encoder_new u) ws) = (Inr (), d)" "vd_output d = concat (map vision_content ws)"
    by (auto simp: vision_decoder_new_def)
  have "vision_feed ?d ?ds = (Inr (), d)" using d(1) synced_nothing [OF synced_new [OF assms(1)]] by simp
  then have "vision_feed ?d cs = (Inr (), d)"
    using feed_is_process [of ?ds ?d] feed_is_process [OF assms(3), of ?d] assms(4) by auto
  then show ?thesis using d(2) by blast
qed

text \<open>Two writes around an empty padded frame, the end of padding and a plain write, cut inside the first header.\<close>

lemma vision_roundtrip_witness:
  "let u = replicate 16 CHR 0x61;
       ws = [Vwrite (Some 7) (\<lambda>_. CHR 0x00) ''he'', Vpad None (\<lambda>_. CHR 0xff), Vwrite None (\<lambda>_. CHR 0x01) ''ll'', Vfinish, Vwrite None (\<lambda>_. CHR 0x00) ''o''];
       s = concat (vision_stream (vision_encoder_new u) ws)
   in \<exists>d. vision_feed (vision_decoder_new u) [take 20 s, drop 20 s] = (Inr (), d) \<and> vd_output d = ''hello''"
proof -
  let ?u = "replicate 16 CHR 0x61"
  let ?ws = "[Vwrite (Some 7) (\<lambda>_. CHR 0x00) ''he'', Vpad None (\<lambda>_. CHR 0xff), Vwrite None (\<lambda>_. CHR 0x01) ''ll'', Vfinish, Vwrite None (\<lambda>_. CHR 0x00) ''o'']"
  let ?s = "concat (vision_stream (vision_encoder_new ?u) ?ws)"
  have "concat [take 20 ?s, drop 20 ?s] = ?s" unfolding concat.simps append_Nil2 append_take_drop_id ..
  with vision_roundtrip [of ?u ?ws "[take 20 ?s, drop 20 ?s]"]
  have all: "\<exists>d. vision_feed (vision_decoder_new ?u) [take 20 ?s, drop 20 ?s] = (Inr (), d) \<and> vd_output d = concat (map vision_content ?ws)"
    by (simp del: vision_stream.simps vision_feed.simps concat.simps)
  have hello: "concat (map vision_content ?ws) = ''hello''" by simp
  show ?thesis unfolding Let_def by (rule all [unfolded hello])
qed

section \<open>A write too large for a frame\<close>

lemma short_header:
  "\<not> vs_plain d \<Longrightarrow> vd_input d = b \<Longrightarrow> int (length b) < vs_remaining_command d \<Longrightarrow>
   \<exists>d'. vision_loop d = (Inr (), d') \<and> vd_output d' = vd_output d"
proof (induction b arbitrary: d)
  case (Cons c r)
  let ?d = "header_byte c (d\<lparr>vd_input := r\<rparr>)"
  have "vision_loop d = vision_loop ?d" using Cons.prems by (intro header_step) simp_all
  moreover have "vs_remaining_command ?d = vs_remaining_command d - 1" by (simp add: header_byte_def Let_def)
  then have "\<exists>d'. vision_loop ?d = (Inr (), d') \<and> vd_output d' = vd_output ?d"
    using Cons.prems by (intro Cons.IH) simp_all
  ultimately show ?case by simp
qed simp

text \<open>
  What follows the first 65535 bytes of a write is appended without a frame. While padding goes on the decoder takes
  it for the header of the next frame: up to four such bytes are lost without an error.
\<close>

lemma oversized_write_lost:
  assumes "length u = 16" "length a = 65535" "b \<noteq> []" "length b < 5"
    "next_command (is_complete_tls_application_data_records a) (filter_tls a (vision_encoder_new u)) = (c, True, l, sw)"
  shows "\<exists>d. process_buffer (vision_push (fst (vision_encode rnd fill (a @ b) (vision_encoder_new u))) (vision_decoder_new u)) = (Inr (), d) \<and>
    vd_output d = a"
proof -
  let ?e = "vision_encoder_new u" let ?f = "vision_frame (Some u) c a (padding_len rnd (length a) l) fill"
  let ?e' = "?e\<lparr>ve_user_id := None\<rparr>"
  have "min (length (a @ b)) 65535 = length a" using assms(2) by simp
  then have out: "fst (vision_encode rnd fill (a @ b) ?e) = ?f @ b"
    using assms(2,3,5) unfolding vision_encode_def by (simp add: vision_encoder_new_def Let_def)
  from frame_received [OF synced_new [OF assms(1)], of a "padding_len rnd (length a) l" c ?e' fill]
  obtain d1 where d1: "process_buffer (vision_push ?f (vision_decoder_new u)) = (Inr (), d1)" "synced ?e' d1" "vd_output d1 = a"
    using next_command_cases [OF assms(5)] assms(2) padding_len_bound by (auto simp: vision_encoder_new_def vision_decoder_new_def)
  have "process_buffer (vision_push b d1) = vision_loop (vision_push b d1)"
    using d1(2) by (intro process_checked) (auto simp: synced_def ready_def vision_encoder_new_def)
  moreover have "\<exists>d. vision_loop (vision_push b d1) = (Inr (), d) \<and> vd_output d = a"
    using d1(2,3) assms(4) short_header [of "vision_push b d1" b] by (simp add: synced_def ready_def vision_encoder_new_def vision_push_def)
  ultimately show ?thesis using process_push [OF d1(1), of b] out by simp
qed

end

