(* ===== verification/Dns_Wire.thy ===== *)
theory Dns_Wire
  imports Wire
begin

text \<open>
  DNS messages as \<^verbatim>\<open>src/dns.rs\<close> writes and reads them: the query for one name and type, and the addresses of a
  response, whose names may be compressed. An index outside the message is a panic; the lemmas show that no message
  causes one, and that the answers of a server to the core's own query are read back.
\<close>

section \<open>Queries\<close>

definition query_label :: "string \<Rightarrow> bytes" where
  "query_label l = char_of (length l) # l"

definition encode_query :: "u16 \<Rightarrow> string \<Rightarrow> u16 \<Rightarrow> io_error + bytes" where
  "encode_query query_id host qtype =
     (let labels = split_on CHR ''.'' (trim_end_matches CHR ''.'' host) in
      if list_ex (\<lambda>l. l = [] \<or> 63 < length l) labels then Inl (Io InvalidInput ''dns query host label is invalid'')
      else Inr (be16 query_id @ be_bytes 2 0x0100 @ be_bytes 2 1 @ be_bytes 2 0 @ be_bytes 2 0 @ be_bytes 2 0 @
                concat (map query_label labels) @ [CHR 0x00] @ be16 qtype @ be_bytes 2 1))"

section \<open>Responses\<close>

text \<open>\<^verbatim>\<open>input[i]\<close>, and the big endian number of two such bytes.\<close>

definition byte_at :: "bytes \<Rightarrow> nat \<Rightarrow> io_error + nat" where
  "byte_at input i = (if i < length input then Inr (byte_value (input ! i)) else Inl Abort)"

definition u16_at :: "bytes \<Rightarrow> nat \<Rightarrow> io_error + nat" where
  "u16_at input i = and_then (byte_at input i) (\<lambda>a. and_then (byte_at input (i + 1)) (\<lambda>b. Inr (256 * a + b)))"

text \<open>
  The loop of \<^verbatim>\<open>read_name\<close>, with the iterations left. It returns the new offset. The two high bits of a length byte mark
  a pointer.
\<close>

fun name_loop :: "nat \<Rightarrow> bytes \<Rightarrow> nat \<Rightarrow> bool \<Rightarrow> nat \<Rightarrow> io_error + nat" where
  "name_loop 0 input cursor jumped offset = Inl (Io InvalidData ''dns name compression loop'')"
| "name_loop (Suc n) input cursor jumped offset =
     (if length input \<le> cursor then Inl (Io UnexpectedEof ''truncated dns name'')
      else let len = byte_value (input ! cursor) in
      if len div 64 = 3 then
        (if length input \<le> cursor + 1 then Inl (Io UnexpectedEof ''truncated dns name pointer'')
         else name_loop n input (256 * (len mod 64) + byte_value (input ! (cursor + 1))) True
                (if jumped then offset else cursor + 2))
      else if len = 0 then Inr (if jumped then offset else cursor + 1)
      else if length input < cursor + 1 + len then Inl (Io UnexpectedEof ''truncated dns label'')
      else name_loop n input (cursor + 1 + len) jumped (if jumped then offset else cursor + 1 + len))"

definition read_name :: "bytes \<Rightarrow> nat \<Rightarrow> io_error + nat" where
  "read_name input offset = name_loop 128 input offset False offset"

fun skip_questions :: "nat \<Rightarrow> bytes \<Rightarrow> nat \<Rightarrow> io_error + nat" where
  "skip_questions 0 input offset = Inr offset"
| "skip_questions (Suc n) input offset =
     and_then (read_name input offset) (\<lambda>offset.
       if length input - offset < 4 then Inl (Io UnexpectedEof ''truncated dns question'')
       else skip_questions n input (offset + 4))"

text \<open>The addresses an answer contributes.\<close>

definition answer_ips :: "bytes \<Rightarrow> u16 \<Rightarrow> nat \<Rightarrow> nat \<Rightarrow> nat \<Rightarrow> nat \<Rightarrow> io_error + ip_addr list" where
  "answer_ips input qtype answer_type cls data_len offset =
     (if cls = 1 \<and> answer_type = unat qtype then
        (if answer_type = 1 \<and> data_len = 4 then
           (if length input < offset + 4 then Inl Abort else Inr [ipv4_from_bytes (take 4 (drop offset input))])
         else if answer_type = 28 \<and> data_len = 16 then
           (if length input < offset + 16 then Inl Abort else Inr [ipv6_from_bytes (take 16 (drop offset input))])
         else Inr [])
      else Inr [])"

fun read_answers :: "nat \<Rightarrow> bytes \<Rightarrow> u16 \<Rightarrow> nat \<Rightarrow> io_error + ip_addr list" where
  "read_answers 0 input qtype offset = Inr []"
| "read_answers (Suc n) input qtype offset =
     and_then (read_name input offset) (\<lambda>offset.
       if length input - offset < 10 then Inl (Io UnexpectedEof ''truncated dns answer'')
       else and_then (u16_at input offset) (\<lambda>answer_type.
            and_then (u16_at input (offset + 2)) (\<lambda>cls.
            and_then (u16_at input (offset + 8)) (\<lambda>data_len.
              let offset = offset + 10 in
              if length input - offset < data_len then Inl (Io UnexpectedEof ''truncated dns answer data'')
              else and_then (answer_ips input qtype answer_type cls data_len offset) (\<lambda>ips.
                   and_then (read_answers n input qtype (offset + data_len)) (\<lambda>rest. Inr (ips @ rest)))))))"

definition parse_response :: "bytes \<Rightarrow> u16 \<Rightarrow> u16 \<Rightarrow> io_error + ip_addr list" where
  "parse_response input query_id qtype =
     (if length input < 12 then Inl (Io UnexpectedEof ''dns response is too short'')
      else and_then (u16_at input 0) (\<lambda>i.
        if i \<noteq> unat query_id then Inl (Io InvalidData ''dns response id mismatch'')
        else and_then (u16_at input 2) (\<lambda>flags.
          if flags div 0x8000 = 0 \<or> flags mod 16 \<noteq> 0 then Inl (Io InvalidData ''dns response indicates failure'')
          else and_then (u16_at input 4) (\<lambda>question_count.
               and_then (u16_at input 6) (\<lambda>answer_count.
               and_then (skip_questions question_count input 12) (\<lambda>offset.
                 read_answers answer_count input qtype offset))))))"

section \<open>No message causes a panic\<close>

text \<open>Reading a name advances the offset and stays inside the message.\<close>

lemma name_loop_progress:
  "name_loop n input cursor jumped offset = Inr o' \<Longrightarrow>
   if jumped then o' = offset else cursor < o' \<and> o' \<le> length input"
proof (induction n arbitrary: cursor jumped offset)
  case (Suc n)
  from Suc.prems show ?case
    using Suc.IH [of "256 * (byte_value (input ! cursor) mod 64) + byte_value (input ! (cursor + 1))" True "if jumped then offset else cursor + 2"]
      Suc.IH [of "cursor + 1 + byte_value (input ! cursor)" jumped "if jumped then offset else cursor + 1 + byte_value (input ! cursor)"]
    by (auto simp: Let_def split: if_splits)
qed simp

lemma read_name_progress: "read_name input offset = Inr o' \<Longrightarrow> offset < o' \<and> o' \<le> length input"
  using name_loop_progress [of 128 input offset False offset o'] by (simp add: read_name_def)

lemma name_loop_no_abort: "name_loop n input cursor jumped offset \<noteq> Inl Abort"
  by (induction n arbitrary: cursor jumped offset) (auto simp: Let_def)

lemma u16_at_ok: "i + 1 < length input \<Longrightarrow> u16_at input i = Inr (256 * byte_value (input ! i) + byte_value (input ! (i + 1)))"
  by (simp add: u16_at_def byte_at_def)

lemma and_then_Inl_iff: "and_then r k = Inl e \<longleftrightarrow> r = Inl e \<or> (\<exists>x. r = Inr x \<and> k x = Inl e)"
  by (cases r) auto

lemma skip_questions_no_abort: "skip_questions n input offset \<noteq> Inl Abort"
  by (induction n arbitrary: offset) (auto simp: and_then_Inl_iff read_name_def name_loop_no_abort split: if_splits)

lemma answer_ips_no_abort: "data_len \<le> length input - offset \<Longrightarrow> offset \<le> length input \<Longrightarrow> answer_ips input q t c data_len offset \<noteq> Inl Abort"
  by (auto simp: answer_ips_def)

lemma read_answers_no_abort: "read_answers n input qtype offset \<noteq> Inl Abort"
proof (induction n arbitrary: offset)
  case (Suc n)
  show ?case
  proof
    assume "read_answers (Suc n) input qtype offset = Inl Abort"
    then obtain o' where o: "read_name input offset = Inr o'" "\<not> length input - o' < 10"
      "and_then (u16_at input o') (\<lambda>t. and_then (u16_at input (o' + 2)) (\<lambda>c. and_then (u16_at input (o' + 8)) (\<lambda>dl.
         if length input - (o' + 10) < dl then Inl (Io UnexpectedEof ''truncated dns answer data'')
         else and_then (answer_ips input qtype t c dl (o' + 10)) (\<lambda>ips.
              and_then (read_answers n input qtype (o' + 10 + dl)) (\<lambda>rest. Inr (ips @ rest)))))) = Inl Abort"
      by (auto simp: and_then_Inl_iff read_name_def name_loop_no_abort Let_def split: if_splits)
    then show False
      using Suc.IH answer_ips_no_abort by (auto simp: u16_at_ok and_then_Inl_iff split: if_splits)
  qed
qed simp

lemma answers_of_type:
  "read_answers n input qtype offset = Inr ips \<Longrightarrow> ip \<in> set ips \<Longrightarrow> case ip of V4 _ \<Rightarrow> qtype = 1 | V6 _ \<Rightarrow> qtype = 28"
proof (induction n arbitrary: offset ips)
  case (Suc n)
  from Suc.prems(1) obtain t c dl o' now rest where
    "answer_ips input qtype t c dl o' = Inr now" "read_answers n input qtype (o' + dl) = Inr rest" "ips = now @ rest"
    by (auto simp: result_simps Let_def split: if_splits)
  moreover have "case ip of V4 _ \<Rightarrow> qtype = 1 | V6 _ \<Rightarrow> qtype = 28" if "ip \<in> set now"
    using that calculation(1)
    by (auto simp: answer_ips_def ipv4_from_bytes_def ipv6_from_bytes_def word_unat_eq_iff split: if_splits)
  ultimately show ?case using Suc by auto
qed simp

text \<open>
  C22. No DNS response, however malformed, makes the parser index outside the message or follow compression pointers
  forever: it returns an I/O error or addresses, and these are of the family that was asked for.
\<close>

theorem dns_parse_never_panics:
  "parse_response input query_id qtype \<noteq> Inl Abort \<and>
   (\<forall>ips ip. parse_response input query_id qtype = Inr ips \<longrightarrow> ip \<in> set ips \<longrightarrow> (case ip of V4 _ \<Rightarrow> qtype = 1 | V6 _ \<Rightarrow> qtype = 28))"
proof -
  have "parse_response input query_id qtype \<noteq> Inl Abort"
    by (auto simp: parse_response_def u16_at_ok and_then_Inl_iff skip_questions_no_abort read_answers_no_abort split: if_splits)
  moreover have "\<exists>n offset. read_answers n input qtype offset = Inr ips" if "parse_response input query_id qtype = Inr ips" for ips
    using that by (auto simp: parse_response_def result_simps split: if_splits)
  ultimately show ?thesis using answers_of_type by blast
qed

definition looping_response :: bytes where
  "looping_response = be_bytes 2 7 @ be_bytes 2 0x8180 @ be_bytes 2 0 @ be_bytes 2 1 @ be_bytes 2 0 @ be_bytes 2 0 @ [CHR 0xc0, CHR 0x0c]"

lemma dns_parse_never_panics_witness:
  "parse_response looping_response 7 1 = Inl (Io InvalidData ''dns name compression loop'') \<and>
   parse_response looping_response 7 1 \<noteq> Inl Abort"
proof -
  have "parse_response looping_response 7 1 = Inl (Io InvalidData ''dns name compression loop'')" by code_simp
  then show ?thesis using dns_parse_never_panics [of looping_response 7 1] by blast
qed

section \<open>The answers to a query are read back\<close>

lemma name_of_labels:
  assumes "\<forall>l \<in> set labels. l \<noteq> [] \<and> length l \<le> 63" "length labels < n"
  shows "name_loop n (pre @ concat (map query_label labels) @ CHR 0x00 # post) (length pre) jumped offset =
    Inr (if jumped then offset else length pre + length (concat (map query_label labels)) + 1)"
  using assms
proof (induction labels arbitrary: n pre offset)
  case Nil
  then obtain m where "n = Suc m" by (cases n) auto
  then show ?case by (simp add: nth_append)
next
  case (Cons l labels)
  then obtain m where m: "n = Suc m" by (cases n) auto
  let ?rest = "concat (map query_label labels) @ CHR 0x00 # post"
  let ?in = "pre @ concat (map query_label (l # labels)) @ CHR 0x00 # post"
  have l: "byte_value (?in ! length pre) = length l" "l \<noteq> []" "length l \<le> 63"
    using Cons.prems(1) by (simp_all add: nth_append query_label_def)
  have "?in = (pre @ query_label l) @ ?rest" "length (pre @ query_label l) = length pre + 1 + length l"
    by (simp_all add: query_label_def)
  then have "name_loop m ?in (length pre + 1 + length l) jumped x =
    Inr (if jumped then x else length pre + 1 + length l + length (concat (map query_label labels)) + 1)" for x
    using Cons.IH [of m "pre @ query_label l" x] Cons.prems m by simp
  then show ?case using l m by (cases jumped) (simp_all add: Let_def query_label_def [of l])
qed

lemma u16_at_append: "v < 65536 \<Longrightarrow> u16_at (pre @ be_bytes 2 v @ post) (length pre) = Inr v"
  using length_field [of v] by (simp add: be_bytes_two u16_at_def byte_at_def nth_append)

lemma u16_at_here: "v < 65536 \<Longrightarrow> k = length pre \<Longrightarrow> input = pre @ be_bytes 2 v @ post \<Longrightarrow> u16_at input k = Inr v"
  by (simp add: u16_at_append)

text \<open>What a server sends for a query: its question again, and for each address a record named by a pointer to it.\<close>

definition dns_record :: "u16 \<Rightarrow> bytes \<Rightarrow> ip_addr \<Rightarrow> bytes" where
  "dns_record qtype ttl ip =
     [CHR 0xc0, CHR 0x0c] @ be16 qtype @ be_bytes 2 1 @ ttl @ be_bytes 2 (length (ip_octets ip)) @ ip_octets ip"

definition dns_reply :: "u16 \<Rightarrow> bytes \<Rightarrow> u16 \<Rightarrow> bytes \<Rightarrow> ip_addr list \<Rightarrow> bytes" where
  "dns_reply query_id query qtype ttl ips =
     be16 query_id @ be_bytes 2 0x8180 @ be_bytes 2 1 @ be_bytes 2 (length ips) @ be_bytes 2 0 @ be_bytes 2 0 @
     drop 12 query @ concat (map (dns_record qtype ttl) ips)"

definition of_type :: "u16 \<Rightarrow> ip_addr \<Rightarrow> bool" where
  "of_type qtype ip = (case ip of V4 _ \<Rightarrow> qtype = 1 | V6 _ \<Rightarrow> qtype = 28)"

lemma pointer_name:
  assumes "\<forall>l \<in> set labels. l \<noteq> [] \<and> length l \<le> 63" "length labels < 127"
    and "input = pre @ concat (map query_label labels) @ CHR 0x00 # post" "length pre = 12"
    and "input = front @ [CHR 0xc0, CHR 0x0c] @ rear" "offset = length front"
  shows "read_name input offset = Inr (offset + 2)"
proof -
  have "name_loop 128 input offset False offset = name_loop 127 input 12 True (offset + 2)"
    using assms(5,6) name_loop.simps(2) [of 127 input offset False offset] by (simp add: nth_append)
  also have "\<dots> = Inr (offset + 2)" using name_of_labels [OF assms(1,2), of pre post True "offset + 2"] assms(3,4) by simp
  finally show ?thesis by (simp add: read_name_def)
qed

lemma record_read:
  assumes "of_type qtype ip" "length ttl = 4" "read_name input offset = Inr (offset + 2)"
    and "input = front @ dns_record qtype ttl ip @ rear" "offset = length front"
  shows "read_answers (Suc n) input qtype offset =
    and_then (read_answers n input qtype (offset + length (dns_record qtype ttl ip))) (\<lambda>rest. Inr (ip # rest))"
proof -
  let ?o = "offset + 2" let ?k = "length (ip_octets ip)"
  have k: "?k = 4 \<or> ?k = 16" by (cases ip) simp_all
  have len: "length (dns_record qtype ttl ip) = 12 + ?k" using assms(2) by (simp add: dns_record_def)
  have q: "unat qtype < 2 ^ LENGTH(16)" by (rule unsigned_less)
  have t: "u16_at input ?o = Inr (unat qtype)"
    by (rule u16_at_here [of _ _ "front @ [CHR 0xc0, CHR 0x0c]"]) (use assms(4,5) q in \<open>simp_all add: dns_record_def be16_def\<close>)
  have c: "u16_at input (?o + 2) = Inr 1"
    by (rule u16_at_here [of _ _ "front @ [CHR 0xc0, CHR 0x0c] @ be16 qtype"]) (use assms(4,5) in \<open>simp_all add: dns_record_def\<close>)
  have d: "u16_at input (?o + 8) = Inr ?k"
    by (rule u16_at_here [of _ _ "front @ [CHR 0xc0, CHR 0x0c] @ be16 qtype @ be_bytes 2 1 @ ttl"])
       (use assms(2,4,5) k in \<open>auto simp: dns_record_def\<close>)
  have data: "take ?k (drop (?o + 10) input) = ip_octets ip" "?o + 10 + ?k \<le> length input"
    using assms(2,4,5) by (simp_all add: dns_record_def)
  have "answer_ips input qtype (unat qtype) 1 ?k (?o + 10) = Inr [ip]"
    using assms(1) data by (cases ip) (auto simp: answer_ips_def of_type_def)
  moreover have "\<not> length input - ?o < 10" "\<not> length input - (?o + 10) < ?k" using data(2) by arith+
  moreover have "?o + 10 + ?k = offset + length (dns_record qtype ttl ip)" using len by simp
  ultimately show ?thesis using assms(3) t c d by (simp only: read_answers.simps and_then_simps Let_def if_False append.simps)
qed

lemma records_read:
  assumes "\<forall>ip \<in> set ips. of_type qtype ip" "length ttl = 4"
    and "\<And>front rear. input = front @ [CHR 0xc0, CHR 0x0c] @ rear \<Longrightarrow> read_name input (length front) = Inr (length front + 2)"
    and "input = front @ concat (map (dns_record qtype ttl) ips)"
  shows "read_answers (length ips) input qtype (length front) = Inr ips"
  using assms(1,4)
proof (induction ips arbitrary: front)
  case (Cons ip ips)
  let ?r = "dns_record qtype ttl ip"
  have "input = front @ [CHR 0xc0, CHR 0x0c] @ (drop 2 ?r @ concat (map (dns_record qtype ttl) ips))"
    using Cons.prems(2) by (simp add: dns_record_def [of qtype ttl ip])
  note name = assms(3) [OF this]
  have "read_answers (length ips) input qtype (length (front @ ?r)) = Inr ips"
    using Cons.prems by (intro Cons.IH) simp_all
  then show ?case
    using record_read [OF _ assms(2) name, of qtype ip front _ "length ips"] Cons.prems by (simp del: read_answers.simps)
qed simp

text \<open>
  C21. A server's answer to the core's own query, with the question repeated and every record named by a compression
  pointer to it, gives exactly the server's addresses, in order, for every host name of at most 126 labels.
\<close>

theorem dns_answers_roundtrip:
  assumes "encode_query query_id host qtype = Inr query" "length (split_on CHR ''.'' (trim_end_matches CHR ''.'' host)) < 127"
    and "\<forall>ip \<in> set ips. of_type qtype ip" "length ips < 65536" "length ttl = 4"
  shows "parse_response (dns_reply query_id query qtype ttl ips) query_id qtype = Inr ips"
proof -
  let ?labels = "split_on CHR ''.'' (trim_end_matches CHR ''.'' host)" and ?in = "dns_reply query_id query qtype ttl ips"
  let ?head = "be16 query_id @ be_bytes 2 0x8180 @ be_bytes 2 1 @ be_bytes 2 (length ips) @ be_bytes 2 0 @ be_bytes 2 0"
  let ?q = "concat (map query_label ?labels)" and ?rs = "concat (map (dns_record qtype ttl) ips)"
  have labels: "\<forall>l \<in> set ?labels. l \<noteq> [] \<and> length l \<le> 63"
    using assms(1) by (auto simp: encode_query_def Let_def list_ex_iff split: if_splits)
  have tail: "drop 12 query = ?q @ [CHR 0x00] @ be16 qtype @ be_bytes 2 1"
    using assms(1) by (auto simp: encode_query_def Let_def split: if_splits)
  have eq: "?in = ?head @ ?q @ CHR 0x00 # (be16 qtype @ be_bytes 2 1 @ ?rs)" by (simp add: dns_reply_def tail)
  have name: "read_name ?in 12 = Inr (12 + length ?q + 1)"
    using name_of_labels [OF labels, of 128 ?head "be16 qtype @ be_bytes 2 1 @ ?rs" False 12] assms(2) by (simp add: eq read_name_def)
  then have skip: "skip_questions 1 ?in 12 = Inr (length (?head @ ?q @ CHR 0x00 # be16 qtype @ be_bytes 2 1))"
    by (simp add: eq)
  have point: "read_name ?in (length front) = Inr (length front + 2)" if "?in = front @ [CHR 0xc0, CHR 0x0c] @ rear" for front rear
    by (rule pointer_name [OF labels assms(2) eq _ that]) simp_all
  have answers: "read_answers (length ips) ?in qtype (length (?head @ ?q @ CHR 0x00 # be16 qtype @ be_bytes 2 1)) = Inr ips"
    by (rule records_read [OF assms(3,5) point]) (simp_all add: eq)
  have "unat query_id < 2 ^ LENGTH(16)" by (rule unsigned_less)
  then have "u16_at ?in 0 = Inr (unat query_id)" "u16_at ?in 2 = Inr 0x8180" "u16_at ?in 4 = Inr 1" "u16_at ?in 6 = Inr (length ips)"
    using assms(4) by (simp_all add: eq u16_at_here [of _ _ "[]"] u16_at_here [of _ _ "be16 query_id"] be16_def
        u16_at_here [of _ _ "be16 query_id @ be_bytes 2 0x8180"] u16_at_here [of _ _ "be16 query_id @ be_bytes 2 0x8180 @ be_bytes 2 1"])
  moreover have "12 \<le> length ?in" by (simp add: eq)
  ultimately show ?thesis using skip answers by (simp add: parse_response_def del: read_answers.simps skip_questions.simps)
qed

lemma dns_answers_roundtrip_witness:
  "\<exists>query. encode_query 7 ''a.example.'' 1 = Inr query \<and>
     parse_response (dns_reply 7 query 1 ''TTL4'' [V4 0x01020304, V4 0x05060708]) 7 1 = Inr [V4 0x01020304, V4 0x05060708]"
proof -
  have "\<not> isl (encode_query 7 ''a.example.'' 1)" "length (split_on CHR ''.'' (trim_end_matches CHR ''.'' ''a.example.'')) < 127"
    by code_simp+
  then obtain query where "encode_query 7 ''a.example.'' 1 = Inr query" by (auto simp: isl_def split: sum.splits) (metis sum.exhaust)
  with dns_answers_roundtrip [of 7 "''a.example.''" 1 query "[V4 0x01020304, V4 0x05060708]" "''TTL4''"] \<open>length _ < 127\<close>
  show ?thesis by (simp add: of_type_def)
qed

end
