(* ===== verification/Dns.thy ===== *)
theory Dns
  imports Dns_Wire Routing
begin

text \<open>
  Name resolution and connecting, \<^verbatim>\<open>src/dns.rs\<close>: the configured servers and the system resolver, the cache of
  addresses and the cache of failures, the filter of private addresses with its allowlist, the fallback for one video
  host, the order in which addresses are tried, the race between them, the backoff of targets that keep failing and
  the bound on attempts in flight. The statics of the source are one record. What the network and the system
  resolver answer is \<open>dns_env\<close>; \<open>now k\<close> is the reading of the clock at the \<open>k\<close>-th place a call reads it.
\<close>

section \<open>State\<close>

type_synonym dns_key = "string \<times> u16"

record dns_positive_entry =
  dp_expires_at :: instant
  dp_addrs :: "sock_addr list"

record dns_negative_entry =
  dg_expires_at :: instant
  dg_error :: io_error

record googlevideo_entry =
  gf_expires_at :: instant
  gf_ips :: "ip_addr list"

record tcp_failure_entry =
  tf_failures :: u32
  tf_window_started :: instant
  tf_blocked_until :: "instant option"

record dns_state =
  dn_config :: dns_config
  dn_query_id :: u16
  dn_positive :: "(dns_key, dns_positive_entry) hmap"
  dn_negative :: "(dns_key, dns_negative_entry) hmap"
  dn_fallback :: "googlevideo_entry option"
  dn_backoff :: "(dns_key, tcp_failure_entry) hmap"
  dn_inflight :: "(dns_key, nat) hmap"
  dn_resolve_total :: u64
  dn_system_query_total :: u64
  dn_configured_query_total :: u64
  dn_positive_hit_total :: u64
  dn_negative_hit_total :: u64
  dn_resolve_error_total :: u64
  dn_private_filter_total :: u64
  dn_private_block_total :: u64
  dn_backoff_reject_total :: u64
  dn_inflight_reject_total :: u64

definition default_dns_config :: dns_config where
  "default_dns_config = \<lparr>dc_servers = [], dc_query_strategy = [], dc_block_private_ips = False, dc_private_ip_allowlist = []\<rparr>"

definition dns_start :: dns_state where
  "dns_start = \<lparr>dn_config = default_dns_config, dn_query_id = 1, dn_positive = [], dn_negative = [], dn_fallback = None,
     dn_backoff = [], dn_inflight = [], dn_resolve_total = 0, dn_system_query_total = 0, dn_configured_query_total = 0,
     dn_positive_hit_total = 0, dn_negative_hit_total = 0, dn_resolve_error_total = 0, dn_private_filter_total = 0,
     dn_private_block_total = 0, dn_backoff_reject_total = 0, dn_inflight_reject_total = 0\<rparr>"

record dns_env =
  dx_route :: route_env
  dx_lower :: "string \<Rightarrow> string"
  dx_lookup :: "string \<Rightarrow> u16 \<Rightarrow> io_error + sock_addr list"
  dx_udp :: "sock_addr \<Rightarrow> bytes \<Rightarrow> io_error + bytes"
  dx_tcp :: "sock_addr \<Rightarrow> io_error + bytes"

definition configure :: "dns_config \<Rightarrow> dns_state \<Rightarrow> dns_state" where
  "configure config st = st\<lparr>dn_config := config, dn_positive := [], dn_negative := [], dn_fallback := None, dn_backoff := []\<rparr>"

section \<open>Caches\<close>

definition dns_cache_key :: "string \<Rightarrow> u16 \<Rightarrow> dns_key" where
  "dns_cache_key host port = (to_ascii_lowercase (trim_brackets (trim host)), port)"

definition literal_socket_addr :: "string \<Rightarrow> u16 \<Rightarrow> sock_addr option" where
  "literal_socket_addr host port = map_option (\<lambda>ip. (ip, port)) (parse_ip (trim_brackets (trim host)))"

definition is_googlevideo_host :: "string \<Rightarrow> bool" where
  "is_googlevideo_host host0 =
     (let host = to_ascii_lowercase (trim_end_matches CHR ''.'' (trim_brackets (trim host0)))
      in host = ''googlevideo.com'' \<or> ends_with ''.googlevideo.com'' host)"

definition cached_positive_addrs :: "dns_key \<Rightarrow> instant \<Rightarrow> dns_state \<Rightarrow> sock_addr list option \<times> dns_state" where
  "cached_positive_addrs key now st =
     (case hm_get (dn_positive st) key of
        None \<Rightarrow> (None, st)
      | Some entry \<Rightarrow>
          if dp_expires_at entry \<le> now then (None, st\<lparr>dn_positive := hm_remove key (dn_positive st)\<rparr>)
          else (Some (dp_addrs entry), st\<lparr>dn_positive_hit_total := dn_positive_hit_total st + 1\<rparr>))"

definition cached_negative_error :: "dns_key \<Rightarrow> instant \<Rightarrow> dns_state \<Rightarrow> io_error option \<times> dns_state" where
  "cached_negative_error key now st =
     (case hm_get (dn_negative st) key of
        None \<Rightarrow> (None, st)
      | Some entry \<Rightarrow>
          if dg_expires_at entry \<le> now then (None, st\<lparr>dn_negative := hm_remove key (dn_negative st)\<rparr>)
          else (Some (dg_error entry), st\<lparr>dn_negative_hit_total := dn_negative_hit_total st + 1\<rparr>))"

text \<open>Making room in a full cache: expired entries go, and if that is not enough the entry iterated first.\<close>

definition make_room :: "nat \<Rightarrow> ('v \<Rightarrow> instant) \<Rightarrow> instant \<Rightarrow> ('k, 'v) hmap \<Rightarrow> ('k, 'v) hmap" where
  "make_room max_entries expires now cache =
     (if max_entries \<le> length cache then
        (let cache = hm_retain (\<lambda>_ entry. now < expires entry) cache in
         if max_entries \<le> length cache then (case cache of (k, _) # _ \<Rightarrow> hm_remove k cache | [] \<Rightarrow> cache) else cache)
      else cache)"

definition record_positive_cache :: "dns_key \<Rightarrow> sock_addr list \<Rightarrow> instant \<Rightarrow> instant \<Rightarrow> dns_state \<Rightarrow> dns_state" where
  "record_positive_cache key addrs now now' st =
     (if addrs = [] then st
      else st\<lparr>dn_positive := hm_insert key \<lparr>dp_expires_at = now' + secs 30, dp_addrs = addrs\<rparr>
                (make_room 8192 dp_expires_at now (dn_positive st))\<rparr>)"

definition record_negative_cache :: "dns_key \<Rightarrow> io_error \<Rightarrow> instant \<Rightarrow> instant \<Rightarrow> dns_state \<Rightarrow> dns_state" where
  "record_negative_cache key e now now' st =
     st\<lparr>dn_negative := hm_insert key \<lparr>dg_expires_at = now' + secs 15, dg_error = e\<rparr>
          (make_room 4096 dg_expires_at now (dn_negative st))\<rparr>"

definition remove_positive_cache_entry :: "dns_key \<Rightarrow> dns_state \<Rightarrow> dns_state" where
  "remove_positive_cache_entry key st = st\<lparr>dn_positive := hm_remove key (dn_positive st)\<rparr>"

definition remove_negative_cache_entry :: "dns_key \<Rightarrow> dns_state \<Rightarrow> dns_state" where
  "remove_negative_cache_entry key st = st\<lparr>dn_negative := hm_remove key (dn_negative st)\<rparr>"

definition record_googlevideo_fallback :: "string \<Rightarrow> sock_addr list \<Rightarrow> instant \<Rightarrow> dns_state \<Rightarrow> dns_state" where
  "record_googlevideo_fallback host addrs now st =
     (if \<not> is_googlevideo_host host \<or> addrs = [] then st
      else st\<lparr>dn_fallback := Some \<lparr>gf_expires_at = now + secs 30, gf_ips = map fst addrs\<rparr>\<rparr>)"

definition googlevideo_fallback_addrs :: "string \<Rightarrow> u16 \<Rightarrow> instant \<Rightarrow> dns_state \<Rightarrow> sock_addr list option \<times> dns_state" where
  "googlevideo_fallback_addrs host port now st =
     (if \<not> is_googlevideo_host host then (None, st)
      else case dn_fallback st of
        None \<Rightarrow> (None, st)
      | Some entry \<Rightarrow>
          if gf_expires_at entry \<le> now then (None, st\<lparr>dn_fallback := None\<rparr>)
          else (let addrs = map (\<lambda>ip. (ip, port)) (gf_ips entry) in (if addrs = [] then None else Some addrs, st)))"

section \<open>Private addresses\<close>

definition private_ip_target_allowed :: "route_env \<Rightarrow> string \<Rightarrow> u16 \<Rightarrow> dns_config \<Rightarrow> bool" where
  "private_ip_target_allowed env host port config \<longleftrightarrow>
     dc_private_ip_allowlist config \<noteq> [] \<and> route_targets_match env (dc_private_ip_allowlist config) host port []"

definition filter_private_addrs ::
    "route_env \<Rightarrow> string \<Rightarrow> u16 \<Rightarrow> sock_addr list \<Rightarrow> dns_config \<Rightarrow> dns_state \<Rightarrow> (io_error + sock_addr list) \<times> dns_state" where
  "filter_private_addrs env host port addrs config st =
     (if \<not> dc_block_private_ips config \<or> private_ip_target_allowed env host port config then (Inr addrs, st)
      else
        (let private_count = length (filter (\<lambda>a. is_private_ip (fst a)) addrs);
             public_addrs = filter (\<lambda>a. \<not> is_private_ip (fst a)) addrs;
             st = (if 0 < private_count
                   then st\<lparr>dn_private_filter_total := dn_private_filter_total st + of_nat private_count\<rparr> else st)
         in if public_addrs = []
            then (Inl (Io PermissionDenied (''dns private ip blocked for '' @ host)),
                  st\<lparr>dn_private_block_total := dn_private_block_total st + 1\<rparr>)
            else (Inr public_addrs, st)))"

section \<open>Asking servers\<close>

definition query_strategy_key :: "dns_env \<Rightarrow> string \<Rightarrow> string" where
  "query_strategy_key env strategy = dx_lower env (filter (\<lambda>c. c \<noteq> CHR ''_'' \<and> c \<noteq> CHR ''-'') (trim strategy))"

definition query_types :: "dns_env \<Rightarrow> string \<Rightarrow> u16 list" where
  "query_types env strategy =
     (let key = query_strategy_key env strategy in
      if key \<in> set [''useipv6'', ''ipv6''] then [28]
      else if key \<in> set [''useipv6v4'', ''ipv6v4''] then [28, 1]
      else if key \<in> set [''asis'', ''useip'', ''useipv4v6'', ''ipv4v6''] then [1, 28]
      else [1])"

definition query_strategy_prefers_ipv6 :: "dns_env \<Rightarrow> string \<Rightarrow> bool" where
  "query_strategy_prefers_ipv6 env strategy \<longleftrightarrow>
     query_strategy_key env strategy \<in> set [''useipv6'', ''ipv6'', ''useipv6v4'', ''ipv6v4'']"

definition select_servers :: "route_env \<Rightarrow> dns_config \<Rightarrow> string \<Rightarrow> dns_server_config list" where
  "select_servers env config host =
     (let matched = filter (\<lambda>s. sv_domains s \<noteq> [] \<and> route_targets_match env (sv_domains s) host 0 []) (dc_servers config)
      in if matched \<noteq> [] then matched else filter (\<lambda>s. sv_domains s = []) (dc_servers config))"

datatype dns_endpoint = Udp sock_addr | Tcp sock_addr

definition dns_server_addr :: "dns_env \<Rightarrow> string \<Rightarrow> io_error + sock_addr" where
  "dns_server_addr env address0 =
     (let address = trim address0 in
      case parse_socket_addr address of
        Some addr \<Rightarrow> Inr addr
      | None \<Rightarrow> and_then (dx_lookup env (trim_brackets address) 53) (\<lambda>addrs.
          case addrs of addr # _ \<Rightarrow> Inr addr
          | [] \<Rightarrow> Inl (Io AddrNotAvailable ''dns server did not resolve to any socket address'')))"

definition dns_server_endpoint :: "dns_env \<Rightarrow> string \<Rightarrow> io_error + dns_endpoint" where
  "dns_server_endpoint env address0 =
     (let address = trim address0 in
      case strip_prefix ''tcp://'' address of
        Some rest \<Rightarrow> and_then (dns_server_addr env rest) (\<lambda>a. Inr (Tcp a))
      | None \<Rightarrow>
          (case strip_prefix ''udp://'' address of
             Some rest \<Rightarrow> and_then (dns_server_addr env rest) (\<lambda>a. Inr (Udp a))
           | None \<Rightarrow>
               if str_contains ''://'' address
               then Inl (Io Unsupported ''only udp and tcp dns server addresses are supported'')
               else and_then (dns_server_addr env address) (\<lambda>a. Inr (Udp a))))"

text \<open>A datagram longer than the buffer of 4096 bytes is cut.\<close>

definition query_udp_dns :: "dns_env \<Rightarrow> sock_addr \<Rightarrow> bytes \<Rightarrow> io_error + bytes" where
  "query_udp_dns env server_addr query = and_then (dx_udp env server_addr query) (\<lambda>response. Inr (take 4096 response))"

definition tcp_dns_exchange :: "bytes \<Rightarrow> bytes io" where
  "tcp_dns_exchange query =
     (if 65535 < length query then io_fail InvalidInput ''dns tcp query is too large''
      else io_bind (write_all (be_bytes 2 (length query))) (\<lambda>_.
           io_bind (write_all query) (\<lambda>_.
           io_bind (read_exact 2) (\<lambda>len. read_exact (from_be_bytes len)))))"

definition query_tcp_dns :: "dns_env \<Rightarrow> sock_addr \<Rightarrow> bytes \<Rightarrow> io_error + bytes" where
  "query_tcp_dns env server_addr query =
     and_then (dx_tcp env server_addr) (\<lambda>input. fst (tcp_dns_exchange query \<lparr>sm_input = input, sm_output = []\<rparr>))"

definition query_dns_server :: "dns_env \<Rightarrow> dns_server_config \<Rightarrow> string \<Rightarrow> u16 \<Rightarrow> u16 \<Rightarrow> io_error + ip_addr list" where
  "query_dns_server env server host qtype query_id =
     and_then (encode_query query_id host qtype) (\<lambda>query.
     and_then (dns_server_endpoint env (sv_address server)) (\<lambda>endpoint.
     and_then (case endpoint of Udp a \<Rightarrow> query_udp_dns env a query | Tcp a \<Rightarrow> query_tcp_dns env a query) (\<lambda>response.
       parse_response response query_id qtype)))"

text \<open>The two nested loops: the first addresses found, the last error, and the query number reached.\<close>

fun ask_types ::
    "dns_env \<Rightarrow> dns_server_config \<Rightarrow> string \<Rightarrow> u16 list \<Rightarrow> io_error option \<times> u16 \<Rightarrow> ip_addr list option \<times> io_error option \<times> u16" where
  "ask_types env server host [] (last_error, q) = (None, last_error, q)"
| "ask_types env server host (t # ts) (last_error, q) =
     (case query_dns_server env server host t q of
        Inr ips \<Rightarrow> if ips \<noteq> [] then (Some ips, last_error, q + 1) else ask_types env server host ts (last_error, q + 1)
      | Inl e \<Rightarrow> ask_types env server host ts (Some e, q + 1))"

fun ask_servers ::
    "dns_env \<Rightarrow> dns_server_config list \<Rightarrow> u16 list \<Rightarrow> string \<Rightarrow> io_error option \<times> u16 \<Rightarrow> ip_addr list option \<times> io_error option \<times> u16" where
  "ask_servers env [] ts host (last_error, q) = (None, last_error, q)"
| "ask_servers env (s # ss) ts host (last_error, q) =
     (case ask_types env s host ts (last_error, q) of
        (Some ips, r) \<Rightarrow> (Some ips, r)
      | (None, r) \<Rightarrow> ask_servers env ss ts host r)"

definition resolve_query :: "dns_env \<Rightarrow> dns_config \<Rightarrow> string \<Rightarrow> u16 \<Rightarrow> dns_state \<Rightarrow> (io_error + sock_addr list) \<times> dns_state" where
  "resolve_query env config host port st =
     (if dc_servers config = [] then
        (dx_lookup env host port, st\<lparr>dn_system_query_total := dn_system_query_total st + 1\<rparr>)
      else
        (case ask_servers env (select_servers (dx_route env) config host) (query_types env (dc_query_strategy config)) host
                (None, dn_query_id st) of
           (found, last_error, q) \<Rightarrow>
             ((case found of
                 Some ips \<Rightarrow> Inr (map (\<lambda>ip. (ip, port)) ips)
               | None \<Rightarrow> Inl (case last_error of Some e \<Rightarrow> e
                              | None \<Rightarrow> Io AddrNotAvailable ''configured dns servers returned no target address'')),
              st\<lparr>dn_configured_query_total := dn_configured_query_total st + 1, dn_query_id := q\<rparr>)))"


section \<open>Resolving\<close>

definition count_error :: "(io_error + 'a) \<times> dns_state \<Rightarrow> (io_error + 'a) \<times> dns_state" where
  "count_error r = (case r of
     (Inl e, st) \<Rightarrow> (Inl e, st\<lparr>dn_resolve_error_total := dn_resolve_error_total st + 1\<rparr>)
   | (Inr x, st) \<Rightarrow> (Inr x, st))"

definition resolve_literal :: "dns_env \<Rightarrow> string \<Rightarrow> u16 \<Rightarrow> sock_addr \<Rightarrow> dns_state \<Rightarrow> (io_error + sock_addr list) \<times> dns_state" where
  "resolve_literal env host port addr st =
     count_error (filter_private_addrs (dx_route env) host port [addr] (dn_config st) st)"

text \<open>What happens with the outcome of a query: \<open>config\<close> is the configuration read before it.\<close>

definition resolve_finish ::
    "dns_env \<Rightarrow> (nat \<Rightarrow> instant) \<Rightarrow> dns_config \<Rightarrow> string \<Rightarrow> u16 \<Rightarrow> io_error + sock_addr list \<Rightarrow> dns_state \<Rightarrow>
     (io_error + sock_addr list) \<times> dns_state" where
  "resolve_finish env now config host port result st =
     (let cache_key = dns_cache_key host port in
      case result of
        Inr addrs \<Rightarrow>
          (case filter_private_addrs (dx_route env) host port addrs config st of
             (Inr addrs, st) \<Rightarrow>
               (Inr addrs,
                record_googlevideo_fallback host addrs (now 4)
                  (record_positive_cache cache_key addrs (now 2) (now 3) (remove_negative_cache_entry cache_key st)))
           | (Inl e, st) \<Rightarrow> count_error (Inl e, st))
      | Inl e \<Rightarrow>
          (let st = snd (count_error (Inl e :: io_error + unit, st));
               st = remove_positive_cache_entry cache_key (remove_negative_cache_entry cache_key st)
           in case googlevideo_fallback_addrs host port (now 2) st of
                (Some addrs, st) \<Rightarrow> (Inr addrs, record_positive_cache cache_key addrs (now 3) (now 4) st)
              | (None, st) \<Rightarrow>
                  (Inl e, if \<not> is_googlevideo_host host then record_negative_cache cache_key e (now 3) (now 4) st else st)))"

definition resolve_socket_addrs ::
    "dns_env \<Rightarrow> (nat \<Rightarrow> instant) \<Rightarrow> string \<Rightarrow> u16 \<Rightarrow> dns_state \<Rightarrow> (io_error + sock_addr list) \<times> dns_state" where
  "resolve_socket_addrs env now host0 port st =
     (let st = st\<lparr>dn_resolve_total := dn_resolve_total st + 1\<rparr> in
      case literal_socket_addr host0 port of
        Some addr \<Rightarrow> resolve_literal env host0 port addr st
      | None \<Rightarrow>
          (let host = trim_brackets (trim host0); cache_key = dns_cache_key host port in
           case cached_positive_addrs cache_key (now 0) st of
             (Some addrs, st) \<Rightarrow> (Inr addrs, st)
           | (None, st) \<Rightarrow>
               (case cached_negative_error cache_key (now 1) st of
                  (Some e, st) \<Rightarrow> count_error (Inl e, st)
                | (None, st) \<Rightarrow>
                    (let config = dn_config st in
                     case resolve_query env config host port st of
                       (result, st) \<Rightarrow> resolve_finish env now config host port result st))))"

definition resolve_socket_addrs_tokio ::
    "dns_env \<Rightarrow> (nat \<Rightarrow> instant) \<Rightarrow> string \<Rightarrow> u16 \<Rightarrow> dns_state \<Rightarrow> (io_error + sock_addr list) \<times> dns_state" where
  "resolve_socket_addrs_tokio env now host port st =
     (case literal_socket_addr host port of
        Some addr \<Rightarrow> resolve_literal env host port addr (st\<lparr>dn_resolve_total := dn_resolve_total st + 1\<rparr>)
      | None \<Rightarrow> resolve_socket_addrs env now host port st)"

definition resolve_socket_addr ::
    "dns_env \<Rightarrow> (nat \<Rightarrow> instant) \<Rightarrow> string \<Rightarrow> u16 \<Rightarrow> dns_state \<Rightarrow> (io_error + sock_addr) \<times> dns_state" where
  "resolve_socket_addr env now host port st =
     (case resolve_socket_addrs env now host port st of
        (Inl e, st) \<Rightarrow> (Inl e, st)
      | (Inr [], st) \<Rightarrow> (Inl (Io AddrNotAvailable ''target did not resolve to any socket address''), st)
      | (Inr (addr # _), st) \<Rightarrow> (Inr addr, st))"

section \<open>The order of attempts and their race\<close>

fun interleave_loop :: "nat \<Rightarrow> bool \<Rightarrow> nat \<Rightarrow> sock_addr list \<Rightarrow> sock_addr list \<Rightarrow> sock_addr list" where
  "interleave_loop interleave ipv4_turn turn_count [] ipv6 = ipv6"
| "interleave_loop interleave ipv4_turn turn_count ipv4 [] = ipv4"
| "interleave_loop interleave ipv4_turn turn_count (a # ipv4) (b # ipv6) =
     (let turn = (if turn_count + 1 = interleave then \<not> ipv4_turn else ipv4_turn);
          count = (if turn_count + 1 = interleave then 0 else turn_count + 1)
      in if ipv4_turn then a # interleave_loop interleave turn count ipv4 (b # ipv6)
         else b # interleave_loop interleave turn count (a # ipv4) ipv6)"

definition is_ipv4 :: "sock_addr \<Rightarrow> bool" where
  "is_ipv4 addr = (case fst addr of V4 _ \<Rightarrow> True | V6 _ \<Rightarrow> False)"

definition happy_eyeballs_order :: "sock_addr list \<Rightarrow> bool \<Rightarrow> nat \<Rightarrow> sock_addr list" where
  "happy_eyeballs_order addrs prioritize_ipv6 interleave =
     (if length addrs \<le> 1 then addrs
      else let ipv4 = filter is_ipv4 addrs; ipv6 = filter (\<lambda>a. \<not> is_ipv4 a) addrs in
      if ipv4 = [] \<or> ipv6 = [] then addrs
      else interleave_loop (max interleave 1) (\<not> prioritize_ipv6) 0 ipv4 ipv6)"

text \<open>
  The race: \<open>ra_next\<close> attempts were started, \<open>ra_active\<close> of them have not reported. A message is what an attempt
  reports; running out of time ends the race.
\<close>

record race =
  ra_next :: nat
  ra_active :: nat
  ra_last_error :: "io_error option"

datatype 'a race_message = Reported "io_error + 'a" | Deadline

function spawn_tcp_race_attempts :: "nat \<Rightarrow> race \<Rightarrow> race" where
  "spawn_tcp_race_attempts addrs r =
     (if ra_next r < addrs \<and> ra_active r < 4
      then spawn_tcp_race_attempts addrs (r\<lparr>ra_next := ra_next r + 1, ra_active := ra_active r + 1\<rparr>) else r)"
  by pat_completeness auto
termination
  by (relation "measure (\<lambda>(addrs, r). addrs - ra_next r)") auto

declare spawn_tcp_race_attempts.simps [simp del]

definition no_socket_addr_error :: io_error where
  "no_socket_addr_error = Io AddrNotAvailable ''target did not resolve to any socket address''"

definition tcp_connect_timeout_error :: io_error where
  "tcp_connect_timeout_error = Io TimedOut ''target connect timed out''"

text \<open>The loop over the messages that arrive; \<open>None\<close> means it is still waiting.\<close>

fun race_loop :: "nat \<Rightarrow> race \<Rightarrow> 'a race_message list \<Rightarrow> (io_error + 'a) option" where
  "race_loop addrs r [] = None"
| "race_loop addrs r (Deadline # ms) = Some (Inl tcp_connect_timeout_error)"
| "race_loop addrs r (Reported (Inr stream) # ms) = Some (Inr stream)"
| "race_loop addrs r (Reported (Inl e) # ms) =
     (let r = spawn_tcp_race_attempts addrs (r\<lparr>ra_active := ra_active r - 1, ra_last_error := Some e\<rparr>) in
      if ra_active r = 0 \<and> addrs \<le> ra_next r
      then Some (Inl (case ra_last_error r of Some e \<Rightarrow> e | None \<Rightarrow> no_socket_addr_error))
      else race_loop addrs r ms)"

definition connect_tcp_addrs_race :: "nat \<Rightarrow> 'a race_message list \<Rightarrow> (io_error + 'a) option" where
  "connect_tcp_addrs_race addrs ms =
     race_loop addrs (spawn_tcp_race_attempts addrs \<lparr>ra_next = 0, ra_active = 0, ra_last_error = None\<rparr>) ms"

fun connect_tcp_addrs_sequential :: "(sock_addr \<Rightarrow> io_error + 'a) \<Rightarrow> io_error option \<Rightarrow> sock_addr list \<Rightarrow> io_error + 'a" where
  "connect_tcp_addrs_sequential connect last_error [] =
     Inl (case last_error of Some e \<Rightarrow> e | None \<Rightarrow> no_socket_addr_error)"
| "connect_tcp_addrs_sequential connect last_error (a # addrs) =
     (case connect a of Inr stream \<Rightarrow> Inr stream | Inl e \<Rightarrow> connect_tcp_addrs_sequential connect (Some e) addrs)"


section \<open>Connecting\<close>

definition target_text :: "dns_key \<Rightarrow> string" where
  "target_text key = ''target '' @ fst key @ '':'' @ show_nat (unat (snd key))"

definition tcp_connect_backoff_error :: "dns_key \<Rightarrow> instant \<Rightarrow> dns_state \<Rightarrow> io_error option \<times> dns_state" where
  "tcp_connect_backoff_error key now st =
     (case hm_get (dn_backoff st) key of
        None \<Rightarrow> (None, st)
      | Some entry \<Rightarrow>
          (case tf_blocked_until entry of
             None \<Rightarrow> (None, st)
           | Some blocked_until \<Rightarrow>
               if now < blocked_until
               then (Some (Io TimedOut (target_text key @ '' is temporarily backed off after repeated connect failures'')),
                     st\<lparr>dn_backoff_reject_total := dn_backoff_reject_total st + 1\<rparr>)
               else (None, st\<lparr>dn_backoff := hm_insert key \<lparr>tf_failures = 0, tf_window_started = now, tf_blocked_until = None\<rparr>
                            (dn_backoff st)\<rparr>)))"

definition record_tcp_connect_success :: "dns_key \<Rightarrow> dns_state \<Rightarrow> dns_state" where
  "record_tcp_connect_success key st = st\<lparr>dn_backoff := hm_remove key (dn_backoff st)\<rparr>"

definition tcp_failure_is_expired :: "instant \<Rightarrow> tcp_failure_entry \<Rightarrow> bool" where
  "tcp_failure_is_expired now entry \<longleftrightarrow>
     (case tf_blocked_until entry of
        Some blocked_until \<Rightarrow> blocked_until \<le> now \<and> secs 10 < now - blocked_until
      | None \<Rightarrow> tf_window_started entry \<le> now \<and> secs 10 * 2 < now - tf_window_started entry)"

definition is_transient_tcp_connect_error :: "io_error \<Rightarrow> bool" where
  "is_transient_tcp_connect_error e = (case e of Io WouldBlock _ \<Rightarrow> True | _ \<Rightarrow> False)"

definition fail_again :: "instant \<Rightarrow> tcp_failure_entry \<Rightarrow> tcp_failure_entry" where
  "fail_again now entry =
     (let in_window = (tf_window_started entry \<le> now \<and> now - tf_window_started entry \<le> secs 10);
          entry = (if in_window then entry else \<lparr>tf_failures = 0, tf_window_started = now, tf_blocked_until = None\<rparr>);
          entry = entry\<lparr>tf_failures := saturating_add (tf_failures entry) 1\<rparr>
      in if 3 \<le> tf_failures entry then entry\<lparr>tf_blocked_until := Some (now + secs 5)\<rparr> else entry)"

definition record_tcp_connect_failure_error_at :: "dns_key \<Rightarrow> io_error \<Rightarrow> instant \<Rightarrow> dns_state \<Rightarrow> dns_state" where
  "record_tcp_connect_failure_error_at key e now st =
     (if is_transient_tcp_connect_error e then st
      else
        (let entries = (if 8192 \<le> length (dn_backoff st)
                        then hm_retain (\<lambda>_ entry. \<not> tcp_failure_is_expired now entry) (dn_backoff st) else dn_backoff st);
             entry = (case hm_get entries key of
                        Some entry \<Rightarrow> entry
                      | None \<Rightarrow> \<lparr>tf_failures = 0, tf_window_started = now, tf_blocked_until = None\<rparr>)
         in st\<lparr>dn_backoff := hm_insert key (fail_again now entry) entries\<rparr>))"

definition tcp_connect_inflight_guard :: "dns_key \<Rightarrow> dns_state \<Rightarrow> (io_error + dns_key) \<times> dns_state" where
  "tcp_connect_inflight_guard key st =
     (let running = (case hm_get (dn_inflight st) key of Some n \<Rightarrow> n | None \<Rightarrow> 0) in
      if 64 \<le> running
      then (Inl (Io TimedOut (target_text key @ '' has too many in-flight connect attempts'')),
            st\<lparr>dn_inflight := hm_insert key running (dn_inflight st),
               dn_inflight_reject_total := dn_inflight_reject_total st + 1\<rparr>)
      else (Inr key, st\<lparr>dn_inflight := hm_insert key (usize_saturating_add running 1) (dn_inflight st)\<rparr>))"

text \<open>Dropping the guard.\<close>

definition drop_inflight_guard :: "dns_key \<Rightarrow> dns_state \<Rightarrow> dns_state" where
  "drop_inflight_guard key st =
     (case hm_get (dn_inflight st) key of
        None \<Rightarrow> st
      | Some running \<Rightarrow>
          if running - 1 = 0 then st\<lparr>dn_inflight := hm_remove key (dn_inflight st)\<rparr>
          else st\<lparr>dn_inflight := hm_insert key (running - 1) (dn_inflight st)\<rparr>)"

text \<open>
  \<^verbatim>\<open>connect_tcp\<close> in two parts, between which it waits for the network without holding a lock: up to the guard, with the
  addresses in the order of the attempts, and from the outcome of the attempts on.
\<close>

definition connect_tcp_begin ::
    "dns_env \<Rightarrow> (nat \<Rightarrow> instant) \<Rightarrow> string \<Rightarrow> u16 \<Rightarrow> dns_state \<Rightarrow> (io_error + dns_key \<times> sock_addr list) \<times> dns_state" where
  "connect_tcp_begin env now host port st =
     (let backoff_key = dns_cache_key host port in
      case tcp_connect_backoff_error backoff_key (now 5) st of
        (Some e, st) \<Rightarrow> (Inl e, st)
      | (None, st) \<Rightarrow>
          (case resolve_socket_addrs env now host port st of
             (Inl e, st) \<Rightarrow> (Inl e, st)
           | (Inr addrs, st) \<Rightarrow>
               (case tcp_connect_inflight_guard backoff_key st of
                  (Inl e, st) \<Rightarrow> (Inl e, st)
                | (Inr key, st) \<Rightarrow>
                    (Inr (key, happy_eyeballs_order addrs (query_strategy_prefers_ipv6 env (dc_query_strategy (dn_config st))) 1), st))))"

definition connect_tcp_end :: "dns_key \<Rightarrow> instant \<Rightarrow> io_error + 'a \<Rightarrow> dns_state \<Rightarrow> dns_state" where
  "connect_tcp_end key now result st =
     drop_inflight_guard key
       (case result of
          Inr _ \<Rightarrow> record_tcp_connect_success key st
        | Inl e \<Rightarrow> record_tcp_connect_failure_error_at key e now st)"

definition tcp_connect_backoff_active_targets :: "instant \<Rightarrow> dns_state \<Rightarrow> nat" where
  "tcp_connect_backoff_active_targets now st =
     length (filter (\<lambda>(_, entry). case tf_blocked_until entry of Some b \<Rightarrow> now < b | None \<Rightarrow> False) (dn_backoff st))"

definition tcp_connect_inflight_active_targets :: "dns_state \<Rightarrow> nat" where
  "tcp_connect_inflight_active_targets st = length (dn_inflight st)"


end
