(* ===== verification/Dns_Facts.thy ===== *)
theory Dns_Facts
  imports Dns "HOL-Library.Multiset"
begin

text \<open>
  What name resolution and connecting guarantee, for every sequence of configurations, resolutions and connections:
  private addresses stay out, the caches and the attempts in flight stay bounded, the race between addresses finds a
  connection whenever one of them answers, and no address is dropped when they are put in order.
\<close>

section \<open>Runs\<close>

text \<open>
  The operations in any order, with whatever the network, the resolver and the clock answer; the rule files and
  environment variables behind the allowlist are \<open>rt\<close>. The list holds the guards of the attempts in flight.
\<close>

inductive dns_reach :: "route_env \<Rightarrow> dns_state \<Rightarrow> dns_key list \<Rightarrow> bool" for rt where
  start: "dns_reach rt dns_start []"
| configured: "dns_reach rt st gs \<Longrightarrow> dns_reach rt (configure config st) gs"
| resolved: "dns_reach rt st gs \<Longrightarrow> dx_route env = rt \<Longrightarrow> resolve_socket_addrs env now host port st = (r, st') \<Longrightarrow> dns_reach rt st' gs"
| refused: "dns_reach rt st gs \<Longrightarrow> dx_route env = rt \<Longrightarrow> connect_tcp_begin env now host port st = (Inl e, st') \<Longrightarrow> dns_reach rt st' gs"
| attempted: "dns_reach rt st gs \<Longrightarrow> dx_route env = rt \<Longrightarrow> connect_tcp_begin env now host port st = (Inr (key, addrs), st') \<Longrightarrow>
    dns_reach rt st' (key # gs)"
| finished: "dns_reach rt st gs \<Longrightarrow> key \<in> set gs \<Longrightarrow> dns_reach rt (connect_tcp_end key t (result :: io_error + unit) st) (remove1 key gs)"

section \<open>Addresses in order\<close>

lemma interleave_mset: "mset (interleave_loop n t k a b) = mset a + mset b"
  by (induction n t k a b rule: interleave_loop.induct) (auto simp: Let_def)

lemma mset_filters: "mset (filter P xs) + mset (filter (\<lambda>x. \<not> P x) xs) = mset xs"
  by (induction xs) auto

lemma interleave_filter:
  "\<forall>x \<in> set a. is_ipv4 x \<Longrightarrow> \<forall>x \<in> set b. \<not> is_ipv4 x \<Longrightarrow>
   filter is_ipv4 (interleave_loop n t k a b) = a \<and> filter (\<lambda>x. \<not> is_ipv4 x) (interleave_loop n t k a b) = b"
  by (induction n t k a b rule: interleave_loop.induct) (auto simp: Let_def)

lemma happy_eyeballs_mset: "mset (happy_eyeballs_order addrs v6 n) = mset addrs"
  using mset_filters [of is_ipv4 addrs] by (auto simp: happy_eyeballs_order_def Let_def interleave_mset)

text \<open>
  Ordering addresses for connecting loses and invents none and keeps the order within each family; when both
  families are there, the preferred one comes first and the other second.
\<close>

theorem happy_eyeballs_exact:
  "mset (happy_eyeballs_order addrs v6 n) = mset addrs \<and>
   filter is_ipv4 (happy_eyeballs_order addrs v6 n) = filter is_ipv4 addrs \<and>
   filter (\<lambda>a. \<not> is_ipv4 a) (happy_eyeballs_order addrs v6 n) = filter (\<lambda>a. \<not> is_ipv4 a) addrs \<and>
   (filter is_ipv4 addrs \<noteq> [] \<and> filter (\<lambda>a. \<not> is_ipv4 a) addrs \<noteq> [] \<longrightarrow>
      is_ipv4 (happy_eyeballs_order addrs v6 1 ! 0) = (\<not> v6) \<and> is_ipv4 (happy_eyeballs_order addrs v6 1 ! 1) = v6)"
proof (cases "length addrs \<le> 1 \<or> filter is_ipv4 addrs = [] \<or> filter (\<lambda>a. \<not> is_ipv4 a) addrs = []")
  case True
  then have "happy_eyeballs_order addrs v6 k = addrs" for k by (auto simp: happy_eyeballs_order_def Let_def)
  moreover have "filter is_ipv4 addrs = [] \<or> filter (\<lambda>a. \<not> is_ipv4 a) addrs = []"
    using True by (cases addrs) auto
  ultimately show ?thesis by auto
next
  case False
  let ?a = "filter is_ipv4 addrs" and ?b = "filter (\<lambda>a. \<not> is_ipv4 a) addrs"
  have eq: "happy_eyeballs_order addrs v6 k = interleave_loop (max k 1) (\<not> v6) 0 ?a ?b" for k
    using False by (auto simp: happy_eyeballs_order_def Let_def)
  obtain x xs where a: "?a = x # xs" using False by (cases ?a) auto
  obtain y ys where b: "?b = y # ys" using False by (cases ?b) auto
  have x: "is_ipv4 x" "\<not> is_ipv4 y" using a b by (metis filter_eq_ConsD)+
  have "is_ipv4 (happy_eyeballs_order addrs v6 1 ! 0) = (\<not> v6) \<and> is_ipv4 (happy_eyeballs_order addrs v6 1 ! 1) = v6"
    unfolding eq a b using x by (cases xs; cases ys) (auto simp: Let_def)
  moreover have "mset (happy_eyeballs_order addrs v6 n) = mset addrs" by (rule happy_eyeballs_mset)
  moreover have "filter is_ipv4 (happy_eyeballs_order addrs v6 n) = ?a \<and> filter (\<lambda>a. \<not> is_ipv4 a) (happy_eyeballs_order addrs v6 n) = ?b"
    unfolding eq by (rule interleave_filter) simp_all
  ultimately show ?thesis by blast
qed

section \<open>The race\<close>

lemma spawn_race: "ra_next r \<le> n \<Longrightarrow> ra_active r \<le> 4 \<Longrightarrow>
  spawn_tcp_race_attempts n r = r\<lparr>ra_next := ra_next r + min (n - ra_next r) (4 - ra_active r),
    ra_active := ra_active r + min (n - ra_next r) (4 - ra_active r)\<rparr>"
proof (induction n r rule: spawn_tcp_race_attempts.induct)
  case (1 n r)
  show ?case
  proof (cases "ra_next r < n \<and> ra_active r < 4")
    case True
    let ?r = "r\<lparr>ra_next := ra_next r + 1, ra_active := ra_active r + 1\<rparr>"
    have "spawn_tcp_race_attempts n r = spawn_tcp_race_attempts n ?r"
      using True by (subst spawn_tcp_race_attempts.simps) simp
    also have "\<dots> = ?r\<lparr>ra_next := ra_next ?r + min (n - ra_next ?r) (4 - ra_active ?r),
        ra_active := ra_active ?r + min (n - ra_next ?r) (4 - ra_active ?r)\<rparr>"
      using 1 True by (intro "1.IH") auto
    also have "\<dots> = r\<lparr>ra_next := ra_next r + min (n - ra_next r) (4 - ra_active r),
        ra_active := ra_active r + min (n - ra_next r) (4 - ra_active r)\<rparr>"
      using True by (cases r) (auto simp: min_def)
    finally show ?thesis .
  next
    case False
    then show ?thesis using 1 by (subst spawn_tcp_race_attempts.simps) (cases r, auto)
  qed
qed

text \<open>The state of the race after some attempts have failed.\<close>

definition race_after :: "nat \<Rightarrow> io_error list \<Rightarrow> race" where
  "race_after n es = fold (\<lambda>e r. spawn_tcp_race_attempts n (r\<lparr>ra_active := ra_active r - 1, ra_last_error := Some e\<rparr>)) es
     (spawn_tcp_race_attempts n \<lparr>ra_next = 0, ra_active = 0, ra_last_error = None\<rparr>)"

lemma race_after_snoc:
  "race_after n (es @ [e]) = (let r = race_after n es in spawn_tcp_race_attempts n (r\<lparr>ra_active := ra_active r - 1, ra_last_error := Some e\<rparr>))"
  by (simp add: race_after_def Let_def)

lemma race_after_eq:
  "length es \<le> n \<Longrightarrow> race_after n es = \<lparr>ra_next = min n (length es + 4), ra_active = min n (length es + 4) - length es,
     ra_last_error = (if es = [] then None else Some (last es))\<rparr>"
proof (induction es rule: rev_induct)
  case Nil
  then show ?case by (simp add: race_after_def spawn_race min_def)
next
  case (snoc e es)
  let ?r = "\<lparr>ra_next = min n (length es + 4), ra_active = min n (length es + 4) - length es - 1, ra_last_error = Some e\<rparr>"
  have "race_after n (es @ [e]) = spawn_tcp_race_attempts n ?r" using snoc by (simp add: race_after_snoc)
  also have "\<dots> = ?r\<lparr>ra_next := ra_next ?r + min (n - ra_next ?r) (4 - ra_active ?r), ra_active := ra_active ?r + min (n - ra_next ?r) (4 - ra_active ?r)\<rparr>"
    by (rule spawn_race) auto
  finally show ?case using snoc.prems by (auto simp: min_def)
qed

lemma race_loop_after:
  "length es < n \<Longrightarrow> race_loop n (race_after n es) (map Reported rs) =
   (case find (\<lambda>r. \<not> isl r) (take (n - length es) rs) of
      Some r \<Rightarrow> Some r
    | None \<Rightarrow> if n - length es \<le> length rs then Some (rs ! (n - length es - 1)) else None)"
proof (induction rs arbitrary: es)
  case (Cons r rs)
  obtain m where m: "n - length es = Suc m" "m = n - length (es @ [e])" for e using Cons.prems by (cases "n - length es") auto
  show ?case
  proof (cases r)
    case (Inr s)
    then show ?thesis using m by simp
  next
    case (Inl e)
    let ?r = "race_after n (es @ [e])"
    have step: "race_loop n (race_after n es) (map Reported (r # rs)) =
      (if ra_active ?r = 0 \<and> n \<le> ra_next ?r then Some (Inl (case ra_last_error ?r of Some e \<Rightarrow> e | None \<Rightarrow> no_socket_addr_error))
       else race_loop n ?r (map Reported rs))"
      using Inl by (simp add: race_after_snoc Let_def)
    show ?thesis
    proof (cases "m = 0")
      case True
      then show ?thesis using step Inl m Cons.prems by (simp add: race_after_eq)
    next
      case False
      then have "\<not> (ra_active ?r = 0 \<and> n \<le> ra_next ?r)" "length (es @ [e]) < n" using m by (auto simp: race_after_eq min_def)
      then show ?thesis using step Inl m Cons.IH [of "es @ [e]"] False by (auto split: option.splits)
    qed
  qed
qed (simp_all)



theorem happy_eyeballs_exact_witness:
  "mset (happy_eyeballs_order [(V4 1, 80), (V4 2, 80), (V6 3, 80)] True 1) = mset [(V4 1, 80), (V4 2, 80), (V6 3, 80)] \<and>
   \<not> is_ipv4 (happy_eyeballs_order [(V4 1, 80), (V4 2, 80), (V6 3, 80)] True 1 ! 0)"
  using happy_eyeballs_exact [of "[(V4 1, 80), (V4 2, 80), (V6 3, 80)]" True 1] by (simp add: is_ipv4_def)

section \<open>Private addresses\<close>

text \<open>What the filter and the fallback test depends on only the key under which a result is cached.\<close>

definition allowed :: "route_env \<Rightarrow> dns_config \<Rightarrow> dns_key \<Rightarrow> bool" where
  "allowed rt cfg key \<longleftrightarrow> dc_private_ip_allowlist cfg \<noteq> [] \<and>
     any_target (\<lambda>cache t. matches_target rt (fst key) (parse_ip (fst key)) cache (snd key) [] t) None (dc_private_ip_allowlist cfg)"

lemma allowed_key: "private_ip_target_allowed rt host port cfg = allowed rt cfg (dns_cache_key host port)"
  by (simp add: private_ip_target_allowed_def allowed_def route_targets_match_def normalize_host_def dns_cache_key_def Let_def)

definition videohost :: "dns_key \<Rightarrow> bool" where
  "videohost key \<longleftrightarrow> (let h = trim_end_matches CHR ''.'' (fst key) in h = ''googlevideo.com'' \<or> ends_with ''.googlevideo.com'' h)"

lemma ascii_lower_dot: "ascii_lower c = CHR ''.'' \<longleftrightarrow> c = CHR ''.''"
proof
  assume a: "ascii_lower c = CHR ''.''"
  show "c = CHR ''.''"
  proof (rule ccontr)
    assume "c \<noteq> CHR ''.''"
    then have "of_char (ascii_lower c) = (46 :: nat)" "ascii_lower c \<noteq> c" using a by auto
    then show False by (auto simp: ascii_lower_def Let_def split: if_splits)
  qed
qed (simp add: ascii_lower_def Let_def)

lemma videohost_key: "is_googlevideo_host host = videohost (dns_cache_key host port)"
proof -
  have "to_ascii_lowercase (trim_end_matches CHR ''.'' s) = trim_end_matches CHR ''.'' (to_ascii_lowercase s)" for s
    by (simp add: to_ascii_lowercase_def trim_end_matches_def rev_map dropWhile_map comp_def ascii_lower_dot)
  then show ?thesis by (simp add: is_googlevideo_host_def videohost_def dns_cache_key_def Let_def)
qed

definition screened :: "route_env \<Rightarrow> dns_config \<Rightarrow> dns_key \<Rightarrow> sock_addr list \<Rightarrow> bool" where
  "screened rt cfg key addrs \<longleftrightarrow>
     dc_block_private_ips cfg \<longrightarrow> allowed rt cfg key \<or> videohost key \<or> (\<forall>a \<in> set addrs. \<not> is_private_ip (fst a))"

definition cache_screened :: "route_env \<Rightarrow> dns_state \<Rightarrow> bool" where
  "cache_screened rt st \<longleftrightarrow>
     (\<forall>key entry. hm_get (dn_positive st) key = Some entry \<longrightarrow> screened rt (dn_config st) key (dp_addrs entry))"

lemma filter_screens:
  assumes "filter_private_addrs rt host port addrs cfg st = (r, st')"
  shows "dn_config st' = dn_config st \<and> dn_positive st' = dn_positive st \<and> dn_negative st' = dn_negative st \<and>
    dn_fallback st' = dn_fallback st \<and> dn_inflight st' = dn_inflight st \<and> dn_backoff st' = dn_backoff st \<and>
    (\<forall>addrs'. r = Inr addrs' \<longrightarrow> screened rt cfg (dns_cache_key host port) addrs')"
  using assms by (auto simp: filter_private_addrs_def screened_def allowed_key Let_def split: if_splits)

lemma hm_get_retain_Some: "hm_get (hm_retain P m) k = Some v \<Longrightarrow> hm_wf m \<Longrightarrow> hm_get m k = Some v"
  by (auto simp: hm_get_retain split: option.splits if_splits)

lemma make_room_cases:
  "make_room n ex t m = m \<or> make_room n ex t m = hm_retain (\<lambda>_ entry. t < ex entry) m \<or>
   (\<exists>k. make_room n ex t m = hm_remove k (hm_retain (\<lambda>_ entry. t < ex entry) m))"
  by (auto simp: make_room_def Let_def split: list.splits)

lemma make_room_get: "hm_wf m \<Longrightarrow> hm_get (make_room n ex t m) k = Some v \<Longrightarrow> hm_get m k = Some v"
proof -
  assume m: "hm_wf m" "hm_get (make_room n ex t m) k = Some v"
  then have "hm_get m k = Some v \<or> hm_get (hm_retain (\<lambda>_ entry. t < ex entry) m) k = Some v"
    using make_room_cases [of n ex t m] by (auto split: if_splits)
  then show ?thesis using hm_get_retain_Some m(1) by fast
qed

lemma make_room_wf: "hm_wf m \<Longrightarrow> hm_wf (make_room n ex t m)"
  using make_room_cases [of n ex t m] by auto

lemma make_room_length: "hm_wf m \<Longrightarrow> length m \<le> n \<Longrightarrow> 0 < n \<Longrightarrow> length (make_room n ex t m) < n"
proof -
  assume m: "hm_wf m" "length m \<le> n" "0 < n"
  let ?c = "hm_retain (\<lambda>_ entry. t < ex entry) m"
  have len: "length ?c \<le> length m" by (simp add: hm_retain_def)
  show ?thesis
  proof (cases "n \<le> length m \<and> n \<le> length ?c")
    case True
    then obtain k v r where c: "?c = (k, v) # r" using m(3) by (cases ?c) auto
    have "length (hm_remove k ?c) = length ?c - 1"
      using length_hm_remove [OF hm_wf_retain [OF m(1)], of k "\<lambda>_ entry. t < ex entry"] c by (simp add: hm_contains_def)
    then have "length (make_room n ex t m) = length ?c - 1" using True c by (simp add: make_room_def Let_def)
    then show ?thesis using len m True by linarith
  next
    case False
    then show ?thesis by (auto simp: make_room_def Let_def)
  qed
qed

text \<open>The invariant of the caches: well formed, bounded, and screened under the configuration in force.\<close>

definition caches_ok :: "route_env \<Rightarrow> dns_state \<Rightarrow> bool" where
  "caches_ok rt st \<longleftrightarrow> hm_wf (dn_positive st) \<and> length (dn_positive st) \<le> 8192 \<and> hm_wf (dn_negative st) \<and>
     length (dn_negative st) \<le> 4096 \<and> cache_screened rt st"

lemma length_insert_room: "hm_wf m \<Longrightarrow> length m \<le> n \<Longrightarrow> 0 < n \<Longrightarrow> length (hm_insert k v (make_room n ex t m)) \<le> n"
  using make_room_length [of m n ex t] by (simp add: length_hm_insert)

lemma length_remove_le: "length (hm_remove k m) \<le> length m"
  by (simp add: hm_remove_def)

lemma record_positive_ok:
  assumes "caches_ok rt st" "screened rt (dn_config st) key addrs"
  shows "caches_ok rt (record_positive_cache key addrs t t' st)"
proof -
  have "length (hm_insert key e (make_room 8192 dp_expires_at t (dn_positive st))) \<le> 8192" for e
    by (rule length_insert_room) (use assms(1) in \<open>auto simp: caches_ok_def\<close>)
  then show ?thesis
    using assms by (auto simp: caches_ok_def cache_screened_def record_positive_cache_def make_room_wf dest: make_room_get split: if_splits)
qed

lemma record_negative_ok:
  assumes "caches_ok rt st"
  shows "caches_ok rt (record_negative_cache key e t t' st)"
proof -
  have "length (hm_insert key v (make_room 4096 dg_expires_at t (dn_negative st))) \<le> 4096" for v
    by (rule length_insert_room) (use assms in \<open>auto simp: caches_ok_def\<close>)
  then show ?thesis
    using assms by (auto simp: caches_ok_def cache_screened_def record_negative_cache_def make_room_wf)
qed

text \<open>What no resolution touches.\<close>

definition same_rest :: "dns_state \<Rightarrow> dns_state \<Rightarrow> bool" where
  "same_rest st st' \<longleftrightarrow> dn_config st' = dn_config st \<and> dn_inflight st' = dn_inflight st \<and> dn_backoff st' = dn_backoff st"

lemma caches_ok_cong:
  "dn_config st' = dn_config st \<Longrightarrow> dn_positive st' = dn_positive st \<Longrightarrow> dn_negative st' = dn_negative st \<Longrightarrow> caches_ok rt st' = caches_ok rt st"
  by (simp add: caches_ok_def cache_screened_def)

lemma caches_ok_updates [simp]:
  "caches_ok rt (st\<lparr>dn_fallback := f\<rparr>) = caches_ok rt st" "caches_ok rt (st\<lparr>dn_query_id := q\<rparr>) = caches_ok rt st"
  "caches_ok rt (st\<lparr>dn_backoff := b\<rparr>) = caches_ok rt st" "caches_ok rt (st\<lparr>dn_inflight := i\<rparr>) = caches_ok rt st"
  "caches_ok rt (st\<lparr>dn_resolve_total := n\<rparr>) = caches_ok rt st" "caches_ok rt (st\<lparr>dn_resolve_error_total := n\<rparr>) = caches_ok rt st"
  "caches_ok rt (st\<lparr>dn_positive_hit_total := n\<rparr>) = caches_ok rt st" "caches_ok rt (st\<lparr>dn_negative_hit_total := n\<rparr>) = caches_ok rt st"
  "caches_ok rt (st\<lparr>dn_system_query_total := n\<rparr>) = caches_ok rt st" "caches_ok rt (st\<lparr>dn_configured_query_total := n\<rparr>) = caches_ok rt st"
  "caches_ok rt (st\<lparr>dn_backoff_reject_total := n\<rparr>) = caches_ok rt st" "caches_ok rt (st\<lparr>dn_inflight_reject_total := n\<rparr>) = caches_ok rt st"
  by (simp_all add: caches_ok_def cache_screened_def)

lemma caches_ok_remove:
  assumes "caches_ok rt st"
  shows "caches_ok rt (remove_positive_cache_entry key st)" "caches_ok rt (remove_negative_cache_entry key st)"
proof -
  show "caches_ok rt (remove_positive_cache_entry key st)"
    using assms le_trans [OF length_remove_le [of key "dn_positive st"]]
    by (auto simp: caches_ok_def cache_screened_def remove_positive_cache_entry_def split: if_splits)
  show "caches_ok rt (remove_negative_cache_entry key st)"
    using assms le_trans [OF length_remove_le [of key "dn_negative st"]]
    by (auto simp: caches_ok_def cache_screened_def remove_negative_cache_entry_def)
qed

lemma record_frames [simp]:
  "dn_config (record_positive_cache key addrs t t' st) = dn_config st" "dn_config (record_negative_cache key e t t' st) = dn_config st"
  "dn_config (remove_positive_cache_entry key st) = dn_config st" "dn_config (remove_negative_cache_entry key st) = dn_config st"
  "dn_config (record_googlevideo_fallback host addrs t st) = dn_config st"
  "same_rest st0 (record_positive_cache key addrs t t' st) = same_rest st0 st" "same_rest st0 (record_negative_cache key e t t' st) = same_rest st0 st"
  "same_rest st0 (remove_positive_cache_entry key st) = same_rest st0 st" "same_rest st0 (remove_negative_cache_entry key st) = same_rest st0 st"
  "same_rest st0 (record_googlevideo_fallback host addrs t st) = same_rest st0 st"
  by (simp_all add: record_positive_cache_def record_negative_cache_def remove_positive_cache_entry_def remove_negative_cache_entry_def
      record_googlevideo_fallback_def same_rest_def)

lemma fallback_frame:
  "googlevideo_fallback_addrs host port t st = (r, st') \<Longrightarrow>
   caches_ok rt st' = caches_ok rt st \<and> same_rest st st' \<and> (r \<noteq> None \<longrightarrow> videohost (dns_cache_key host port))"
  by (auto simp: googlevideo_fallback_addrs_def videohost_key [of host port] same_rest_def Let_def split: if_splits option.splits)

lemma fallback_recorded [simp]: "caches_ok rt (record_googlevideo_fallback host addrs t st) = caches_ok rt st"
  by (rule caches_ok_cong) (simp_all add: record_googlevideo_fallback_def)

lemma same_rest_trans: "same_rest a b \<Longrightarrow> same_rest b c \<Longrightarrow> same_rest a c"
  by (simp add: same_rest_def)

lemma finish_ok:
  assumes "caches_ok rt st" "dx_route env = rt" "resolve_finish env now (dn_config st) host port result st = (r, st')"
  shows "caches_ok rt st' \<and> same_rest st st' \<and>
    (\<forall>addrs. r = Inr addrs \<longrightarrow> screened rt (dn_config st) (dns_cache_key host port) addrs)"
proof (cases result)
  case (Inr addrs)
  obtain f st1 where f: "filter_private_addrs rt host port addrs (dn_config st) st = (f, st1)" by force
  note fs = filter_screens [OF f]
  have ok1: "caches_ok rt st1" "same_rest st st1" using fs assms(1) by (simp_all add: same_rest_def caches_ok_cong [of st1 st])
  show ?thesis
  proof (cases f)
    case (Inl e)
    then show ?thesis
      using assms(2,3) Inr f ok1 by (auto simp: resolve_finish_def count_error_def Let_def same_rest_def caches_ok_def cache_screened_def)
  next
    case (Inr addrs')
    let ?key = "dns_cache_key host port"
    have sc: "screened rt (dn_config st) ?key addrs'" using fs Inr by blast
    have st': "r = Inr addrs'" "st' = record_googlevideo_fallback host addrs' (now 4)
        (record_positive_cache ?key addrs' (now 2) (now 3) (remove_negative_cache_entry ?key st1))"
      using assms(2,3) \<open>result = Inr addrs\<close> Inr f by (auto simp: resolve_finish_def Let_def)
    have "caches_ok rt (record_positive_cache ?key addrs' (now 2) (now 3) (remove_negative_cache_entry ?key st1))"
      by (rule record_positive_ok [OF caches_ok_remove(2) [OF ok1(1)]]) (use sc fs in simp)
    then show ?thesis using st' ok1 sc by simp
  qed
next
  case (Inl e)
  let ?key = "dns_cache_key host port"
  define st1 where "st1 = remove_positive_cache_entry ?key (remove_negative_cache_entry ?key (st\<lparr>dn_resolve_error_total := dn_resolve_error_total st + 1\<rparr>))"
  have "caches_ok rt st1" unfolding st1_def by (intro caches_ok_remove) (use assms(1) in simp)
  moreover have "same_rest st st1"
    by (simp add: st1_def remove_positive_cache_entry_def remove_negative_cache_entry_def same_rest_def)
  ultimately have ok1: "caches_ok rt st1" "same_rest st st1" by blast+
  obtain fb st2 where fb: "googlevideo_fallback_addrs host port (now 2) st1 = (fb, st2)" by force
  note ff = fallback_frame [OF fb, of rt]
  have ok2: "caches_ok rt st2" "same_rest st st2" using ff ok1 same_rest_trans by blast+
  show ?thesis
  proof (cases fb)
    case None
    then show ?thesis
      using assms(3) Inl fb ok2 by (auto simp: resolve_finish_def count_error_def Let_def st1_def [symmetric] record_negative_ok)
  next
    case (Some addrs)
    then have "videohost ?key" using ff by blast
    then show ?thesis
      using assms(3) Inl fb Some ok2 record_positive_ok [of rt st2 ?key addrs]
      by (auto simp: resolve_finish_def count_error_def Let_def st1_def [symmetric] screened_def)
  qed
qed

lemma lookup_frames:
  "cached_positive_addrs key t st = (r, st1) \<Longrightarrow> caches_ok rt st \<Longrightarrow>
   caches_ok rt st1 \<and> same_rest st st1 \<and> (\<forall>addrs. r = Some addrs \<longrightarrow> screened rt (dn_config st) key addrs)"
  "cached_negative_error key t st = (e, st2) \<Longrightarrow> caches_ok rt st \<Longrightarrow> caches_ok rt st2 \<and> same_rest st st2"
  "resolve_query env cfg host port st = (q, st3) \<Longrightarrow> caches_ok rt st3 = caches_ok rt st \<and> same_rest st st3"
proof -
  show "caches_ok rt st1 \<and> same_rest st st1 \<and> (\<forall>addrs. r = Some addrs \<longrightarrow> screened rt (dn_config st) key addrs)"
    if "cached_positive_addrs key t st = (r, st1)" "caches_ok rt st"
    using that caches_ok_remove(1) [OF that(2), of key]
    by (cases key) (auto simp: cached_positive_addrs_def same_rest_def remove_positive_cache_entry_def caches_ok_def cache_screened_def split: option.splits if_splits)
  show "caches_ok rt st2 \<and> same_rest st st2" if "cached_negative_error key t st = (e, st2)" "caches_ok rt st"
    using that caches_ok_remove(2) [OF that(2), of key]
    by (auto simp: cached_negative_error_def same_rest_def remove_negative_cache_entry_def split: option.splits if_splits)
  show "caches_ok rt st3 = caches_ok rt st \<and> same_rest st st3" if "resolve_query env cfg host port st = (q, st3)"
    using that by (auto simp: resolve_query_def same_rest_def split: if_splits prod.splits)
qed

lemma resolve_ok:
  assumes ok: "caches_ok rt st" and env: "dx_route env = rt" and r: "resolve_socket_addrs env now host port st = (r, st')"
  shows "caches_ok rt st' \<and> same_rest st st' \<and>
    (\<forall>addrs. r = Inr addrs \<longrightarrow> screened rt (dn_config st) (dns_cache_key host port) addrs \<or>
       screened rt (dn_config st) (dns_cache_key (trim_brackets (trim host)) port) addrs)"
proof -
  define st0 where "st0 = st\<lparr>dn_resolve_total := dn_resolve_total st + 1\<rparr>"
  have st0: "caches_ok rt st0" "same_rest st st0" "dn_config st0 = dn_config st" using ok by (simp_all add: st0_def same_rest_def)
  let ?h = "trim_brackets (trim host)"
  show ?thesis
  proof (cases "literal_socket_addr host port")
    case (Some addr)
    obtain f st1 where f: "filter_private_addrs rt host port [addr] (dn_config st0) st0 = (f, st1)" by force
    note fs = filter_screens [OF f]
    have "caches_ok rt st1" "same_rest st st1" using fs st0 by (simp_all add: same_rest_def caches_ok_cong [of st1 st0])
    then show ?thesis
      using r env Some f fs st0 by (auto simp: resolve_socket_addrs_def st0_def [symmetric] resolve_literal_def count_error_def same_rest_def split: sum.splits)
  next
    case None
    obtain c st1 where c: "cached_positive_addrs (dns_cache_key ?h port) (now 0) st0 = (c, st1)" by force
    note cp = lookup_frames(1) [OF c st0(1)]
    show ?thesis
    proof (cases c)
      case (Some addrs)
      then show ?thesis using r None c cp st0 same_rest_trans by (auto simp: resolve_socket_addrs_def st0_def [symmetric] Let_def)
    next
      case c0: None
      obtain n st2 where n: "cached_negative_error (dns_cache_key ?h port) (now 1) st1 = (n, st2)" by force
      have cn: "caches_ok rt st2" "same_rest st st2" using lookup_frames(2) [OF n, of rt] cp st0 same_rest_trans by blast+
      show ?thesis
      proof (cases n)
        case (Some e)
        then show ?thesis
          using r None c c0 n cn by (auto simp: resolve_socket_addrs_def st0_def [symmetric] Let_def count_error_def same_rest_def)
      next
        case n0: None
        obtain q st3 where q: "resolve_query env (dn_config st2) ?h port st2 = (q, st3)" by force
        have cq: "caches_ok rt st3" "same_rest st st3" using lookup_frames(3) [OF q, of rt] cn same_rest_trans by blast+
        have cfg: "dn_config st2 = dn_config st3" "dn_config st3 = dn_config st" using cn(2) cq(2) by (simp_all add: same_rest_def)
        have "resolve_finish env now (dn_config st3) ?h port q st3 = (r, st')"
          using r None c c0 n n0 q cfg by (simp add: resolve_socket_addrs_def st0_def [symmetric] Let_def)
        from finish_ok [OF cq(1) env this] show ?thesis using cfg(2) cq(2) same_rest_trans by metis
      qed
    qed
  qed
qed

section \<open>Attempts in flight\<close>

definition inflight_ok :: "dns_state \<Rightarrow> dns_key list \<Rightarrow> bool" where
  "inflight_ok st gs \<longleftrightarrow>
     (\<forall>key. hm_get (dn_inflight st) key = (if count_list gs key = 0 then None else Some (count_list gs key)) \<and> count_list gs key \<le> 64)"

lemma screened_perm: "mset addrs' = mset addrs \<Longrightarrow> screened rt cfg key addrs' = screened rt cfg key addrs"
  using mset_eq_setD [of addrs' addrs] by (auto simp: screened_def)

lemma guard_ok:
  assumes "inflight_ok st gs" "tcp_connect_inflight_guard key st = (r, st')"
  shows "caches_ok rt st' = caches_ok rt st \<and> dn_config st' = dn_config st \<and>
    (case r of Inl _ \<Rightarrow> inflight_ok st' gs | Inr key' \<Rightarrow> key' = key \<and> inflight_ok st' (key # gs))"
proof -
  let ?n = "count_list gs key"
  have get: "(case hm_get (dn_inflight st) key of Some n \<Rightarrow> n | None \<Rightarrow> 0) = ?n" and bound: "?n \<le> 64"
    using assms(1) by (simp_all add: inflight_ok_def del: split_paired_All)
  show ?thesis
  proof (cases "64 \<le> ?n")
    case True
    then show ?thesis using assms get by (auto simp: tcp_connect_inflight_guard_def inflight_ok_def simp del: split_paired_All)
  next
    case False
    then have "usize_saturating_add ?n 1 = Suc ?n" by (simp add: usize_saturating_add_def usize_max_def)
    then show ?thesis using False assms get by (auto simp: tcp_connect_inflight_guard_def inflight_ok_def simp del: split_paired_All)
  qed
qed

lemma inflight_ok_cong: "dn_inflight st' = dn_inflight st \<Longrightarrow> inflight_ok st' gs = inflight_ok st gs"
  by (simp add: inflight_ok_def)

lemma backoff_frame:
  "tcp_connect_backoff_error key t st = (r, st') \<Longrightarrow>
   caches_ok rt st' = caches_ok rt st \<and> dn_config st' = dn_config st \<and> dn_inflight st' = dn_inflight st"
  by (auto simp: tcp_connect_backoff_error_def split: option.splits if_splits)

lemma connect_begin_ok:
  assumes ok: "caches_ok rt st" "inflight_ok st gs" and env: "dx_route env = rt" and r: "connect_tcp_begin env now host port st = (r, st')"
  shows "caches_ok rt st' \<and> dn_config st' = dn_config st \<and>
    (case r of Inl _ \<Rightarrow> inflight_ok st' gs
     | Inr (key, addrs) \<Rightarrow> inflight_ok st' (key # gs) \<and>
         (screened rt (dn_config st) (dns_cache_key host port) addrs \<or>
          screened rt (dn_config st) (dns_cache_key (trim_brackets (trim host)) port) addrs))"
proof -
  let ?key = "dns_cache_key host port"
  obtain b st1 where b: "tcp_connect_backoff_error ?key (now 5) st = (b, st1)" by force
  note bf = backoff_frame [OF b, of rt]
  have ok1: "caches_ok rt st1" "inflight_ok st1 gs" using ok bf by (simp_all add: inflight_ok_cong [of st1 st])
  show ?thesis
  proof (cases b)
    case (Some e)
    then show ?thesis using r b bf ok1 by (auto simp: connect_tcp_begin_def Let_def)
  next
    case None
    obtain a st2 where a: "resolve_socket_addrs env now host port st1 = (a, st2)" by force
    note ra = resolve_ok [OF ok1(1) env a]
    have ok2: "inflight_ok st2 gs" "dn_config st2 = dn_config st" using ra ok1 bf by (simp_all add: same_rest_def inflight_ok_cong [of st2 st1])
    show ?thesis
    proof (cases a)
      case (Inl e)
      then show ?thesis using r b None a ra ok2 by (auto simp: connect_tcp_begin_def Let_def)
    next
      case (Inr addrs)
      obtain g st3 where g: "tcp_connect_inflight_guard ?key st2 = (g, st3)" by force
      note gf = guard_ok [OF ok2(1) g, of rt]
      have perm: "screened rt cfg k (happy_eyeballs_order addrs p n) = screened rt cfg k addrs" for cfg k p n
        by (rule screened_perm) (use happy_eyeballs_mset in simp)
      have "(r, st') = (case g of Inl e \<Rightarrow> (Inl e, st3)
          | Inr key \<Rightarrow> (Inr (key, happy_eyeballs_order addrs (query_strategy_prefers_ipv6 env (dc_query_strategy (dn_config st3))) 1), st3))"
        using r b None a Inr g by (simp add: connect_tcp_begin_def Let_def split: sum.splits)
      then show ?thesis using gf ra ok2 bf Inr by (cases g) (auto simp: perm)
    qed
  qed
qed


lemma drop_guard_ok:
  assumes "inflight_ok st gs" "key \<in> set gs"
  shows "inflight_ok (drop_inflight_guard key st) (remove1 key gs)"
proof -
  have c: "count_list (remove1 key gs) k = count_list gs k - (if k = key then 1 else 0)" for k
    using assms(2) by (induction gs) auto
  have "count_list gs key \<noteq> 0" using assms(2) by (simp add: count_list_0_iff)
  then have get: "hm_get (dn_inflight st) key = Some (count_list gs key)"
    using assms(1) by (simp add: inflight_ok_def del: split_paired_All)
  have "count_list gs k \<le> 64" for k using assms(1) by (simp add: inflight_ok_def del: split_paired_All)
  then have "count_list gs key \<le> 65" by (rule le_trans) simp
  then show ?thesis
    using assms(1) c get \<open>count_list gs key \<noteq> 0\<close>
    by (auto simp: drop_inflight_guard_def inflight_ok_def le_diff_conv simp del: split_paired_All)
qed

lemma connect_end_frame:
  "caches_ok rt (connect_tcp_end key t result st) = caches_ok rt st" "dn_config (connect_tcp_end key t result st) = dn_config st"
  "inflight_ok (connect_tcp_end key t result st) gs = inflight_ok (drop_inflight_guard key st) gs"
  by (auto simp: connect_tcp_end_def drop_inflight_guard_def record_tcp_connect_success_def record_tcp_connect_failure_error_at_def
      Let_def inflight_ok_def split: sum.splits option.splits)

lemma dns_reach_ok: "dns_reach rt st gs \<Longrightarrow> caches_ok rt st \<and> inflight_ok st gs"
proof (induction rule: dns_reach.induct)
  case start
  then show ?case by (simp add: dns_start_def caches_ok_def cache_screened_def inflight_ok_def)
next
  case (configured st gs config)
  then show ?case by (simp add: configure_def caches_ok_def cache_screened_def inflight_ok_def)
next
  case (resolved st gs env now host port r st')
  with resolve_ok [of rt st env now host port r st'] show ?case by (auto simp: same_rest_def inflight_ok_cong [of st' st])
next
  case (refused st gs env now host port e st')
  with connect_begin_ok [of rt st gs env now host port "Inl e" st'] show ?case by simp
next
  case (attempted st gs env now host port key addrs st')
  with connect_begin_ok [of rt st gs env now host port "Inr (key, addrs)" st'] show ?case by simp
next
  case (finished st gs key t result)
  then show ?case by (simp add: connect_end_frame drop_guard_ok)
qed

text \<open>
  C18. In every run at most 64 connection attempts to one target are in flight, and the map the core reports holds for
  each target exactly the number of them; neither cache ever holds more than its maximum.
\<close>

theorem attempts_in_flight_bounded:
  assumes "dns_reach rt st gs"
  shows "count_list gs key \<le> 64 \<and>
    hm_get (dn_inflight st) key = (if count_list gs key = 0 then None else Some (count_list gs key)) \<and>
    length (dn_positive st) \<le> 8192 \<and> length (dn_negative st) \<le> 4096"
  using dns_reach_ok [OF assms] by (simp add: inflight_ok_def caches_ok_def del: split_paired_All)



section \<open>Examples\<close>

definition quiet_routes :: route_env where
  "quiet_routes = \<lparr>rv_is_match = (\<lambda>_ _. None), rv_resolve = (\<lambda>_ _. []), rv_env_var = (\<lambda>_. None), rv_files = []\<rparr>"

text \<open>A resolver that knows two names, one of them with a private and a public address.\<close>

definition example_dns_env :: dns_env where
  "example_dns_env = \<lparr>dx_route = quiet_routes, dx_lower = to_ascii_lowercase,
     dx_lookup = (\<lambda>host port.
       if host = ''mixed.example'' then Inr [(V4 0x0a000001, port), (V4 0x08080808, port)]
       else if host = ''a.googlevideo.com'' then Inr [(V4 0x0a000001, port)]
       else Inl (Io OtherKind ''no such host'')),
     dx_udp = (\<lambda>_ _. Inl (Io TimedOut ''timed out'')), dx_tcp = (\<lambda>_. Inl (Io ConnectionRefused ''refused''))\<rparr>"

definition blocking :: "string list \<Rightarrow> dns_config" where
  "blocking allowlist = \<lparr>dc_servers = [], dc_query_strategy = [], dc_block_private_ips = True, dc_private_ip_allowlist = allowlist\<rparr>"

definition blocked_state :: dns_state where
  "blocked_state = configure (blocking []) dns_start"

lemma blocked_reach: "dns_reach quiet_routes blocked_state []"
  unfolding blocked_state_def by (intro dns_reach.intros)

lemma mixed_attempt:
  "fst (connect_tcp_begin example_dns_env (\<lambda>_. 0) ''mixed.example'' 443 blocked_state) = Inr ((''mixed.example'', 443), [(V4 0x08080808, 443)])"
  by code_simp


theorem attempts_in_flight_bounded_witness:
  "\<exists>st'. dns_reach quiet_routes st' [(''mixed.example'', 443)] \<and> hm_get (dn_inflight st') (''mixed.example'', 443) = Some 1"
proof -
  obtain st' where c: "connect_tcp_begin example_dns_env (\<lambda>_. 0) ''mixed.example'' 443 blocked_state = (Inr ((''mixed.example'', 443), [(V4 0x08080808, 443)]), st')"
    using mixed_attempt by (cases "connect_tcp_begin example_dns_env (\<lambda>_. 0) ''mixed.example'' 443 blocked_state") auto
  have "dns_reach quiet_routes st' [(''mixed.example'', 443)]"
    by (rule dns_reach.attempted [OF blocked_reach _ c]) (simp add: example_dns_env_def)
  then show ?thesis using attempts_in_flight_bounded [of quiet_routes st' "[(''mixed.example'', 443)]" "(''mixed.example'', 443)"] by auto
qed

section \<open>What the filter of private addresses misses\<close>

text \<open>The loopback address written as an IPv6 address is not counted as private.\<close>

lemma mapped_loopback_attempted:
  "fst (connect_tcp_begin example_dns_env (\<lambda>_. 0) ''::ffff:127.0.0.1'' 80 blocked_state) =
     Inr ((''::ffff:127.0.0.1'', 80), [(V6 0xffff7f000001, 80)])"
  by code_simp

text \<open>
  Addresses that the allowlist admitted for one video host are handed out, unfiltered, for another one that does not
  resolve and is not on the list.
\<close>

lemma fallback_skips_private_filter:
  "let st = configure (blocking [''full:a.googlevideo.com'']) dns_start;
       st = snd (resolve_socket_addrs example_dns_env (\<lambda>_. 0) ''a.googlevideo.com'' 443 st)
   in \<not> private_ip_target_allowed quiet_routes ''b.googlevideo.com'' 443 (dn_config st) \<and>
      fst (resolve_socket_addrs example_dns_env (\<lambda>_. 0) ''b.googlevideo.com'' 443 st) = Inr [(V4 0x0a000001, 443)]"
  by code_simp

text \<open>
  A resolution that began before private addresses were blocked fills the cache after it was cleared, and the private
  address is handed out while they are blocked.
\<close>

lemma stale_answer_survives_configure:
  "let st = configure (blocking []) dns_start;
       st = snd (resolve_finish example_dns_env (\<lambda>_. 0) default_dns_config ''mixed.example'' 443 (Inr [(V4 0x0a000001, 443)]) st)
   in dc_block_private_ips (dn_config st) \<and>
      fst (resolve_socket_addrs example_dns_env (\<lambda>_. secs 29) ''mixed.example'' 443 st) = Inr [(V4 0x0a000001, 443)]"
  by code_simp

text \<open>The map of failing targets has a maximum, which only removes expired entries: more live ones are added.\<close>

lemma backoff_exceeds_maximum:
  assumes "hm_wf (dn_backoff st)" "length (dn_backoff st) = 8192" "\<forall>(_, e) \<in> set (dn_backoff st). \<not> tcp_failure_is_expired now e"
    and "hm_get (dn_backoff st) key = None" "\<not> is_transient_tcp_connect_error e"
  shows "length (dn_backoff (record_tcp_connect_failure_error_at key e now st)) = 8193"
proof -
  have "hm_retain (\<lambda>_ entry. \<not> tcp_failure_is_expired now entry) (dn_backoff st) = dn_backoff st"
    using assms(3) by (auto simp: hm_retain_def filter_id_conv)
  then show ?thesis using assms by (simp add: record_tcp_connect_failure_error_at_def Let_def length_hm_insert hm_contains_def)
qed


end
