(* ===== verification/Spec2Isabelle.thy ===== *)
theory Spec2Isabelle
  imports Control Socks5 Http_Proxy Vision_Facts Dns_Facts
begin

text \<open>
  A verification library for \<^verbatim>\<open>keli-core-rs\<close>, the data plane core of a proxy node. The core takes a normalized
  configuration, opens one listener per inbound, authenticates clients of eleven proxy protocols against a table of
  users, enforces per-user device and bandwidth limits, routes each connection by rules, counts traffic, and is
  driven by a panel through a control socket. All files named below are under \<^verbatim>\<open>src/src/\<close>.

  \<^bold>\<open>How the parts interact.\<close> The controller (\<^verbatim>\<open>control.rs\<close>) receives commands and owns one service
  (\<^verbatim>\<open>service.rs\<close>) and one runtime state (\<^verbatim>\<open>runtime.rs\<close>). The service owns a listener per inbound of the
  configuration in force (\<^verbatim>\<open>config.rs\<close>), and, shared by all of them, the traffic registry (\<^verbatim>\<open>traffic.rs\<close>), the session
  tracker, the bandwidth limiters and the connection registry (all \<^verbatim>\<open>limits.rs\<close>) and the failure backoff
  (\<^verbatim>\<open>abuse.rs\<close>). A listener is a protocol server (\<^verbatim>\<open>socks5.rs\<close>, \<^verbatim>\<open>http_proxy.rs\<close>, \<^verbatim>\<open>vless.rs\<close> and so on) with a user
  table (\<^verbatim>\<open>user.rs\<close>) and a route matcher (\<^verbatim>\<open>routing.rs\<close>). A user delta goes from the controller through the service to
  the server of one inbound, which changes its table and then the shared limiters, connections and sessions.

  \<^bold>\<open>Conventions.\<close> A struct is a \<^theory_text>\<open>record\<close> whose fields carry a short prefix, an enum a \<^theory_text>\<open>datatype\<close>, a method a
  function from the old state to the new one. \<^verbatim>\<open>u8\<close> to \<^verbatim>\<open>u128\<close> are words where they can wrap or saturate, lengths
  are \<^typ>\<open>nat\<close>, \<^verbatim>\<open>Result\<close> is a sum whose left side is the error, a hash map is an association list with distinct
  keys whose order stands for the unspecified iteration order. A panic is an error value of its own: with
  \<^verbatim>\<open>panic = "abort"\<close> in \<^verbatim>\<open>Cargo.toml\<close> it ends the process. The clock, hashes, digests, random bytes, the resolver, files,
  sockets and third-party crates are arguments, with what the code relies on as hypotheses; every theorem with
  hypotheses is followed by a witness that applies it at a concrete value.

  \<^bold>\<open>The theories.\<close>
  \<^item> \<open>Prelude\<close>, \<open>Rust_Text\<close>, \<open>NetAddr\<close>, \<open>Wire\<close>: the standard library as the sources use it. Words, results, hash maps
    and collections of lemmas; strings, trimming, splitting and numbers; IP addresses and their text; byte streams,
    big endian numbers and UTF-8.
  \<^item> \<open>Users\<close>, \<open>User_Tables\<close> (\<^verbatim>\<open>user.rs\<close>): the user record, the four kinds of user table with their deltas, and the pool
    that interns users. The locale \<open>user_table\<close> is the contract of a table, interpreted on all four: a delta means
    \<open>delta_spec\<close>, it keeps the invariant of the table, and a deleted user has no credential left.
  \<^item> \<open>Sharded\<close>: a map split over shards behaves as one map, for every hash. The locale \<open>shard_family\<close> is interpreted on
    the sessions, the traffic and the failure counts.
  \<^item> \<open>Sessions\<close>, \<open>Connections\<close>, \<open>Bandwidth\<close> (\<^verbatim>\<open>limits.rs\<close>): device limits with their guards, the registry that closes the
    connections of a user, and token buckets with the loop that waits for tokens. Shown: in every run the count of a
    user is that of their live sessions and stays within the limit, closing a user shuts down exactly their sockets,
    a limiter never grants more than its rate allows, and a delta cuts the users it removes off in all three.
  \<^item> \<open>Traffic\<close> (\<^verbatim>\<open>traffic.rs\<close>): counters drained shard by shard while connections add to them. Shown: nothing is lost or
    counted twice in any interleaving, and a failed report can be put back.
  \<^item> \<open>Config_Data\<close>, \<open>Config\<close>, \<open>Config_Facts\<close> (\<^verbatim>\<open>config.rs\<close>): the configuration, its validation with every message in the
    order of the source, and what validation guarantees.
  \<^item> \<open>Routing\<close>, \<open>Routing_Facts\<close> (\<^verbatim>\<open>routing.rs\<close>): the rule language, CIDR blocks on words, rule files with includes, protocol
    sniffing and decisions. Shown: exactness of blocks and of the file search, which ends on cyclic includes, and
    agreement of the validator with the matcher.
  \<^item> \<open>Servers\<close> (the user and route parts of the eleven protocol servers): the table each protocol keeps and the
    VMess index beside it, for every sequence of replacements and deltas.
  \<^item> \<open>Service\<close>, \<open>Service_Facts\<close>, \<open>Loops\<close> (\<^verbatim>\<open>service.rs\<close>): starting, the three kinds of hot update, deltas with revisions and
    stopping, over a set of running accept loops. \<open>service_reach\<close> is the step relation; shown over it: listeners
    follow the configuration, failed updates change nothing, and the running loops change by exactly the listeners
    that come and go.
  \<^item> \<open>Abuse\<close> (\<^verbatim>\<open>abuse.rs\<close>): failure counts per address, with the exact condition for a block.
  \<^item> \<open>Metrics\<close> (\<^verbatim>\<open>metrics.rs\<close>): counters, the duration histogram and the readings of \<^verbatim>\<open>/proc\<close>.
  \<^item> \<open>Control\<close> (\<^verbatim>\<open>runtime.rs\<close>, \<^verbatim>\<open>control.rs\<close>): the commands. \<open>control_reach\<close> is the step relation; shown over it: the fingerprint
    kept is that of the configuration the service runs, and every listener reported is running.
  \<^item> \<open>Socks5\<close> (\<^verbatim>\<open>socks5.rs\<close>), \<open>Http_Proxy\<close> (\<^verbatim>\<open>http_proxy.rs\<close>): handshakes and requests over a byte stream. Shown: no request
    is read without the credential of a stored user, and what is sent on reads back.
  \<^item> \<open>Vision\<close>, \<open>Vision_Facts\<close> (\<^verbatim>\<open>vision.rs\<close>): the padding of VLESS Vision. Shown: the decoder does not depend on how the
    stream is cut, and undoes the encoder.
  \<^item> \<open>Dns_Wire\<close>, \<open>Dns\<close>, \<open>Dns_Facts\<close> (\<^verbatim>\<open>dns.rs\<close>): DNS messages, name resolution with its caches and its filter of private
    addresses, and connecting with its backoff, its bound on attempts and the race of addresses. \<open>dns_reach\<close> is the
    step relation. Shown: no message makes the parser panic, answers read back, private addresses are not attempted,
    the attempts in flight are counted exactly, and the race finds a connection when there is one.

  This theory composes the service with the routing engine.

  \<^bold>\<open>Bounds and fuel.\<close> Loops are recursive functions with a termination proof. The search through included rule files
  has fuel, and \<open>Routing_Facts\<close> shows that one more than the number of files is enough. A DNS name is read in at most
  128 steps, as in the source. The loop that waits for tokens may run forever and has a bound on its rounds; that no
  bound is enough for a waiter that is always on time is a theorem.

  \<^bold>\<open>Not modelled.\<close> Relaying bytes between sockets (\<^verbatim>\<open>stream.rs\<close>), binding sockets (\<^verbatim>\<open>socket_bind.rs\<close>) and the accept loops,
  which are input and output of the operating system; an accept loop is a number in a set of running loops, and threads
  are interleavings of critical sections. TLS and REALITY (\<^verbatim>\<open>tls.rs\<close>, \<^verbatim>\<open>reality.rs\<close>), QUIC (\<^verbatim>\<open>quic.rs\<close> and the files beside it), gRPC
  and HTTP/2 (\<^verbatim>\<open>grpc.rs\<close>, \<^verbatim>\<open>http2.rs\<close>) and the handshakes of VMess, VLESS, Trojan, Shadowsocks, Hysteria2, TUIC, AnyTLS, Mieru and
  Naive, which rest on third-party crates for ciphers, digests and sessions. Some pure code is left out with them: the
  sniffing of a first payload (\<^verbatim>\<open>dispatcher.rs\<close>), the client sides of proxies (\<^verbatim>\<open>outbound.rs\<close>), WebSocket and mKCP framing
  (\<^verbatim>\<open>websocket.rs\<close>, \<^verbatim>\<open>httpupgrade.rs\<close>, \<^verbatim>\<open>mkcp.rs\<close>), packet obfuscation (\<^verbatim>\<open>salamander.rs\<close>, \<^verbatim>\<open>quic_packet.rs\<close>) and the control socket
  (\<^verbatim>\<open>control_server.rs\<close>). The benchmark (\<^verbatim>\<open>bench.rs\<close>), the command line (\<^verbatim>\<open>main.rs\<close>), logging and the allocator have no behaviour
  the other parts rely on. Floating point tokens are rational numbers.
\<close>

section \<open>Routing decisions of a running service\<close>

lemma decide_target_from:
  "decide_target env routes host port labels = RD_Direct \<or>
   (\<exists>r \<in> set routes. decide_target env routes host port labels = decision_of r)"
  by (induction routes) auto

lemma resolved_decision:
  assumes "validate_outbounds ext cfg = Inr ()" "validate_routes ext cfg = Inr ()" "ib \<in> set (cc_inbounds cfg)"
    and "r \<in> set (resolved_inbound_routes cfg ib)"
  shows "decision_of r \<noteq> RD_UnsupportedOutbound tag \<and> (decision_of r = RD_Outbound ob \<longrightarrow> validate_outbound ext ob = Inr ())"
proof -
  have obs: "\<forall>ob \<in> set (cc_outbounds cfg). validate_outbound ext ob = Inr ()"
    using assms(1) by (simp add: validate_outbounds_def validate_outbounds_ok)
  from assms(4) obtain r' where r': "r = resolve_route cfg r'" "r' \<in> set (cc_routes cfg @ ib_routes ib)"
    by (auto simp: resolved_inbound_routes_def)
  then have "validate_route_rule ext cfg r' = Inr ()"
    using assms(2,3) by (auto simp: validate_routes_def validate_route_rules_def result_simps)
  from resolve_route_ok [OF this obs] r'(1) show ?thesis
    by (fastforce simp: decision_of_def split: route_action.splits option.splits)
qed


definition example_route_env :: route_env where
  "example_route_env = \<lparr>rv_is_match = (\<lambda>_ _. None), rv_resolve = (\<lambda>_ _. []), rv_env_var = (\<lambda>_. None), rv_files = []\<rparr>"



end
